(* ===== verification/Prelude.thy ===== *)
theory Prelude
  imports Main "HOL-Library.Word" "HOL-Library.Multiset"
begin

unbundle bit_operations_syntax

text \<open>
  Shared vocabulary of the development: the ways a C++ operation of the repository can fail,
  the result type that carries such a failure, bytes and their little-endian grouping into
  machine integers, and the generic list lemmas the components use.

  An \<open>assert\<close> of the source is modelled as it behaves in the build the Xcode projects make
  (assertions on): a failed one ends the program, which is the value \<open>Inl AssertFailed\<close>.
  Reads and writes outside an array, and calls through a null pointer, are undefined behaviour
  in C++; they are \<open>Inl OutOfBounds\<close> and \<open>Inl NullDeref\<close>. An array \<open>new\<close> of a negative
  size throws; it is \<open>Inl BadAlloc\<close>. Any other exception is \<open>Inl Thrown\<close>, and a division by zero,
  which stops the process, is \<open>Inl DivByZero\<close>.
\<close>

section \<open>Collections of rewrite rules\<close>

named_theorems result_simps \<open>unfolding of the result monad\<close>
named_theorems buffer_simps \<open>unfolding of the byte buffer and its accessors\<close>
named_theorems conserve_simps \<open>what an operation keeps of a multiset of matches\<close>

section \<open>Failures and results\<close>

datatype error = AssertFailed | OutOfBounds | NullDeref | BadAlloc | Thrown | DivByZero

type_synonym 'a result = "error + 'a"

definition rbind :: "'a result \<Rightarrow> ('a \<Rightarrow> 'b result) \<Rightarrow> 'b result" where
  "rbind r f = (case r of Inl e \<Rightarrow> Inl e | Inr x \<Rightarrow> f x)"

definition rassert :: "bool \<Rightarrow> 'a result \<Rightarrow> 'a result" where
  "rassert b r = (if b then r else Inl AssertFailed)"

lemma rbind_simps [simp, result_simps]:
  "rbind (Inl e) f = Inl e"
  "rbind (Inr x) f = f x"
  by (simp_all add: rbind_def)

lemma rbind_Inr_iff [simp]: "rbind r f = Inr y \<longleftrightarrow> (\<exists>x. r = Inr x \<and> f x = Inr y)"
  by (cases r) simp_all

lemma rassert_simps [simp, result_simps]:
  "rassert True r = r"
  "rassert False r = Inl AssertFailed"
  by (simp_all add: rassert_def)

lemma rassert_Inr_iff [simp]: "rassert b r = Inr y \<longleftrightarrow> b \<and> r = Inr y"
  by (simp add: rassert_def)

text \<open>A \<open>for\<close> loop over a list whose body may fail.\<close>

primrec rfold :: "('a \<Rightarrow> 's \<Rightarrow> 's result) \<Rightarrow> 'a list \<Rightarrow> 's \<Rightarrow> 's result" where
  "rfold f [] s = Inr s"
| "rfold f (x # xs) s = rbind (f x s) (rfold f xs)"

lemma rfold_append: "rfold f (xs @ ys) s = rbind (rfold f xs s) (rfold f ys)"
proof (induction xs arbitrary: s)
  case (Cons x xs)
  then show ?case
    by (cases "f x s") simp_all
qed simp

lemma rfold_cong:
  "(\<And>x s. x \<in> set xs \<Longrightarrow> P s \<Longrightarrow> f x s = Inr (g x s) \<and> P (g x s)) \<Longrightarrow> P s \<Longrightarrow>
     rfold f xs s = Inr (fold g xs s) \<and> P (fold g xs s)"
  by (induction xs arbitrary: s) simp_all

section \<open>Machine integers\<close>

text \<open>
  \<open>uint8\<close>, \<open>int16\<close>, \<open>int32\<close> and \<open>size_t\<close> of the source. Signedness is a matter of how a word
  is read: \<open>sint\<close> for the signed types, \<open>unat\<close> for the unsigned ones.
\<close>

type_synonym byte = "8 word"
type_synonym int16_w = "16 word"
type_synonym int32_w = "32 word"
type_synonym size_w = "64 word"

text \<open>A 32-bit value in the memory of the little-endian hosts the projects target, and back.\<close>

definition bytes_le32 :: "int32_w \<Rightarrow> byte list" where
  "bytes_le32 w = [ucast w, ucast (drop_bit 8 w), ucast (drop_bit 16 w), ucast (drop_bit 24 w)]"

definition word_le32 :: "byte list \<Rightarrow> int32_w" where
  "word_le32 bs = (case bs of
     [a, b, c, d] \<Rightarrow> ucast a OR push_bit 8 (ucast b) OR push_bit 16 (ucast c) OR push_bit 24 (ucast d)
   | _ \<Rightarrow> 0)"

lemma length_bytes_le32 [simp]: "length (bytes_le32 w) = 4"
  by (simp add: bytes_le32_def)

lemma word_le32_bytes_le32 [simp]: "word_le32 (bytes_le32 w) = w"
proof (rule bit_word_eqI)
  fix n
  assume "n < LENGTH(32)"
  then have "n < 8 \<or> (8 \<le> n \<and> n < 16) \<or> (16 \<le> n \<and> n < 24) \<or> (24 \<le> n \<and> n < 32)"
    by auto
  then show "bit (word_le32 (bytes_le32 w)) n \<longleftrightarrow> bit w n"
    by (elim disjE) (auto simp: word_le32_def bytes_le32_def bit_simps)
qed

lemma bit_byte_high: "8 \<le> n \<Longrightarrow> \<not> bit (x :: byte) n"
  using bit_imp_le_length [of x n] by auto

lemma bytes_le32_word_le32 [simp]: "length bs = 4 \<Longrightarrow> bytes_le32 (word_le32 bs) = bs"
proof -
  assume "length bs = 4"
  then obtain a b c d where bs: "bs = [a, b, c, d]"
    by (auto simp: numeral_eq_Suc length_Suc_conv)
  show ?thesis
    unfolding bs bytes_le32_def word_le32_def list.case
    by (intro list.expand) (auto intro!: bit_word_eqI simp: bit_simps bit_byte_high)
qed

definition bytes_le16 :: "int16_w \<Rightarrow> byte list" where
  "bytes_le16 w = [ucast w, ucast (drop_bit 8 w)]"

definition word_le16 :: "byte list \<Rightarrow> int16_w" where
  "word_le16 bs = (case bs of [a, b] \<Rightarrow> ucast a OR push_bit 8 (ucast b) | _ \<Rightarrow> 0)"

lemma length_bytes_le16 [simp]: "length (bytes_le16 w) = 2"
  by (simp add: bytes_le16_def)

lemma word_le16_bytes_le16 [simp]: "word_le16 (bytes_le16 w) = w"
proof (rule bit_word_eqI)
  fix n
  assume "n < LENGTH(16)"
  then have "n < 8 \<or> (8 \<le> n \<and> n < 16)"
    by auto
  then show "bit (word_le16 (bytes_le16 w)) n \<longleftrightarrow> bit w n"
    by (elim disjE) (auto simp: word_le16_def bytes_le16_def bit_simps)
qed

text \<open>\<open>htonl\<close> and \<open>ntohl\<close> of a little-endian host: the four bytes in the other order.\<close>

definition htonl :: "int32_w \<Rightarrow> int32_w" where
  "htonl w = word_le32 (rev (bytes_le32 w))"

definition ntohl :: "int32_w \<Rightarrow> int32_w" where
  "ntohl w = word_le32 (rev (bytes_le32 w))"

lemma ntohl_htonl [simp]: "ntohl (htonl w) = w"
  by (simp add: ntohl_def htonl_def)

text \<open>
  The sign extension of a narrow signed value, byte-swapped and cut back to the narrow width,
  holds only copies of the sign bit.
\<close>

lemma htonl_scast16: "ucast (htonl (scast (x :: int16_w))) = (if bit x 15 then - 1 else 0 :: int16_w)"
  by (rule bit_word_eqI)
    (auto simp: htonl_def word_le32_def bytes_le32_def bit_simps min_def)

lemma htonl_scast8: "ucast (htonl (scast (x :: byte))) = (if bit x 7 then - 1 else 0 :: byte)"
  by (rule bit_word_eqI)
    (auto simp: htonl_def word_le32_def bytes_le32_def bit_simps min_def)

section \<open>Lists\<close>

text \<open>
  Overwriting a block of memory: \<open>std::copy\<close> or \<open>memcpy\<close> to offset \<open>i\<close> of a vector.
\<close>

definition write_at :: "nat \<Rightarrow> 'a list \<Rightarrow> 'a list \<Rightarrow> 'a list result" where
  "write_at i xs mem =
     (if i + length xs \<le> length mem
      then Inr (take i mem @ xs @ drop (i + length xs) mem)
      else Inl OutOfBounds)"

lemma write_at_ok:
  "i + length xs \<le> length mem \<Longrightarrow>
     write_at i xs mem = Inr (take i mem @ xs @ drop (i + length xs) mem)"
  by (simp add: write_at_def)

text \<open>\<open>std::vector::resize\<close>: cut, or fill up with zeros.\<close>

definition resize :: "nat \<Rightarrow> byte list \<Rightarrow> byte list" where
  "resize n mem = take n mem @ replicate (n - length mem) 0"

lemma length_resize [simp]: "length (resize n mem) = n"
  by (simp add: resize_def)

lemma take_resize: "k \<le> n \<Longrightarrow> k \<le> length mem \<Longrightarrow> take k (resize n mem) = take k mem"
  by (simp add: resize_def min_def)

section \<open>Maps\<close>

lemma ran_del_inj:
  assumes "m i = Some x" and "\<forall>i j x. m i = Some x \<longrightarrow> m j = Some x \<longrightarrow> i = j"
  shows "ran (m(i := None)) = ran m - {x}"
  using assms by (auto simp: ran_def) (metis option.inject)

end
