(* ===== verification/DataBuffer.thy ===== *)
theory DataBuffer
  imports Prelude
begin

text \<open>
  The byte buffer of \<open>Net/DataBuffer.hpp\<close>: a vector with a reader and a writer index. Sockets
  write behind the writer index, the packet loop reads at the reader index, \<open>makeSpace\<close> grows
  the vector or moves the readable bytes to its front. Every operation is total; a failed
  \<open>assert\<close> is an error value. The component's contract is the interface
  \<open>byte_stream\<close>: a queue of bytes whose \<open>contents\<close> are the readable bytes.
\<close>

record DataBuffer =
  buffer :: "byte list"
  readerIndex :: nat
  writerIndex :: nat
  isOperating :: bool

definition kCheapPrepend :: nat where
  "kCheapPrepend = 0"

definition kInitialSize :: nat where
  "kInitialSize = 1024"

definition DataBuffer_new :: "nat \<Rightarrow> DataBuffer" where
  "DataBuffer_new initialSize =
     \<lparr>buffer = replicate (kCheapPrepend + initialSize) 0,
      readerIndex = kCheapPrepend, writerIndex = kCheapPrepend, isOperating = False\<rparr>"

definition readableBytes :: "DataBuffer \<Rightarrow> nat" where
  "readableBytes b = writerIndex b - readerIndex b"

definition writableBytes :: "DataBuffer \<Rightarrow> nat" where
  "writableBytes b = length (buffer b) - writerIndex b"

definition prependableBytes :: "DataBuffer \<Rightarrow> nat" where
  "prependableBytes b = readerIndex b"

text \<open>The memory a \<open>const char*\<close> into the buffer points at.\<close>

definition peek :: "DataBuffer \<Rightarrow> byte list" where
  "peek b = drop (readerIndex b) (buffer b)"

definition beginRead :: "DataBuffer \<Rightarrow> byte list" where
  "beginRead b = drop (readerIndex b) (buffer b)"

definition retrieveAll :: "DataBuffer \<Rightarrow> DataBuffer" where
  "retrieveAll b = b\<lparr>readerIndex := kCheapPrepend, writerIndex := kCheapPrepend\<rparr>"

definition retrieve :: "nat \<Rightarrow> DataBuffer \<Rightarrow> DataBuffer result" where
  "retrieve len b =
     rassert (len \<le> readableBytes b)
       (Inr (if len < readableBytes b then b\<lparr>readerIndex := readerIndex b + len\<rparr>
             else retrieveAll b))"

definition retrieveInt32 :: "DataBuffer \<Rightarrow> DataBuffer result" where
  "retrieveInt32 b = retrieve 4 b"

definition retrieveInt16 :: "DataBuffer \<Rightarrow> DataBuffer result" where
  "retrieveInt16 b = retrieve 2 b"

definition retrieveInt8 :: "DataBuffer \<Rightarrow> DataBuffer result" where
  "retrieveInt8 b = retrieve 1 b"

definition makeSpace :: "nat \<Rightarrow> DataBuffer \<Rightarrow> DataBuffer result" where
  "makeSpace len b =
     (if writableBytes b + prependableBytes b - kCheapPrepend < len
      then Inr (b\<lparr>buffer := resize (writerIndex b + len) (buffer b)\<rparr>)
      else rassert (kCheapPrepend < readerIndex b)
        (let readable = readableBytes b in
         rbind (write_at kCheapPrepend
                  (take readable (drop (readerIndex b) (buffer b))) (buffer b))
           (\<lambda>mem. let b' = b\<lparr>buffer := mem, readerIndex := kCheapPrepend,
                             writerIndex := kCheapPrepend + readable\<rparr>
                  in rassert (readable = readableBytes b') (Inr b'))))"

definition ensureWritableBytes :: "nat \<Rightarrow> DataBuffer \<Rightarrow> DataBuffer result" where
  "ensureWritableBytes len b =
     rbind (if writableBytes b < len then makeSpace len b else Inr b)
       (\<lambda>b'. rassert (len \<le> writableBytes b') (Inr b'))"

definition hasWritten :: "nat \<Rightarrow> DataBuffer \<Rightarrow> DataBuffer result" where
  "hasWritten len b =
     rassert (len \<le> writableBytes b) (Inr (b\<lparr>writerIndex := writerIndex b + len\<rparr>))"

definition unwrite :: "nat \<Rightarrow> DataBuffer \<Rightarrow> DataBuffer result" where
  "unwrite len b =
     rassert (len \<le> readableBytes b) (Inr (b\<lparr>writerIndex := writerIndex b - len\<rparr>))"

text \<open>Storing bytes at \<open>beginWrite()\<close>, as \<open>append\<close> and the socket do.\<close>

definition beginWrite_store :: "byte list \<Rightarrow> DataBuffer \<Rightarrow> DataBuffer result" where
  "beginWrite_store xs b =
     rbind (write_at (writerIndex b) xs (buffer b)) (\<lambda>mem. Inr (b\<lparr>buffer := mem\<rparr>))"

definition append :: "byte list \<Rightarrow> DataBuffer \<Rightarrow> DataBuffer result" where
  "append xs b =
     rbind (ensureWritableBytes (length xs) b) (\<lambda>b1.
     rbind (beginWrite_store xs b1) (\<lambda>b2.
     hasWritten (length xs) b2))"

definition appendInt32 :: "int32_w \<Rightarrow> DataBuffer \<Rightarrow> DataBuffer result" where
  "appendInt32 x b = append (bytes_le32 (htonl x)) b"

definition appendInt16 :: "int16_w \<Rightarrow> DataBuffer \<Rightarrow> DataBuffer result" where
  "appendInt16 x b = append (bytes_le16 (ucast (htonl (scast x)))) b"

definition appendInt8 :: "byte \<Rightarrow> DataBuffer \<Rightarrow> DataBuffer result" where
  "appendInt8 x b = append [ucast (htonl (scast x))] b"

definition peekInt32 :: "DataBuffer \<Rightarrow> int32_w result" where
  "peekInt32 b = rassert (4 \<le> readableBytes b) (Inr (ntohl (word_le32 (take 4 (peek b)))))"

definition peekInt16 :: "DataBuffer \<Rightarrow> int16_w result" where
  "peekInt16 b =
     rassert (2 \<le> readableBytes b) (Inr (ucast (ntohl (scast (word_le16 (take 2 (peek b)))))))"

definition peekInt8 :: "DataBuffer \<Rightarrow> byte result" where
  "peekInt8 b =
     rassert (1 \<le> readableBytes b) (Inr (ucast (ntohl (scast (peek b ! 0)))))"

definition readInt32 :: "DataBuffer \<Rightarrow> (int32_w \<times> DataBuffer) result" where
  "readInt32 b = rbind (peekInt32 b) (\<lambda>v. rbind (retrieveInt32 b) (\<lambda>b'. Inr (v, b')))"

definition readInt16 :: "DataBuffer \<Rightarrow> (int16_w \<times> DataBuffer) result" where
  "readInt16 b = rbind (peekInt16 b) (\<lambda>v. rbind (retrieveInt16 b) (\<lambda>b'. Inr (v, b')))"

definition readInt8 :: "DataBuffer \<Rightarrow> (byte \<times> DataBuffer) result" where
  "readInt8 b = rbind (peekInt8 b) (\<lambda>v. rbind (retrieveInt8 b) (\<lambda>b'. Inr (v, b')))"

definition prepend :: "byte list \<Rightarrow> DataBuffer \<Rightarrow> DataBuffer result" where
  "prepend xs b =
     rassert (length xs \<le> prependableBytes b)
       (let r = readerIndex b - length xs in
        rbind (write_at r xs (buffer b)) (\<lambda>mem. Inr (b\<lparr>buffer := mem, readerIndex := r\<rparr>)))"

definition prependInt32 :: "int32_w \<Rightarrow> DataBuffer \<Rightarrow> DataBuffer result" where
  "prependInt32 x b = prepend (bytes_le32 (htonl x)) b"

definition prependInt16 :: "int16_w \<Rightarrow> DataBuffer \<Rightarrow> DataBuffer result" where
  "prependInt16 x b = prepend (bytes_le16 (ucast (htonl (scast x)))) b"

definition prependInt8 :: "byte \<Rightarrow> DataBuffer \<Rightarrow> DataBuffer result" where
  "prependInt8 x b = prepend [ucast (htonl (scast x))] b"

text \<open>\<open>reserve\<close> changes the capacity of the vector only.\<close>

definition shrink :: "nat \<Rightarrow> DataBuffer \<Rightarrow> DataBuffer" where
  "shrink reserve b = b"

definition operate :: "DataBuffer \<Rightarrow> DataBuffer" where
  "operate b = b\<lparr>isOperating := True\<rparr>"

definition unoperate :: "DataBuffer \<Rightarrow> DataBuffer" where
  "unoperate b = b\<lparr>isOperating := False\<rparr>"

definition isOperate :: "DataBuffer \<Rightarrow> bool" where
  "isOperate b = isOperating b"

section \<open>Invariant and abstraction\<close>

definition buf_ok :: "DataBuffer \<Rightarrow> bool" where
  "buf_ok b \<longleftrightarrow> readerIndex b \<le> writerIndex b \<and> writerIndex b \<le> length (buffer b)"

definition contents :: "DataBuffer \<Rightarrow> byte list" where
  "contents b = take (readableBytes b) (peek b)"

lemmas buffer_defs [buffer_simps] =
  readableBytes_def writableBytes_def prependableBytes_def peek_def beginRead_def contents_def
  buf_ok_def kCheapPrepend_def retrieveAll_def operate_def unoperate_def isOperate_def

lemma length_contents: "buf_ok b \<Longrightarrow> length (contents b) = readableBytes b"
  by (auto simp: buffer_simps)

lemma beginRead_contents: "take (readableBytes b) (beginRead b) = contents b"
  by (simp add: buffer_simps)

lemma DataBuffer_new_ok [simp]: "buf_ok (DataBuffer_new n)" "contents (DataBuffer_new n) = []"
  by (simp_all add: DataBuffer_new_def buffer_simps)

lemma retrieveAll_ok [simp]: "buf_ok (retrieveAll b)" "contents (retrieveAll b) = []"
  by (simp_all add: buffer_simps)

lemma operate_frame [simp]:
  "buf_ok (operate b) = buf_ok b" "contents (operate b) = contents b"
  "buf_ok (unoperate b) = buf_ok b" "contents (unoperate b) = contents b"
  "isOperate (operate b)" "\<not> isOperate (unoperate b)"
  "isOperate (retrieveAll b) = isOperate b"
  by (simp_all add: buffer_simps)

lemma retrieve_spec:
  assumes "buf_ok b" and "n \<le> length (contents b)"
  shows "\<exists>b'. retrieve n b = Inr b' \<and> buf_ok b' \<and> contents b' = drop n (contents b)"
  using assms by (auto simp: retrieve_def buffer_simps drop_take add.commute)

lemma retrieve_fail:
  assumes "buf_ok b" and "length (contents b) < n"
  shows "retrieve n b = Inl AssertFailed"
  using assms by (simp add: retrieve_def length_contents)

lemma makeSpace_spec:
  assumes "buf_ok b" and "writableBytes b < n"
  shows "\<exists>b'. makeSpace n b = Inr b' \<and> buf_ok b' \<and> contents b' = contents b
      \<and> n \<le> writableBytes b' \<and> isOperating b' = isOperating b"
proof (cases "writableBytes b + prependableBytes b - kCheapPrepend < n")
  case True
  with assms show ?thesis
    by (auto simp: makeSpace_def buffer_simps resize_def drop_take [symmetric] take_drop)
next
  case False
  let ?xs = "take (readableBytes b) (drop (readerIndex b) (buffer b))"
  from assms have len: "length ?xs = readableBytes b"
    by (auto simp: buffer_simps)
  from assms False have pos: "kCheapPrepend < readerIndex b"
    by (auto simp: buffer_simps)
  from assms have room: "kCheapPrepend + length ?xs \<le> length (buffer b)"
    by (auto simp: buffer_simps)
  show ?thesis
    using assms False pos len room
    by (auto simp: makeSpace_def Let_def write_at_ok) (auto simp: buffer_simps)
qed

lemma ensureWritableBytes_spec:
  assumes "buf_ok b"
  shows "\<exists>b'. ensureWritableBytes n b = Inr b' \<and> buf_ok b' \<and> contents b' = contents b
      \<and> n \<le> writableBytes b' \<and> isOperating b' = isOperating b"
proof (cases "writableBytes b < n")
  case True
  with makeSpace_spec [OF assms True] show ?thesis
    by (auto simp: ensureWritableBytes_def)
next
  case False
  with assms show ?thesis
    by (auto simp: ensureWritableBytes_def)
qed

text \<open>
  What a socket does to the buffer: it stores the bytes it read behind the writer index, and
  \<open>hasWritten\<close> publishes them.
\<close>

lemma store_hasWritten_spec:
  assumes "buf_ok b" and "length xs \<le> writableBytes b"
  shows "\<exists>b'. rbind (beginWrite_store xs b) (hasWritten (length xs)) = Inr b' \<and> buf_ok b'
      \<and> contents b' = contents b @ xs \<and> isOperating b' = isOperating b"
proof -
  from assms have room: "writerIndex b + length xs \<le> length (buffer b)"
    by (auto simp: buffer_simps)
  from assms have reader: "readerIndex b \<le> writerIndex b" "writerIndex b \<le> length (buffer b)"
    by (auto simp: buffer_simps)
  show ?thesis
    using room reader
    by (auto simp: beginWrite_store_def hasWritten_def write_at_ok buffer_simps drop_take)
qed

lemma append_spec:
  assumes "buf_ok b"
  shows "\<exists>b'. append xs b = Inr b' \<and> buf_ok b' \<and> contents b' = contents b @ xs
      \<and> isOperating b' = isOperating b"
proof -
  from ensureWritableBytes_spec [OF assms, of "length xs"] obtain b1 where
    b1: "ensureWritableBytes (length xs) b = Inr b1" "buf_ok b1" "contents b1 = contents b"
      "length xs \<le> writableBytes b1" "isOperating b1 = isOperating b"
    by auto
  from store_hasWritten_spec [OF b1(2,4)] b1 show ?thesis
    by (auto simp: append_def simp del: rbind_Inr_iff)
qed

lemma unwrite_spec:
  assumes "buf_ok b" and "n \<le> length (contents b)"
  shows "\<exists>b'. unwrite n b = Inr b' \<and> buf_ok b'
      \<and> contents b' = take (length (contents b) - n) (contents b)"
  using assms
  by (auto simp: unwrite_def length_contents) (auto simp: buffer_simps min_def diff_commute add.commute)

lemma prepend_spec:
  assumes "buf_ok b" and "length xs \<le> prependableBytes b"
  shows "\<exists>b'. prepend xs b = Inr b' \<and> buf_ok b' \<and> contents b' = xs @ contents b"
  using assms
  by (auto simp: prepend_def write_at_ok buffer_simps min_def Let_def simp flip: length_0_conv)

section \<open>The byte-stream interface\<close>

text \<open>
  What the users of the buffer rely on: appending never fails and adds at the end, retrieving
  takes from the front and fails exactly when fewer bytes are there.
\<close>

locale byte_stream =
  fixes content :: "'b \<Rightarrow> byte list"
    and ok :: "'b \<Rightarrow> bool"
    and push :: "byte list \<Rightarrow> 'b \<Rightarrow> 'b result"
    and pop :: "nat \<Rightarrow> 'b \<Rightarrow> 'b result"
  assumes push_law: "ok b \<Longrightarrow> \<exists>b'. push xs b = Inr b' \<and> ok b' \<and> content b' = content b @ xs"
    and pop_law: "ok b \<Longrightarrow> n \<le> length (content b) \<Longrightarrow>
          \<exists>b'. pop n b = Inr b' \<and> ok b' \<and> content b' = drop n (content b)"
    and pop_fail: "ok b \<Longrightarrow> length (content b) < n \<Longrightarrow> pop n b = Inl AssertFailed"
begin

lemma pop_InrD:
  assumes "ok b" and "pop n b = Inr b'"
  shows "n \<le> length (content b) \<and> ok b' \<and> content b' = drop n (content b)"
proof (cases "n \<le> length (content b)")
  case True
  with pop_law [OF assms(1) True] assms(2) show ?thesis by auto
next
  case False
  with pop_fail [OF assms(1)] assms(2) show ?thesis by simp
qed

lemma push_InrD: "ok b \<Longrightarrow> push xs b = Inr b' \<Longrightarrow> ok b' \<and> content b' = content b @ xs"
  using push_law [of b xs] by auto

lemma push_pop:
  assumes "ok b" and "content b = []"
  shows "\<exists>b1 b2. push xs b = Inr b1 \<and> take (length xs) (content b1) = xs
      \<and> pop (length xs) b1 = Inr b2 \<and> ok b2 \<and> content b2 = []"
proof -
  obtain b1 where b1: "push xs b = Inr b1" "ok b1" "content b1 = content b @ xs"
    using push_law [OF assms(1)] by blast
  with assms pop_law [OF b1(2), of "length xs"] show ?thesis by auto
qed

end

interpretation bs: byte_stream contents buf_ok append retrieve
proof unfold_locales
  show "\<exists>b'. append xs b = Inr b' \<and> buf_ok b' \<and> contents b' = contents b @ xs"
    if "buf_ok b" for b xs
    using append_spec [OF that] by blast
qed (use retrieve_spec retrieve_fail in auto)

lemma take_peek: "n \<le> readableBytes b \<Longrightarrow> take n (peek b) = take n (contents b)"
  by (simp add: contents_def min_def)

lemma readInt32_spec:
  assumes "buf_ok b" and "contents b = bytes_le32 (htonl x) @ rest"
  shows "\<exists>b'. readInt32 b = Inr (x, b') \<and> buf_ok b' \<and> contents b' = rest"
proof -
  from assms have len: "4 \<le> readableBytes b"
    using length_contents [OF assms(1)] by simp
  from retrieve_spec [OF assms(1), of 4] assms(2) obtain b' where
    "retrieve 4 b = Inr b'" "buf_ok b'" "contents b' = rest"
    by auto
  with assms len show ?thesis
    by (simp add: readInt32_def peekInt32_def retrieveInt32_def take_peek)
qed

section \<open>Properties\<close>

text \<open>Appending never fails: on a well-formed buffer, whatever its free space, \<open>append\<close>
  succeeds without a failed assertion, keeps the buffer well formed, and the readable bytes
  become the old ones followed by the new ones (growing or compacting the vector loses nothing).\<close>

theorem append_appends:
  assumes "buf_ok b"
  shows "\<exists>b'. append xs b = Inr b' \<and> buf_ok b' \<and> contents b' = contents b @ xs"
  using bs.push_law [OF assms] .

theorem append_appends_witness:
  "buf_ok (DataBuffer_new 2) \<and>
   (\<exists>b'. append [1, 2, 3] (DataBuffer_new 2) = Inr b' \<and> buf_ok b' \<and> contents b' = [1, 2, 3])"
  using append_appends [of "DataBuffer_new 2" "[1, 2, 3]"] by simp

text \<open>A 32-bit integer written with \<open>appendInt32\<close> behind any readable bytes is the value
  \<open>readInt32\<close> returns once those bytes have been retrieved, and the buffer is then empty.\<close>

theorem int32_round_trip:
  assumes "buf_ok b"
  shows "\<exists>b1 b2 b3. appendInt32 x b = Inr b1 \<and> retrieve (length (contents b)) b1 = Inr b2
      \<and> readInt32 b2 = Inr (x, b3) \<and> buf_ok b3 \<and> contents b3 = []"
proof -
  obtain b1 where b1: "appendInt32 x b = Inr b1" "buf_ok b1"
      "contents b1 = contents b @ bytes_le32 (htonl x)"
    using bs.push_law [OF assms] by (auto simp: appendInt32_def)
  from bs.pop_law [OF b1(2), of "length (contents b)"] b1(3) obtain b2 where
    b2: "retrieve (length (contents b)) b1 = Inr b2" "buf_ok b2"
      "contents b2 = bytes_le32 (htonl x) @ []"
    by auto
  from b1(1) b2(1) readInt32_spec [OF b2(2,3)] show ?thesis
    by blast
qed

theorem int32_round_trip_witness:
  "\<exists>b1 b2 b3. appendInt32 305419896 (DataBuffer_new 0) = Inr b1
      \<and> retrieve (length (contents (DataBuffer_new 0))) b1 = Inr b2
      \<and> readInt32 b2 = Inr (305419896, b3) \<and> buf_ok b3 \<and> contents b3 = []"
  by (rule int32_round_trip) simp

text \<open>The 16-bit pair does not round-trip. \<open>appendInt16\<close> and \<open>readInt16\<close> go through
  the 32-bit \<open>htonl\<close> and \<open>ntohl\<close>, so what is read back is \<open>-1\<close> for every negative value
  and \<open>0\<close> for every other one.\<close>

theorem int16_keeps_only_the_sign:
  assumes "buf_ok b" and "contents b = []"
  shows "\<exists>b1 b2. appendInt16 x b = Inr b1
      \<and> readInt16 b1 = Inr (if bit x 15 then - 1 else 0, b2)"
proof -
  let ?v = "ucast (htonl (scast x)) :: int16_w"
  obtain b1 where b1: "appendInt16 x b = Inr b1" "buf_ok b1" "contents b1 = bytes_le16 ?v"
    using bs.push_law [OF assms(1)] assms(2) by (auto simp: appendInt16_def)
  then have len: "2 \<le> readableBytes b1"
    using length_contents [OF b1(2)] by simp
  from bs.pop_law [OF b1(2), of 2] b1(3) obtain b2 where b2: "retrieve 2 b1 = Inr b2"
    by auto
  have "ucast (ntohl (scast ?v)) = (if bit x 15 then - 1 else 0 :: int16_w)"
    using htonl_scast16 [of ?v] htonl_scast16 [of x] by (simp add: ntohl_def htonl_def)
  with b1 b2 len show ?thesis
    by (auto simp: readInt16_def peekInt16_def retrieveInt16_def take_peek)
qed

theorem int16_keeps_only_the_sign_witness:
  "\<exists>b1 b2. appendInt16 7 (DataBuffer_new 8) = Inr b1 \<and> readInt16 b1 = Inr (0, b2)"
  using int16_keeps_only_the_sign [of "DataBuffer_new 8" 7] by simp

end
