(* ===== verification/NetPacket.thy ===== *)
theory NetPacket
  imports DataBuffer
begin

text \<open>
  The packet format of \<open>Net/base/FASIOType.h\<close> and \<open>Net/Util/NetPacket.cpp\<close>: a header of three
  32-bit integers (message type, body size, extra id) in host byte order, then the body. The
  comparisons of the source mix \<open>int\<close> and \<open>size_t\<close>; the model keeps both widths, so a negative
  size takes the same route through sign extension and unsigned comparison as in the code.
\<close>

record PacketHeader =
  ptype :: int32_w
  psize :: int32_w
  extraID :: int32_w

definition kPacketHeaderSize :: nat where
  "kPacketHeaderSize = 12"

definition header_bytes :: "PacketHeader \<Rightarrow> byte list" where
  "header_bytes h = bytes_le32 (ptype h) @ bytes_le32 (psize h) @ bytes_le32 (extraID h)"

text \<open>The cast \<open>(PacketHeader*)data\<close>.\<close>

definition header_of :: "byte list \<Rightarrow> PacketHeader" where
  "header_of bs =
     \<lparr>ptype = word_le32 (take 4 bs), psize = word_le32 (take 4 (drop 4 bs)),
      extraID = word_le32 (take 4 (drop 8 bs))\<rparr>"

text \<open>\<open>header->size + kPacketHeaderSize\<close>: the \<open>int32\<close> is sign-extended to \<open>size_t\<close>, the sum wraps.\<close>

definition packetTotal :: "PacketHeader \<Rightarrow> size_w" where
  "packetTotal h = scast (psize h) + of_nat kPacketHeaderSize"

definition hasPacket :: "byte list \<Rightarrow> int32_w \<Rightarrow> bool" where
  "hasPacket data len =
     (if of_nat kPacketHeaderSize \<le> (scast len :: size_w)
      then (let header = header_of data in packetTotal header \<le> scast len)
      else False)"

text \<open>
  A packet object: its bytes and the logic id the sender may set. \<open>logicID_\<close> is not initialised
  by any constructor; \<open>None\<close> is that indeterminate value.
\<close>

record NetPacket =
  pkt_buffer :: "byte list"
  pkt_logicID :: "int option"

definition pkt_size :: "NetPacket \<Rightarrow> nat" where
  "pkt_size p = length (pkt_buffer p)"

definition setLogicID :: "int \<Rightarrow> NetPacket \<Rightarrow> NetPacket" where
  "setLogicID l p = p\<lparr>pkt_logicID := Some l\<rparr>"

text \<open>\<open>memcpy(dst, data, n)\<close> reads \<open>n\<close> bytes of the memory behind \<open>data\<close>.\<close>

definition read_mem :: "byte list \<Rightarrow> nat \<Rightarrow> byte list result" where
  "read_mem data n = (if n \<le> length data then Inr (take n data) else Inl OutOfBounds)"

definition NetPacket_raw :: "byte list \<Rightarrow> int32_w \<Rightarrow> NetPacket result" where
  "NetPacket_raw data sz =
     (if sint sz < 0 then Inl BadAlloc
      else rbind (read_mem data (unat sz)) (\<lambda>bs. Inr \<lparr>pkt_buffer = bs, pkt_logicID = None\<rparr>))"

definition NetPacket_hdr :: "byte list \<Rightarrow> PacketHeader \<Rightarrow> NetPacket result" where
  "NetPacket_hdr data header =
     (if sint (psize header) < 0 then Inl OutOfBounds
      else rbind (read_mem data (unat (psize header)))
        (\<lambda>bs. Inr \<lparr>pkt_buffer = header_bytes header @ bs, pkt_logicID = None\<rparr>))"

definition NetPacket_msg :: "byte list \<Rightarrow> int32_w \<Rightarrow> int32_w \<Rightarrow> int32_w \<Rightarrow> NetPacket result" where
  "NetPacket_msg data sz msgid extraid =
     (let header = \<lparr>ptype = msgid, psize = sz, extraID = extraid\<rparr> in
      if sint sz < 0 then Inl OutOfBounds
      else rbind (read_mem data (unat sz))
        (\<lambda>bs. Inr \<lparr>pkt_buffer = header_bytes header @ bs, pkt_logicID = None\<rparr>))"

definition getPacket :: "byte list \<Rightarrow> int32_w \<Rightarrow> NetPacket option result" where
  "getPacket data len =
     (if of_nat kPacketHeaderSize < (scast len :: size_w)
      then (let header = header_of data in
            if packetTotal header \<le> scast len
            then rbind (NetPacket_raw data (ucast (packetTotal header))) (\<lambda>p. Inr (Some p))
            else Inr None)
      else Inr None)"

definition createPacket :: "byte list \<Rightarrow> int32_w \<Rightarrow> int32_w \<Rightarrow> int32_w \<Rightarrow> NetPacket result" where
  "createPacket data len msgid extraid = NetPacket_msg data len msgid extraid"

text \<open>The overload for a \<open>std::string\<close>, whose size is narrowed to \<open>int\<close>.\<close>

definition createPacket_str :: "byte list \<Rightarrow> int32_w \<Rightarrow> int32_w \<Rightarrow> NetPacket result" where
  "createPacket_str str msgid extraid = NetPacket_msg str (of_nat (length str)) msgid extraid"

section \<open>Sizes\<close>

lemma length_header_bytes [simp]: "length (header_bytes h) = kPacketHeaderSize"
  by (simp add: header_bytes_def kPacketHeaderSize_def)

lemma header_of_header_bytes [simp]: "header_of (header_bytes h @ rest) = h"
  by (simp add: header_of_def header_bytes_def)

lemma header_of_append: "kPacketHeaderSize \<le> length xs \<Longrightarrow> header_of (xs @ ys) = header_of xs"
  by (simp add: header_of_def kPacketHeaderSize_def)

lemma header_of_take: "kPacketHeaderSize \<le> n \<Longrightarrow> header_of (take n xs) = header_of xs"
  by (simp add: header_of_def kPacketHeaderSize_def take_drop [symmetric] min_def drop_take)

lemma scast_of_nat: "n < 2 ^ 31 \<Longrightarrow> (scast (of_nat n :: int32_w) :: size_w) = of_nat n"
proof -
  assume n: "n < 2 ^ 31"
  then have "sint (of_nat n :: int32_w) = int n"
    by (simp add: signed_of_nat signed_take_bit_int_eq_self)
  then show ?thesis
    by (simp add: scast_eq)
qed

lemma unat_of_nat_size: "n < 2 ^ 32 \<Longrightarrow> unat (of_nat n :: size_w) = n"
  by (simp add: unat_of_nat take_bit_nat_eq_self)

lemma hasPacket_iff:
  assumes "n < 2 ^ 31"
  shows "hasPacket bs (of_nat n) \<longleftrightarrow>
    kPacketHeaderSize \<le> n \<and> unat (packetTotal (header_of bs)) \<le> n"
  using assms
  by (simp add: hasPacket_def scast_of_nat Let_def word_le_nat_alt unat_of_nat_size kPacketHeaderSize_def)

lemma packetTotal_wf:
  assumes "psize h = of_nat n" and "n < 2 ^ 31"
  shows "unat (packetTotal h) = kPacketHeaderSize + n"
proof -
  have "packetTotal h = of_nat (kPacketHeaderSize + n)"
    using assms by (simp add: packetTotal_def scast_of_nat)
  moreover have "kPacketHeaderSize + n < 2 ^ 32"
    using assms(2) by (simp add: kPacketHeaderSize_def)
  ultimately show ?thesis
    using unat_of_nat_size by metis
qed

end
