(* ===== verification/PacketLoop.thy ===== *)
theory PacketLoop
  imports NetPacket
begin

text \<open>
  The receive loop of \<open>CPG/Net/CPGNetSession.cpp\<close> (\<open>defaultMessageCallback\<close>; the same loop is
  in \<open>CPGToCentralSession.cpp\<close>): while the input buffer holds a complete packet, hand its header
  and body to the session's handler and retrieve it from the buffer. The handler is a parameter
  over a state \<open>'w\<close>; the dispatch each session class does in it is in \<open>CPGSession\<close>.
  The loop need not end, so it is a partial function into \<open>option\<close>: \<open>None\<close> is a loop that never
  returns.
\<close>

text \<open>The bytes a handler may read behind \<open>peek() + kPacketHeaderSize\<close>.\<close>

definition packet_body :: "PacketHeader \<Rightarrow> byte list \<Rightarrow> byte list" where
  "packet_body h bs = take (nat (sint (psize h))) (drop kPacketHeaderSize bs)"

partial_function (option) packetLoop ::
  "(PacketHeader \<Rightarrow> byte list \<Rightarrow> 'w \<Rightarrow> 'w result) \<Rightarrow> DataBuffer \<Rightarrow> 'w
     \<Rightarrow> (DataBuffer \<times> 'w) result option"
where
  "packetLoop handle data w =
     (if hasPacket (peek data) (of_nat (readableBytes data))
      then (let header = header_of (peek data) in
        case handle header (packet_body header (contents data)) w of
          Inl e \<Rightarrow> Some (Inl e)
        | Inr w' \<Rightarrow>
           (case retrieve (unat (packetTotal header)) data of
              Inl e \<Rightarrow> Some (Inl e)
            | Inr data' \<Rightarrow> packetLoop handle data' w'))
      else Some (Inr (data, w)))"

text \<open>
  What \<open>TCPSession::handRead\<close> does with the chunks a socket delivers, one after the other:
  put the chunk behind the unread bytes, run the loop.
\<close>

fun receive ::
  "(PacketHeader \<Rightarrow> byte list \<Rightarrow> 'w \<Rightarrow> 'w result) \<Rightarrow> byte list list \<Rightarrow> DataBuffer \<Rightarrow> 'w
     \<Rightarrow> (DataBuffer \<times> 'w) result option"
where
  "receive handle [] b w = Some (Inr (b, w))"
| "receive handle (c # cs) b w =
     (case append c b of
        Inl e \<Rightarrow> Some (Inl e)
      | Inr b1 \<Rightarrow>
         (case packetLoop handle b1 w of
            Some (Inr (b2, w2)) \<Rightarrow> receive handle cs b2 w2
          | r \<Rightarrow> r))"

section \<open>Well-formed streams\<close>

definition encode_frame :: "PacketHeader \<times> byte list \<Rightarrow> byte list" where
  "encode_frame f = header_bytes (fst f) @ snd f"

definition wf_frame :: "PacketHeader \<times> byte list \<Rightarrow> bool" where
  "wf_frame f \<longleftrightarrow> psize (fst f) = of_nat (length (snd f)) \<and> length (snd f) < 2 ^ 31"

fun run_handlers ::
  "(PacketHeader \<Rightarrow> byte list \<Rightarrow> 'w \<Rightarrow> 'w result) \<Rightarrow> (PacketHeader \<times> byte list) list \<Rightarrow> 'w \<Rightarrow> 'w result"
where
  "run_handlers handle [] w = Inr w"
| "run_handlers handle (f # fs) w = rbind (handle (fst f) (snd f) w) (run_handlers handle fs)"

definition complete :: "byte list \<Rightarrow> bool" where
  "complete bs \<longleftrightarrow> hasPacket bs (of_nat (length bs))"

section \<open>One iteration, seen on the readable bytes\<close>

lemma hasPacket_contents:
  assumes "buf_ok b" and "length (contents b) < 2 ^ 31"
  shows "hasPacket (peek b) (of_nat (readableBytes b)) \<longleftrightarrow> complete (contents b)"
proof -
  have "header_of (peek b) = header_of (contents b)" if "kPacketHeaderSize \<le> readableBytes b"
    using that by (simp add: contents_def header_of_take)
  with assms show ?thesis
    by (auto simp: complete_def length_contents hasPacket_iff)
qed

lemma complete_iff:
  assumes "length bs < 2 ^ 31"
  shows "complete bs \<longleftrightarrow> kPacketHeaderSize \<le> length bs \<and> unat (packetTotal (header_of bs)) \<le> length bs"
  using assms by (simp add: complete_def hasPacket_iff)

lemma header_of_contents:
  assumes "buf_ok b" and "kPacketHeaderSize \<le> length (contents b)"
  shows "header_of (peek b) = header_of (contents b)"
  using assms by (simp add: length_contents) (simp add: contents_def header_of_take)

lemma packetLoop_stop:
  assumes "buf_ok b" and "length (contents b) < 2 ^ 31" and "\<not> complete (contents b)"
  shows "packetLoop handle b w = Some (Inr (b, w))"
  using assms by (simp add: packetLoop.simps [of handle b w] hasPacket_contents)

lemma retrieve_packet:
  assumes "buf_ok b" and "length (contents b) < 2 ^ 31" and "complete (contents b)"
  shows "\<exists>b'. retrieve (unat (packetTotal (header_of (contents b)))) b = Inr b' \<and> buf_ok b'
      \<and> contents b' = drop (unat (packetTotal (header_of (contents b)))) (contents b)"
  using assms by (intro bs.pop_law) (simp_all add: complete_iff)

lemma packetLoop_step:
  assumes "buf_ok b" and "length (contents b) < 2 ^ 31" and "complete (contents b)"
    and "retrieve (unat (packetTotal (header_of (contents b)))) b = Inr b'"
  shows "packetLoop handle b w =
          (case handle (header_of (contents b)) (packet_body (header_of (contents b)) (contents b)) w of
             Inl e \<Rightarrow> Some (Inl e) | Inr w' \<Rightarrow> packetLoop handle b' w')"
proof -
  from assms(2,3) have len: "kPacketHeaderSize \<le> length (contents b)"
    by (simp add: complete_iff)
  with assms header_of_contents [OF assms(1) len] show ?thesis
    by (auto simp: packetLoop.simps [of handle b w] hasPacket_contents Let_def split: sum.splits)
qed

lemma packet_body_append:
  assumes "length (bs @ ys) < 2 ^ 31" and "complete bs"
  shows "packet_body (header_of bs) (bs @ ys) = packet_body (header_of bs) bs"
proof (cases "sint (psize (header_of bs)) < 0")
  case True
  then show ?thesis by (simp add: packet_body_def)
next
  case False
  let ?s = "psize (header_of bs)"
  have "(scast ?s :: size_w) = of_nat (nat (sint ?s))"
    using False by (metis scast_eq of_nat_nat not_less)
  then have "packetTotal (header_of bs) = of_nat (kPacketHeaderSize + nat (sint ?s))"
    by (simp add: packetTotal_def)
  moreover have "sint ?s < 2 ^ 31"
    using sint_lt [of ?s] by simp
  then have "kPacketHeaderSize + nat (sint ?s) < 2 ^ 32"
    using False by (simp add: kPacketHeaderSize_def)
  ultimately have "unat (packetTotal (header_of bs)) = kPacketHeaderSize + nat (sint ?s)"
    using unat_of_nat_size by metis
  moreover from assms have "unat (packetTotal (header_of bs)) \<le> length bs"
    by (simp add: complete_iff)
  ultimately show ?thesis
    by (simp add: packet_body_def)
qed

text \<open>More bytes behind a complete packet do not change the first iteration.\<close>

lemma complete_append:
  assumes "length (bs @ ys) < 2 ^ 31" and "complete bs"
  shows "complete (bs @ ys)" "header_of (bs @ ys) = header_of bs"
    "unat (packetTotal (header_of bs)) \<le> length bs"
proof -
  from assms have *: "kPacketHeaderSize \<le> length bs" "unat (packetTotal (header_of bs)) \<le> length bs"
    by (simp_all add: complete_iff)
  then show "header_of (bs @ ys) = header_of bs" "unat (packetTotal (header_of bs)) \<le> length bs"
    by (simp_all add: header_of_append)
  with * assms(1) show "complete (bs @ ys)"
    by (simp add: complete_iff)
qed

section \<open>The loop on a stream that arrives in pieces\<close>

text \<open>
  \<open>packetLoop_Some_induct\<close> is fixed-point induction for the loop in the shape the proofs below
  need: a property of buffer, state and result that holds when the loop stops, when the handler
  fails, and is kept by an iteration.
\<close>

lemma packetLoop_Some_induct [consumes 3, case_names stop fail step]:
  assumes "packetLoop handle b w = Some r" and "buf_ok b" and "length (contents b) < 2 ^ 31"
    and stop: "\<And>b w. buf_ok b \<Longrightarrow> length (contents b) < 2 ^ 31 \<Longrightarrow> \<not> complete (contents b) \<Longrightarrow>
      P b w (Inr (b, w))"
    and fail: "\<And>b w e. buf_ok b \<Longrightarrow> length (contents b) < 2 ^ 31 \<Longrightarrow> complete (contents b) \<Longrightarrow>
      handle (header_of (contents b)) (packet_body (header_of (contents b)) (contents b)) w = Inl e \<Longrightarrow>
      P b w (Inl e)"
    and step: "\<And>b w b' w' r. buf_ok b \<Longrightarrow> length (contents b) < 2 ^ 31 \<Longrightarrow> complete (contents b) \<Longrightarrow>
      handle (header_of (contents b)) (packet_body (header_of (contents b)) (contents b)) w = Inr w' \<Longrightarrow>
      buf_ok b' \<Longrightarrow>
      contents b' = drop (unat (packetTotal (header_of (contents b)))) (contents b) \<Longrightarrow>
      P b' w' r \<Longrightarrow> P b w r"
  shows "P b w r"
proof -
  have "handle = handle \<longrightarrow> buf_ok b \<longrightarrow> length (contents b) < 2 ^ 31 \<longrightarrow> P b w r"
  proof (rule packetLoop.raw_induct
      [where P = "\<lambda>h b w r. h = handle \<longrightarrow> buf_ok b \<longrightarrow> length (contents b) < 2 ^ 31 \<longrightarrow> P b w r",
        OF _ assms(1)], intro impI)
    fix loop h b w r
    assume IH: "\<And>h b w r. loop h b w = Some r \<Longrightarrow>
        h = handle \<longrightarrow> buf_ok b \<longrightarrow> length (contents b) < 2 ^ 31 \<longrightarrow> P b w r"
      and eq: "(if hasPacket (peek b) (of_nat (readableBytes b))
        then (let header = header_of (peek b) in
          case h header (packet_body header (contents b)) w of
            Inl e \<Rightarrow> Some (Inl e)
          | Inr w' \<Rightarrow>
             (case retrieve (unat (packetTotal header)) b of
                Inl e \<Rightarrow> Some (Inl e) | Inr data' \<Rightarrow> loop h data' w'))
        else Some (Inr (b, w))) = Some r"
      and h: "h = handle" and ok: "buf_ok b" and len: "length (contents b) < 2 ^ 31"
    show "P b w r"
    proof (cases "complete (contents b)")
      case False
      with eq ok len have "r = Inr (b, w)" by (simp add: hasPacket_contents)
      with stop ok len False show ?thesis by simp
    next
      case True
      from retrieve_packet [OF ok len True] obtain b' where
        b': "retrieve (unat (packetTotal (header_of (contents b)))) b = Inr b'" "buf_ok b'"
          "contents b' = drop (unat (packetTotal (header_of (contents b)))) (contents b)"
        by blast
      have hd: "header_of (peek b) = header_of (contents b)"
        using True len by (intro header_of_contents [OF ok]) (simp add: complete_iff)
      show ?thesis
      proof (cases "handle (header_of (contents b))
            (packet_body (header_of (contents b)) (contents b)) w")
        case (Inl e)
        with eq h ok len True hd have "r = Inl e" by (simp add: hasPacket_contents Let_def)
        with fail [OF ok len True Inl] show ?thesis by simp
      next
        case (Inr w')
        with eq h ok len True hd b' have "loop handle b' w' = Some r"
          by (simp add: hasPacket_contents Let_def)
        with IH b' len have "P b' w' r" by auto
        with step [OF ok len True Inr b'(2,3)] show ?thesis by simp
      qed
    qed
  qed
  with assms(2,3) show ?thesis by blast
qed

lemma packetLoop_append:
  assumes "packetLoop handle b w = Some r" and "buf_ok b" and "length (contents b) < 2 ^ 31"
    and "r = Inr (b', w')" and "buf_ok b2" and "contents b2 = contents b @ ys"
    and "length (contents b2) < 2 ^ 31"
  shows "\<exists>b3. buf_ok b3 \<and> contents b3 = contents b' @ ys
      \<and> packetLoop handle b2 w = packetLoop handle b3 w'"
  using assms
proof (induction arbitrary: b2 rule: packetLoop_Some_induct)
  case (stop b w)
  then show ?case by auto
next
  case (fail b w e)
  then show ?case by simp
next
  case (step b w b1 w1 r)
  let ?n = "unat (packetTotal (header_of (contents b)))"
  have len2: "length (contents b @ ys) < 2 ^ 31"
    using step.prems(3,4) by simp
  note more = complete_append [OF len2 step.hyps(3)] packet_body_append [OF len2 step.hyps(3)]
  from retrieve_packet [OF step.prems(2,4)] more step.prems(3) obtain b4 where
    b4: "retrieve ?n b2 = Inr b4" "buf_ok b4" "contents b4 = drop ?n (contents b @ ys)"
    by auto
  from b4(3) more(3) step.hyps(6) have c4: "contents b4 = contents b1 @ ys"
    by simp
  have "packetLoop handle b2 w = packetLoop handle b4 w1"
    using packetLoop_step [OF step.prems(2,4), of b4 handle w] more step.prems(3) b4(1) step.hyps(4)
    by simp
  moreover have "length (contents b4) < 2 ^ 31"
    using b4(3) len2 by simp
  ultimately show ?case
    using step.IH [OF step.prems(1) b4(2) c4] by simp
qed

text \<open>If the loop ends on a stream it ends on every prefix of it.\<close>

lemma packetLoop_prefix:
  assumes "packetLoop handle b2 w = Some r" and "buf_ok b2" and "length (contents b2) < 2 ^ 31"
    and "r = Inr (b', w')" and "buf_ok b" and "contents b2 = contents b @ ys"
  shows "\<exists>b3 w3. packetLoop handle b w = Some (Inr (b3, w3)) \<and> buf_ok b3
      \<and> \<not> complete (contents b3) \<and> length (contents b3) \<le> length (contents b)"
  using assms
proof (induction arbitrary: b rule: packetLoop_Some_induct)
  case (stop b2 w)
  then have "\<not> complete (contents b)"
    using complete_append(1) [of "contents b" ys] by auto
  with stop show ?case
    using packetLoop_stop [of b] by (metis length_append le_add1 order.strict_trans1 order.refl)
next
  case (fail b2 w e)
  then show ?case by simp
next
  case (step b2 w b1 w1 r)
  have len: "length (contents b) < 2 ^ 31"
    using step.prems(3) step.hyps(2) by simp
  show ?case
  proof (cases "complete (contents b)")
    case False
    with packetLoop_stop [OF step.prems(2) len False, of handle w] step.prems(2) show ?thesis
      by (metis order.refl)
  next
    case True
    let ?n = "unat (packetTotal (header_of (contents b)))"
    have len2: "length (contents b @ ys) < 2 ^ 31"
      using step.prems(3) step.hyps(2) by simp
    note more = complete_append [OF len2 True] packet_body_append [OF len2 True]
    from retrieve_packet [OF step.prems(2) len True] obtain b4 where
      b4: "retrieve ?n b = Inr b4" "buf_ok b4" "contents b4 = drop ?n (contents b)"
      by auto
    have "packetLoop handle b w = packetLoop handle b4 w1"
      using packetLoop_step [OF step.prems(2) len True b4(1), of handle w] more step.prems(3) step.hyps(4)
      by simp
    moreover have "contents b1 = contents b4 @ ys"
      using step.hyps(6) step.prems(3) more b4(3) by simp
    moreover have "length (contents b4) \<le> length (contents b)"
      using b4(3) by simp
    ultimately show ?thesis
      using step.IH [OF step.prems(1) b4(2)] by fastforce
  qed
qed

lemma receive_eq_packetLoop:
  assumes "packetLoop handle B w = Some (Inr (B', w'))" and "buf_ok B"
    and "contents B = contents b @ concat cs" and "length (contents B) < 2 ^ 31"
    and "buf_ok b" and "\<not> complete (contents b)"
  shows "\<exists>b'. receive handle cs b w = Some (Inr (b', w')) \<and> buf_ok b' \<and> contents b' = contents B'"
  using assms
proof (induction cs arbitrary: b w B)
  case Nil
  then have "contents B = contents b" by simp
  with Nil have "packetLoop handle B w = Some (Inr (B, w))"
    by (intro packetLoop_stop) simp_all
  with Nil show ?case by auto
next
  case (Cons c cs)
  obtain b1 where b1: "append c b = Inr b1" "buf_ok b1" "contents b1 = contents b @ c"
    using bs.push_law [OF Cons.prems(5)] by blast
  have B1: "contents B = contents b1 @ concat cs"
    using Cons.prems(3) b1(3) by simp
  from packetLoop_prefix [OF Cons.prems(1,2,4) refl b1(2) B1] obtain b2 w2 where
    b2: "packetLoop handle b1 w = Some (Inr (b2, w2))" "buf_ok b2" "\<not> complete (contents b2)"
    by blast
  have len1: "length (contents b1) < 2 ^ 31"
    using B1 Cons.prems(4) by simp
  from packetLoop_append [OF b2(1) b1(2) len1 refl Cons.prems(2) B1 Cons.prems(4)] obtain B2 where
    B2: "buf_ok B2" "contents B2 = contents b2 @ concat cs"
      "packetLoop handle B w = packetLoop handle B2 w2"
    by blast
  have len2: "length (contents b2) \<le> length (contents b1)"
    using packetLoop_prefix [OF b2(1) b1(2) len1 refl b1(2), of "[]"] b2(1) by auto
  have "\<exists>b'. receive handle cs b2 w2 = Some (Inr (b', w')) \<and> buf_ok b' \<and> contents b' = contents B'"
  proof (rule Cons.IH)
    show "packetLoop handle B2 w2 = Some (Inr (B', w'))"
      using B2(3) Cons.prems(1) by simp
    show "length (contents B2) < 2 ^ 31"
      using len2 B1 B2(2) Cons.prems(4) by simp
  qed (use B2 b2 in auto)
  with b1(1) b2(1) show ?case by simp
qed

section \<open>The loop on well-formed packets\<close>

lemma wf_frame_complete:
  assumes "wf_frame f" and "length (encode_frame f @ rest) < 2 ^ 31"
  shows "complete (encode_frame f @ rest)" "header_of (encode_frame f @ rest) = fst f"
    "packet_body (fst f) (encode_frame f @ rest) = snd f"
    "drop (unat (packetTotal (fst f))) (encode_frame f @ rest) = rest"
proof -
  have tot: "unat (packetTotal (fst f)) = kPacketHeaderSize + length (snd f)"
    using assms(1) by (intro packetTotal_wf) (auto simp: wf_frame_def)
  show hd: "header_of (encode_frame f @ rest) = fst f"
    by (simp add: encode_frame_def)
  show "complete (encode_frame f @ rest)"
    using assms(2) unfolding complete_iff [OF assms(2)] hd tot by (simp add: encode_frame_def)
  have "sint (psize (fst f)) = int (length (snd f))"
    using assms(1) by (simp add: wf_frame_def signed_of_nat signed_take_bit_int_eq_self)
  then show "packet_body (fst f) (encode_frame f @ rest) = snd f"
    by (simp add: packet_body_def encode_frame_def)
  show "drop (unat (packetTotal (fst f))) (encode_frame f @ rest) = rest"
    unfolding tot by (simp add: encode_frame_def)
qed

lemma packetLoop_frames:
  assumes "buf_ok b" and "contents b = concat (map encode_frame fs) @ rest"
    and "list_all wf_frame fs" and "length (contents b) < 2 ^ 31" and "\<not> complete rest"
  shows "case run_handlers handle fs w of
       Inl e \<Rightarrow> packetLoop handle b w = Some (Inl e)
     | Inr w' \<Rightarrow> (\<exists>b'. packetLoop handle b w = Some (Inr (b', w')) \<and> buf_ok b' \<and> contents b' = rest)"
  using assms
proof (induction fs arbitrary: b w)
  case Nil
  then show ?case by (simp add: packetLoop_stop)
next
  case (Cons f fs)
  let ?tl = "concat (map encode_frame fs) @ rest"
  have c: "contents b = encode_frame f @ ?tl" using Cons.prems(2) by simp
  have len: "length (encode_frame f @ ?tl) < 2 ^ 31" using Cons.prems(4) c by simp
  have "wf_frame f" using Cons.prems(3) by simp
  note one = wf_frame_complete [OF this len, folded c]
  from retrieve_packet [OF Cons.prems(1,4) one(1)] one obtain b' where
    b': "retrieve (unat (packetTotal (header_of (contents b)))) b = Inr b'" "buf_ok b'"
      "contents b' = ?tl"
    by auto
  have len': "length (contents b') < 2 ^ 31"
    using b'(3) c Cons.prems(4) by simp
  have IH: "case run_handlers handle fs w' of
       Inl e \<Rightarrow> packetLoop handle b' w' = Some (Inl e)
     | Inr w'' \<Rightarrow> (\<exists>b''. packetLoop handle b' w' = Some (Inr (b'', w'')) \<and> buf_ok b'' \<and> contents b'' = rest)"
    for w'
    using Cons.prems(3,5) b'(2,3) len' by (intro Cons.IH) simp_all
  have "packetLoop handle b w =
      (case handle (fst f) (snd f) w of Inl e \<Rightarrow> Some (Inl e) | Inr w' \<Rightarrow> packetLoop handle b' w')"
    using packetLoop_step [OF Cons.prems(1,4) one(1) b'(1), of handle w] one by simp
  then show ?case
    using IH [of "projr (handle (fst f) (snd f) w)"]
    by (cases "handle (fst f) (snd f) w") (simp_all split: sum.splits)
qed

section \<open>Termination\<close>

lemma ucast_scast_id [simp]: "ucast (scast x :: size_w) = (x :: int32_w)"
proof (rule bit_word_eqI)
  fix n
  assume "n < LENGTH(32)"
  then have "n < 31 \<or> n = 31" by auto
  then show "bit (ucast (scast x :: size_w) :: int32_w) n \<longleftrightarrow> bit x n"
    by (elim disjE) (simp_all add: bit_simps min_def)
qed

lemma packetTotal_zero_iff: "packetTotal h = 0 \<longleftrightarrow> psize h = - 12"
proof
  assume "packetTotal h = 0"
  then have "(scast (psize h) :: size_w) = - 12"
    by (simp add: packetTotal_def kPacketHeaderSize_def eq_neg_iff_add_eq_0)
  also have "(- 12 :: size_w) = scast (- 12 :: int32_w)"
    by simp
  finally show "psize h = - 12"
    by (metis ucast_scast_id)
qed (simp add: packetTotal_def kPacketHeaderSize_def)

lemma packetLoop_ends:
  assumes "buf_ok b" and "length (contents b) < 2 ^ 31"
    and "\<forall>k. psize (header_of (drop k (contents b))) \<noteq> - 12"
  shows "\<exists>r. packetLoop handle b w = Some r"
  using assms
proof (induction "length (contents b)" arbitrary: b w rule: less_induct)
  case less
  show ?case
  proof (cases "complete (contents b)")
    case False
    with less.prems show ?thesis by (simp add: packetLoop_stop)
  next
    case True
    let ?h = "header_of (contents b)"
    from retrieve_packet [OF less.prems(1,2) True] obtain b' where
      b': "retrieve (unat (packetTotal ?h)) b = Inr b'" "buf_ok b'"
        "contents b' = drop (unat (packetTotal ?h)) (contents b)"
      by auto
    have "packetTotal ?h \<noteq> 0"
      using less.prems(3) [rule_format, of 0] by (simp add: packetTotal_zero_iff)
    then have "0 < unat (packetTotal ?h)"
      by (simp add: unat_gt_0)
    moreover have "0 < length (contents b)"
      using True less.prems(2) by (auto simp: complete_iff kPacketHeaderSize_def)
    ultimately have shorter: "length (contents b') < length (contents b)"
      using b'(3) by simp
    have "\<exists>r. packetLoop handle b' w' = Some r" for w'
      using shorter b'(2,3) less.prems(2,3) by (intro less.hyps) (auto simp: add.commute)
    then show ?thesis
      using packetLoop_step [OF less.prems(1,2) True b'(1), of handle w]
      by (cases "handle ?h (packet_body ?h (contents b)) w") auto
  qed
qed

section \<open>Properties\<close>

text \<open>Packet framing is exact. If the readable bytes are well-formed packets followed by an
  incomplete rest, the receive loop calls the handler once per packet, in order, with exactly its
  header and body; it stops at the first handler failure, and otherwise returns with exactly the
  incomplete rest left in the buffer.\<close>

theorem packet_loop_delivers_frames:
  assumes "buf_ok b" and "contents b = concat (map encode_frame fs) @ rest"
    and "list_all wf_frame fs" and "length (contents b) < 2 ^ 31" and "\<not> complete rest"
  shows "case run_handlers handle fs w of
       Inl e \<Rightarrow> packetLoop handle b w = Some (Inl e)
     | Inr w' \<Rightarrow> (\<exists>b'. packetLoop handle b w = Some (Inr (b', w')) \<and> buf_ok b' \<and> contents b' = rest)"
  using packetLoop_frames [OF assms] .

definition sample_frame :: "PacketHeader \<times> byte list" where
  "sample_frame = (\<lparr>ptype = 10001, psize = 3, extraID = 5\<rparr>, [1, 2, 3])"

definition sample_buffer :: "byte list \<Rightarrow> DataBuffer" where
  "sample_buffer bs = \<lparr>buffer = bs, readerIndex = 0, writerIndex = length bs, isOperating = False\<rparr>"

lemma sample_buffer_ok [simp]: "buf_ok (sample_buffer bs)" "contents (sample_buffer bs) = bs"
  by (simp_all add: sample_buffer_def buffer_simps)

lemma sample_frame_wf [simp]: "wf_frame sample_frame" "length (encode_frame sample_frame) = 15"
  by (simp_all add: sample_frame_def wf_frame_def encode_frame_def kPacketHeaderSize_def)

lemma short_not_complete: "length bs < kPacketHeaderSize \<Longrightarrow> \<not> complete bs"
  by (subst complete_iff) (auto simp: kPacketHeaderSize_def)

theorem packet_loop_delivers_frames_witness:
  "\<exists>b'. packetLoop (\<lambda>h body w. Inr (w @ [(ptype h, body)]))
      (sample_buffer (encode_frame sample_frame @ [9])) [] = Some (Inr (b', [(10001, [1, 2, 3])]))
    \<and> buf_ok b' \<and> contents b' = [9]"
  using packet_loop_delivers_frames [of "sample_buffer (encode_frame sample_frame @ [9])"
      "[sample_frame]" "[9]" "\<lambda>h body w. Inr (w @ [(ptype h, body)])" "[]"]
  by (simp add: short_not_complete kPacketHeaderSize_def) (simp add: sample_frame_def)

text \<open>C1: Fragmentation does not matter. However a stream of well-formed packets is cut into the
  chunks a socket delivers, a session that starts with an empty buffer hands the same packets to
  its handler in the same order, and keeps the same incomplete rest.\<close>

theorem fragmentation_independent:
  assumes "buf_ok b" and "contents b = []" and "concat cs = concat (map encode_frame fs) @ rest"
    and "list_all wf_frame fs" and "length (concat cs) < 2 ^ 31" and "\<not> complete rest"
    and "run_handlers handle fs w = Inr w'"
  shows "\<exists>b'. receive handle cs b w = Some (Inr (b', w')) \<and> buf_ok b' \<and> contents b' = rest"
proof -
  let ?B = "sample_buffer (concat cs)"
  obtain B' where B': "packetLoop handle ?B w = Some (Inr (B', w'))" "contents B' = rest"
    using packetLoop_frames [of ?B fs rest handle w] assms by auto
  have "\<not> complete (contents b)"
    using assms(2) by (simp add: short_not_complete kPacketHeaderSize_def)
  with receive_eq_packetLoop [OF B'(1), of b cs] assms B'(2) show ?thesis
    by auto
qed

theorem fragmentation_independent_witness:
  "\<exists>b'. receive (\<lambda>h body w. Inr (w @ [(ptype h, body)]))
      [take 5 (encode_frame sample_frame), drop 5 (encode_frame sample_frame) @ [9]]
      (DataBuffer_new 0) [] = Some (Inr (b', [(10001, [1, 2, 3])])) \<and> buf_ok b' \<and> contents b' = [9]"
  by (rule fragmentation_independent [of _ _ "[sample_frame]"])
    (simp_all add: short_not_complete kPacketHeaderSize_def, simp_all add: sample_frame_def)

text \<open>C22: The receive loop returns on every buffer in which no position holds a header with body
  size \<open>-12\<close>, whatever the handler does: each iteration retrieves at least one byte.\<close>

theorem packet_loop_terminates:
  assumes "buf_ok b" and "length (contents b) < 2 ^ 31"
    and "\<forall>k. psize (header_of (drop k (contents b))) \<noteq> - 12"
  shows "\<exists>r. packetLoop handle b w = Some r"
  using packetLoop_ends [OF assms] .

lemma header_of_Nil_psize: "psize (header_of []) = 0"
  by (simp add: header_of_def word_le32_def)

theorem packet_loop_terminates_witness:
  "\<exists>r. packetLoop (\<lambda>h body w. Inr w) (sample_buffer []) () = Some r"
  by (rule packet_loop_terminates) (simp_all add: header_of_Nil_psize)

text \<open>A remote peer can hang the receive loop. If the first readable packet carries the body
  size \<open>-12\<close>, header and body together have size 0, \<open>hasPacket\<close> accepts the packet, nothing is
  retrieved, and the loop never returns, as long as the handler returns normally.\<close>

theorem packet_loop_diverges:
  assumes "buf_ok b" and "length (contents b) < 2 ^ 31" and "kPacketHeaderSize \<le> length (contents b)"
    and "psize (header_of (contents b)) = - 12" and "\<forall>h body w. \<exists>w'. handle h body w = Inr w'"
  shows "packetLoop handle b w = None"
proof (cases "packetLoop handle b w")
  case (Some r)
  then have "\<not> (kPacketHeaderSize \<le> length (contents b) \<and> psize (header_of (contents b)) = - 12)"
    using assms(1,2)
  proof (induction rule: packetLoop_Some_induct)
    case (stop b w)
    then show ?case
      using packetTotal_zero_iff [of "header_of (contents b)"] by (auto simp: complete_iff)
  next
    case (fail b w e)
    then show ?case using assms(5) by (metis sum.distinct(1))
  next
    case (step b w b' w' r)
    then show ?case
      using packetTotal_zero_iff [of "header_of (contents b)"] by auto
  qed
  with assms(3,4) show ?thesis by blast
qed

theorem packet_loop_diverges_witness:
  "packetLoop (\<lambda>h body w. Inr w)
     (sample_buffer (header_bytes \<lparr>ptype = 0, psize = - 12, extraID = 0\<rparr>)) () = None"
  using header_of_header_bytes [of _ "[]"]
  by (intro packet_loop_diverges) (simp_all add: kPacketHeaderSize_def)

end
