(* ===== verification/ObjectIndexPool.thy ===== *)
theory ObjectIndexPool
  imports Prelude
begin

text \<open>
  The index pool of \<open>Net/Util/ObjectIndexPool.hpp\<close>: a fixed array of \<open>MAX_NUM + 1\<close> slots, the list
  of the stored objects in insertion order, and a queue of freed indices that is used once every
  slot has been handed out. The element type \<open>T\<close> of the source is a shared pointer; \<open>None\<close> is the
  null pointer. \<open>MAX_NUM\<close> is the template parameter (\<open>OB_MAX = 10000\<close> for sessions).
\<close>

definition POOL_INVALID_INDEX :: nat where
  "POOL_INVALID_INDEX = 0xFFFFFFFF"

definition OB_MAX :: nat where
  "OB_MAX = 10000"

record 'a ObjectIndexPool =
  maxIndex :: nat
  pool_size :: "32 word"
  objectArray :: "'a option list"
  objects :: "'a option list"
  invalidIndexs :: "nat list"

definition ObjectIndexPool_new :: "nat \<Rightarrow> 'a ObjectIndexPool" where
  "ObjectIndexPool_new MAX_NUM =
     \<lparr>maxIndex = 0, pool_size = 0, objectArray = replicate (MAX_NUM + 1) None, objects = [],
      invalidIndexs = [MAX_NUM]\<rparr>"

definition addObject :: "nat \<Rightarrow> 'a option \<Rightarrow> 'a ObjectIndexPool \<Rightarrow> 'a ObjectIndexPool \<times> nat" where
  "addObject MAX_NUM obj p =
     (if maxIndex p \<le> MAX_NUM
      then (p\<lparr>objectArray := (objectArray p)[maxIndex p := obj], objects := objects p @ [obj],
              pool_size := pool_size p + 1, maxIndex := maxIndex p + 1\<rparr>, maxIndex p)
      else (case invalidIndexs p of
              [] \<Rightarrow> (p, POOL_INVALID_INDEX)
            | i # rest \<Rightarrow>
                if i \<noteq> POOL_INVALID_INDEX
                then (p\<lparr>objectArray := (objectArray p)[i := obj], objects := objects p @ [obj],
                        invalidIndexs := rest, pool_size := pool_size p + 1\<rparr>, i)
                else (p, POOL_INVALID_INDEX)))"

text \<open>\<open>std::list::remove\<close> drops every element equal to the given one.\<close>

definition removeObject :: "nat \<Rightarrow> nat \<Rightarrow> 'a ObjectIndexPool \<Rightarrow> 'a ObjectIndexPool" where
  "removeObject MAX_NUM index p =
     (if index \<le> MAX_NUM
      then p\<lparr>pool_size := pool_size p - 1,
             objects := filter (\<lambda>x. x \<noteq> objectArray p ! index) (objects p),
             objectArray := (objectArray p)[index := None],
             invalidIndexs := invalidIndexs p @ [index]\<rparr>
      else p)"

definition getObject :: "nat \<Rightarrow> nat \<Rightarrow> 'a ObjectIndexPool \<Rightarrow> 'a option result" where
  "getObject MAX_NUM index p = rassert (index \<le> MAX_NUM) (Inr (objectArray p ! index))"

definition getSize :: "'a ObjectIndexPool \<Rightarrow> 32 word" where
  "getSize p = pool_size p"

definition isFull :: "nat \<Rightarrow> 'a ObjectIndexPool \<Rightarrow> bool" where
  "isFull MAX_NUM p \<longleftrightarrow> pool_size p = of_nat (MAX_NUM + 1)"

text \<open>\<open>foreach\<close>: the callback is called on the objects in insertion order.\<close>

definition pool_foreach :: "('a option \<Rightarrow> 's \<Rightarrow> 's) \<Rightarrow> 'a ObjectIndexPool \<Rightarrow> 's \<Rightarrow> 's" where
  "pool_foreach cb p s = fold cb (objects p) s"

section \<open>Invariant\<close>

definition slot :: "'a ObjectIndexPool \<Rightarrow> nat \<Rightarrow> 'a option" where
  "slot p i = (if i < length (objectArray p) then objectArray p ! i else None)"

definition pool_ok :: "nat \<Rightarrow> 'a ObjectIndexPool \<Rightarrow> bool" where
  "pool_ok MAX_NUM p \<longleftrightarrow>
     length (objectArray p) = MAX_NUM + 1 \<and> maxIndex p \<le> MAX_NUM + 1
     \<and> (\<forall>i. maxIndex p \<le> i \<longrightarrow> slot p i = None)
     \<and> (\<forall>i j x. slot p i = Some x \<longrightarrow> slot p j = Some x \<longrightarrow> i = j)
     \<and> distinct (objects p) \<and> set (objects p) = Some ` ran (slot p)"

definition has_room :: "nat \<Rightarrow> 'a ObjectIndexPool \<Rightarrow> bool" where
  "has_room MAX_NUM p \<longleftrightarrow> maxIndex p \<le> MAX_NUM"

lemma slot_new [simp]: "slot (ObjectIndexPool_new M) i = None"
  by (simp add: slot_def ObjectIndexPool_new_def del: replicate_Suc)

lemma pool_ok_new: "pool_ok M (ObjectIndexPool_new M)"
proof -
  have "ran (slot (ObjectIndexPool_new M :: 'a ObjectIndexPool)) = {}"
    by (simp add: ran_def)
  then show ?thesis
    unfolding pool_ok_def by simp (simp add: ObjectIndexPool_new_def)
qed

lemma addObject_room:
  assumes "pool_ok M p" and "has_room M p" and "addObject M (Some x) p = (p', i)"
  shows "i = maxIndex p" "slot p i = None" "slot p' = (slot p)(i := Some x)"
    "objects p' = objects p @ [Some x]" "maxIndex p' = maxIndex p + 1"
    "length (objectArray p') = length (objectArray p)" "invalidIndexs p' = invalidIndexs p"
  using assms by (auto simp: addObject_def has_room_def pool_ok_def slot_def fun_eq_iff)

lemma addObject_ok:
  assumes "pool_ok M p" and "has_room M p" and "\<forall>j. slot p j \<noteq> Some x"
    and "addObject M (Some x) p = (p', i)"
  shows "pool_ok M p'"
proof -
  note add = addObject_room [OF assms(1,2,4)]
  show ?thesis
    unfolding pool_ok_def add
  proof (intro conjI)
    show "\<forall>k j y. ((slot p)(maxIndex p := Some x)) k = Some y \<longrightarrow>
        ((slot p)(maxIndex p := Some x)) j = Some y \<longrightarrow> k = j"
      using assms(1,3) by (auto simp: pool_ok_def)
    show "set (objects p @ [Some x]) = Some ` ran ((slot p)(maxIndex p := Some x))"
      using assms(1) add(1,2) by (simp add: pool_ok_def)
    show "distinct (objects p @ [Some x])"
      using assms(1,3) by (auto simp: pool_ok_def ran_def)
  qed (use assms in \<open>auto simp: pool_ok_def has_room_def\<close>)
qed

lemma removeObject_slot:
  assumes "pool_ok M p" and "slot p i = Some x"
  shows "slot (removeObject M i p) = (slot p)(i := None)"
    "objects (removeObject M i p) = filter (\<lambda>o'. o' \<noteq> Some x) (objects p)"
    "maxIndex (removeObject M i p) = maxIndex p"
    "length (objectArray (removeObject M i p)) = length (objectArray p)"
  using assms by (auto simp: removeObject_def slot_def pool_ok_def fun_eq_iff split: if_splits)

lemma removeObject_ok:
  assumes "pool_ok M p" and "slot p i = Some x"
  shows "pool_ok M (removeObject M i p)"
proof -
  note rm = removeObject_slot [OF assms]
  show ?thesis
    unfolding pool_ok_def rm
  proof (intro conjI)
    have "ran ((slot p)(i := None)) = ran (slot p) - {x}"
      using assms by (intro ran_del_inj) (auto simp: pool_ok_def)
    then show "set (filter (\<lambda>o'. o' \<noteq> Some x) (objects p)) = Some ` ran ((slot p)(i := None))"
      using assms(1) by (auto simp: pool_ok_def)
  qed (use assms in \<open>auto simp: pool_ok_def\<close>)
qed

section \<open>The index-pool interface\<close>

text \<open>
  What the session manager relies on: an insertion returns an index that was free, only that
  index changes, and the iteration visits every stored object exactly once.
\<close>

locale index_pool =
  fixes ok :: "'p \<Rightarrow> bool"
    and room :: "'p \<Rightarrow> bool"
    and lookup :: "'p \<Rightarrow> nat \<Rightarrow> 'a option"
    and add :: "'a \<Rightarrow> 'p \<Rightarrow> 'p \<times> nat"
    and del :: "nat \<Rightarrow> 'p \<Rightarrow> 'p"
    and elems :: "'p \<Rightarrow> 'a list"
  assumes add_law: "ok p \<Longrightarrow> room p \<Longrightarrow> \<forall>j. lookup p j \<noteq> Some x \<Longrightarrow> add x p = (p', i) \<Longrightarrow>
      ok p' \<and> lookup p i = None \<and> lookup p' = (lookup p)(i := Some x)"
    and del_law: "ok p \<Longrightarrow> lookup p i = Some x \<Longrightarrow>
      ok (del i p) \<and> lookup (del i p) = (lookup p)(i := None)"
    and elems_law: "ok p \<Longrightarrow> distinct (elems p) \<and> set (elems p) = ran (lookup p)"
begin

lemma add_lookup: "ok p \<Longrightarrow> room p \<Longrightarrow> \<forall>j. lookup p j \<noteq> Some x \<Longrightarrow> add x p = (p', i) \<Longrightarrow>
    lookup p' i = Some x \<and> (\<forall>j. lookup p j \<noteq> None \<longrightarrow> j \<noteq> i \<and> lookup p' j = lookup p j)"
  using add_law [of p x p' i] by auto

lemma add_del:
  assumes "ok p" and "room p" and "\<forall>j. lookup p j \<noteq> Some x" and "add x p = (p', i)"
  shows "lookup (del i p') = lookup p" "set (elems (del i p')) = set (elems p)"
proof -
  from add_law [OF assms] have p': "ok p'" "lookup p i = None" "lookup p' = (lookup p)(i := Some x)"
    by auto
  with del_law [OF p'(1), of i x] show eq: "lookup (del i p') = lookup p"
    by (auto simp: fun_eq_iff)
  show "set (elems (del i p')) = set (elems p)"
    using elems_law [OF assms(1)] elems_law [of "del i p'"] del_law [OF p'(1), of i x] p'(3) eq
    by auto
qed

end

definition stored :: "'a ObjectIndexPool \<Rightarrow> 'a list" where
  "stored p = map the (objects p)"

lemma stored_elems:
  assumes "pool_ok M p"
  shows "distinct (stored p) \<and> set (stored p) = ran (slot p)"
proof
  from assms have set: "set (objects p) = Some ` ran (slot p)"
    and dist: "distinct (objects p)"
    by (auto simp: pool_ok_def)
  have "inj_on the (set (objects p))"
    unfolding set by (auto simp: inj_on_def)
  with dist show "distinct (stored p)"
    by (simp add: stored_def distinct_map)
  show "set (stored p) = ran (slot p)"
    unfolding stored_def set_map set by (simp add: image_image)
qed

interpretation oip: index_pool "pool_ok M" "has_room M" slot "\<lambda>x. addObject M (Some x)"
  "removeObject M" stored for M
proof unfold_locales
  fix p p' :: "'a ObjectIndexPool" and x i
  assume "pool_ok M p" and "has_room M p" and "\<forall>j. slot p j \<noteq> Some x"
    and "addObject M (Some x) p = (p', i)"
  then show "pool_ok M p' \<and> slot p i = None \<and> slot p' = (slot p)(i := Some x)"
    using addObject_ok [of M p x p' i] addObject_room [of M p x p' i] by simp
next
  fix p :: "'a ObjectIndexPool" and x i
  assume "pool_ok M p" and "slot p i = Some x"
  then show "pool_ok M (removeObject M i p) \<and> slot (removeObject M i p) = (slot p)(i := None)"
    using removeObject_ok [of M p i x] removeObject_slot(1) [of M p i x] by simp
qed (rule stored_elems)

section \<open>Filling the pool\<close>

fun addAll :: "nat \<Rightarrow> 'a list \<Rightarrow> 'a ObjectIndexPool \<Rightarrow> 'a ObjectIndexPool \<times> nat list" where
  "addAll M [] p = (p, [])"
| "addAll M (x # xs) p =
     (let (p1, i) = addObject M (Some x) p; (p2, is) = addAll M xs p1 in (p2, i # is))"

lemma addAll_room:
  assumes "maxIndex p + length xs \<le> M + 1" and "addAll M xs p = (p', is)"
  shows "maxIndex p' = maxIndex p + length xs" "is = [maxIndex p ..< maxIndex p + length xs]"
    "invalidIndexs p' = invalidIndexs p" "objects p' = objects p @ map Some xs"
    "length (objectArray p') = length (objectArray p)"
    "length (objectArray p) = M + 1 \<Longrightarrow>
       objectArray p' = take (maxIndex p) (objectArray p) @ map Some xs
         @ drop (maxIndex p + length xs) (objectArray p)"
proof -
  have "maxIndex p' = maxIndex p + length xs \<and> is = [maxIndex p ..< maxIndex p + length xs]
    \<and> invalidIndexs p' = invalidIndexs p \<and> objects p' = objects p @ map Some xs
    \<and> length (objectArray p') = length (objectArray p)
    \<and> (length (objectArray p) = M + 1 \<longrightarrow>
       objectArray p' = take (maxIndex p) (objectArray p) @ map Some xs
         @ drop (maxIndex p + length xs) (objectArray p))"
    using assms
  proof (induction xs arbitrary: p p' "is")
    case Nil
    then show ?case by simp
  next
    case (Cons x xs)
    let ?p1 = "fst (addObject M (Some x) p)"
    have room: "maxIndex p \<le> M" using Cons.prems(1) by simp
    obtain is' where rest: "addAll M xs ?p1 = (p', is')" "is = maxIndex p # is'"
      using Cons.prems(2) room
      by (auto simp: addObject_def Let_def split: prod.splits)
    from Cons.IH [OF _ rest(1)] Cons.prems(1) room rest(2) show ?case
      by (auto simp: addObject_def upt_conv_Cons take_Suc_conv_app_nth
          drop_update_cancel take_update_cancel simp del: upt_Suc)
  qed
  then show "maxIndex p' = maxIndex p + length xs" "is = [maxIndex p ..< maxIndex p + length xs]"
    "invalidIndexs p' = invalidIndexs p" "objects p' = objects p @ map Some xs"
    "length (objectArray p') = length (objectArray p)"
    "length (objectArray p) = M + 1 \<Longrightarrow>
       objectArray p' = take (maxIndex p) (objectArray p) @ map Some xs
         @ drop (maxIndex p + length xs) (objectArray p)"
    by blast+
qed

section \<open>Properties\<close>

text \<open>While not all slots have been handed out, storing a new object returns an index that was
  free, that index then holds the object, every other index keeps what it held, and removing the
  object again restores both the slots and the set of objects a broadcast visits.\<close>

theorem pool_add_get_remove:
  assumes "pool_ok M p" and "has_room M p" and "\<forall>j. slot p j \<noteq> Some x"
    and "addObject M (Some x) p = (p', i)"
  shows "pool_ok M p' \<and> slot p i = None \<and> slot p' = (slot p)(i := Some x)
    \<and> slot (removeObject M i p') = slot p \<and> set (stored (removeObject M i p')) = set (stored p)"
  using oip.add_law [OF assms] oip.add_del [OF assms] by blast

theorem pool_add_get_remove_witness:
  "let (p', i) = addObject 3 (Some (7::nat)) (ObjectIndexPool_new 3) in
     pool_ok 3 p' \<and> slot p' i = Some 7 \<and> slot (removeObject 3 i p') i = None"
proof -
  obtain p' i where add: "addObject 3 (Some (7::nat)) (ObjectIndexPool_new 3) = (p', i)"
    by (cases "addObject 3 (Some (7::nat)) (ObjectIndexPool_new 3)") auto
  have "has_room 3 (ObjectIndexPool_new 3)"
    by (simp add: has_room_def ObjectIndexPool_new_def)
  from pool_add_get_remove [OF pool_ok_new this _ add] add show ?thesis by simp
qed

text \<open>The pool evicts a live object. A fresh pool hands out its \<open>MAX_NUM + 1\<close> slots in order; the
  next object is then stored in slot \<open>MAX_NUM\<close>, which the constructor had put on the queue of free
  indices, over the object stored there, although nothing was ever removed.\<close>

theorem pool_overwrites_last_slot:
  assumes "length xs = M + 1" and "M < POOL_INVALID_INDEX"
    and "addAll M xs (ObjectIndexPool_new M) = (p, is)" and "addObject M (Some x) p = (p', i)"
  shows "slot p M = Some (last xs) \<and> i = M \<and> slot p' M = Some x
    \<and> Some (last xs) \<in> set (objects p')"
proof -
  have init: "maxIndex (ObjectIndexPool_new M) = 0" "length (objectArray (ObjectIndexPool_new M)) = M + 1"
    "invalidIndexs (ObjectIndexPool_new M) = [M]" "objects (ObjectIndexPool_new M) = []"
    by (simp_all add: ObjectIndexPool_new_def)
  note all = addAll_room [OF _ assms(3), unfolded init assms(1)]
  have arr: "objectArray p = map Some xs" "maxIndex p = M + 1" "invalidIndexs p = [M]"
      "objects p = map Some xs"
    using all assms(1) init by simp_all
  have "xs \<noteq> []" using assms(1) by auto
  then have "last xs = xs ! M"
    using assms(1) last_conv_nth [of xs] by simp
  with arr assms(1,2,4) show ?thesis
    by (auto simp: addObject_def slot_def)
qed

definition sample_full :: "nat ObjectIndexPool" where
  "sample_full = fst (addAll 1 [10, 20] (ObjectIndexPool_new 1))"

theorem pool_overwrites_last_slot_witness:
  "slot sample_full 1 = Some 20 \<and> snd (addObject 1 (Some 30) sample_full) = 1
   \<and> slot (fst (addObject 1 (Some 30) sample_full)) 1 = Some 30"
  using pool_overwrites_last_slot [of "[10, 20]" 1 sample_full
      "snd (addAll 1 [10, 20 :: nat] (ObjectIndexPool_new 1))" 30
      "fst (addObject 1 (Some 30) sample_full)" "snd (addObject 1 (Some 30) sample_full)"]
  by (simp add: POOL_INVALID_INDEX_def sample_full_def del: addAll.simps)

end
