(* ===== verification/TCPSession.thy ===== *)
theory TCPSession
  imports PacketLoop
begin

text \<open>
  The connection object of \<open>Net/TCPSession.cpp\<close>: its four states, an input buffer, and two output
  buffers that are swapped when a send starts (\<open>outputBuffer\<close> collects, \<open>sendBuffer\<close> is in
  flight while its \<open>isOperating\<close> flag is set). The calls an operation makes on the socket, and the
  callbacks and virtual hooks it runs, are the list of \<open>effect\<close>s it returns, in the order of the
  code; the callbacks that hand control back in the middle of an operation (\<open>messageCallback_\<close>,
  \<open>writeCompleteCallback_\<close>) are parameters.
\<close>

datatype StateE = kDisconnected | kConnecting | kConnected | kDisconnecting

datatype effect =
    AsyncSend "byte list"
  | AsyncRead
  | SockClose
  | SockShutdown
  | OnClose
  | CloseCallback
  | ConnectionCallback
  | SendInitData
  | ConnectorRestart
  | ConnectorStop

text \<open>The error codes of asio the session tells apart; \<open>Success\<close> is the empty \<open>error_code\<close>.\<close>

datatype error_code = Success | OperationAborted | Interrupted | TryAgain | OtherError int

record TCPSession =
  inputBuffer :: DataBuffer
  outputBuffer :: DataBuffer
  sendBuffer :: DataBuffer
  socket :: bool
  state :: StateE
  stype :: "16 word"
  uuid :: int32_w
  logicID :: int32_w
  client :: bool
  heartBeat :: int
  closeCallback :: bool
  connectionCallback :: bool
  retry :: bool

type_synonym session_result = "(TCPSession \<times> effect list) result"

definition INVALID_UUID :: int32_w where
  "INVALID_UUID = - 1"

definition TCPSession_new :: "int \<Rightarrow> TCPSession" where
  "TCPSession_new now =
     \<lparr>inputBuffer = DataBuffer_new kInitialSize, outputBuffer = DataBuffer_new kInitialSize,
      sendBuffer = DataBuffer_new kInitialSize, socket = False, state = kConnecting, stype = 0,
      uuid = INVALID_UUID, logicID = - 1, client = False, heartBeat = now,
      closeCallback = False, connectionCallback = False, retry = True\<rparr>"

definition TCPSession_socket :: "int \<Rightarrow> TCPSession" where
  "TCPSession_socket now = (TCPSession_new now)\<lparr>socket := True, heartBeat := now\<rparr>"

definition connected :: "TCPSession \<Rightarrow> bool" where
  "connected s \<longleftrightarrow> state s = kConnected \<or> state s = kConnecting"

definition disconnected :: "TCPSession \<Rightarrow> bool" where
  "disconnected s \<longleftrightarrow> state s = kDisconnected \<or> state s = kDisconnecting"

text \<open>\<open>uint8 type() const\<close> narrows the stored \<open>uint16\<close>.\<close>

definition session_type :: "TCPSession \<Rightarrow> 8 word" where
  "session_type s = ucast (stype s)"

definition setType :: "int32_w \<Rightarrow> TCPSession \<Rightarrow> TCPSession" where
  "setType t s = s\<lparr>stype := ucast t\<rparr>"

definition setUUID :: "int32_w \<Rightarrow> TCPSession \<Rightarrow> TCPSession" where
  "setUUID u s = s\<lparr>uuid := u\<rparr>"

definition session_setLogicID :: "int32_w \<Rightarrow> TCPSession \<Rightarrow> TCPSession" where
  "session_setLogicID l s = s\<lparr>logicID := l\<rparr>"

definition updateHeartBeat :: "int \<Rightarrow> TCPSession \<Rightarrow> TCPSession" where
  "updateHeartBeat cur s = s\<lparr>heartBeat := cur\<rparr>"

definition addMore :: "byte list \<Rightarrow> TCPSession \<Rightarrow> TCPSession result" where
  "addMore message s = rbind (append message (outputBuffer s)) (\<lambda>b. Inr (s\<lparr>outputBuffer := b\<rparr>))"

definition internalSend :: "TCPSession \<Rightarrow> session_result" where
  "internalSend s =
     (if state s \<noteq> kConnected \<or> isOperate (sendBuffer s) \<or> readableBytes (outputBuffer s) = 0
      then Inr (s, [])
      else (let sb = outputBuffer s; ob = sendBuffer s in
        if \<not> socket s then Inl NullDeref
        else Inr (s\<lparr>sendBuffer := operate sb, outputBuffer := ob\<rparr>,
                  [AsyncSend (take (readableBytes sb) (beginRead sb))])))"

definition send :: "byte list \<Rightarrow> TCPSession \<Rightarrow> session_result" where
  "send message s = rbind (append message (outputBuffer s)) (\<lambda>b. internalSend (s\<lparr>outputBuffer := b\<rparr>))"

definition startAsyncRead :: "TCPSession \<Rightarrow> session_result" where
  "startAsyncRead s =
     (if state s = kConnected
      then rbind (ensureWritableBytes 1024 (inputBuffer s)) (\<lambda>b.
        if \<not> socket s then Inl NullDeref else Inr (s\<lparr>inputBuffer := b\<rparr>, [AsyncRead]))
      else Inr (s, []))"

definition handClose :: "TCPSession \<Rightarrow> session_result" where
  "handClose s =
     (if connected s
      then (if \<not> socket s then Inl NullDeref
            else Inr (s\<lparr>state := kDisconnected, socket := False\<rparr>,
                  [SockClose, OnClose] @ (if closeCallback s then [CloseCallback] else [])))
      else Inr (s, []))"

text \<open>
  \<open>handRead\<close>: the socket has stored \<open>bs\<close> at \<open>beginWrite()\<close>; \<open>cb\<close> is \<open>messageCallback_\<close>, which
  may not return.
\<close>

definition handRead ::
  "(TCPSession \<Rightarrow> session_result option) \<Rightarrow> error_code \<Rightarrow> byte list \<Rightarrow> TCPSession \<Rightarrow> session_result option"
where
  "handRead cb ec bs s =
     (if ec = OperationAborted then Some (Inr (s, []))
      else if ec = Success
      then (case rbind (beginWrite_store bs (inputBuffer s)) (hasWritten (length bs)) of
              Inl e \<Rightarrow> Some (Inl e)
            | Inr b \<Rightarrow>
               (case cb (s\<lparr>inputBuffer := b\<rparr>) of
                  None \<Rightarrow> None
                | Some (Inl e) \<Rightarrow> Some (Inl e)
                | Some (Inr (s1, es1)) \<Rightarrow>
                    Some (rbind (startAsyncRead s1) (\<lambda>(s2, es2). Inr (s2, es1 @ es2)))))
      else if ec = Interrupted \<or> ec = TryAgain then Some (startAsyncRead s)
      else Some (handClose s))"

text \<open>\<open>handWrite\<close> does not look at the number of bytes the socket has sent.\<close>

definition handWrite :: "(TCPSession \<Rightarrow> session_result) option \<Rightarrow> error_code \<Rightarrow> nat \<Rightarrow> TCPSession \<Rightarrow> session_result" where
  "handWrite writeCompleteCallback ec bytesSent s =
     (if ec = Success
      then (let s1 = s\<lparr>sendBuffer := retrieveAll (unoperate (sendBuffer s))\<rparr> in
        rbind (case writeCompleteCallback of None \<Rightarrow> Inr (s1, []) | Some cb \<Rightarrow> cb s1) (\<lambda>(s2, es2).
        rbind (internalSend s2) (\<lambda>(s3, es3). Inr (s3, es2 @ es3))))
      else Inr (s, []))"

definition connectEstablished :: "TCPSession \<Rightarrow> session_result" where
  "connectEstablished s =
     rbind (startAsyncRead (s\<lparr>state := kConnected\<rparr>)) (\<lambda>(s1, es1).
       Inr (s1, es1 @ (if connectionCallback s1 then [ConnectionCallback] else []) @ [SendInitData]))"

definition forceClose :: "TCPSession \<Rightarrow> session_result" where
  "forceClose s =
     (if state s = kConnected \<or> state s = kDisconnecting then handClose s else Inr (s, []))"

definition connectDestroyed :: "TCPSession \<Rightarrow> session_result" where
  "connectDestroyed s = (if state s = kConnected then forceClose s else Inr (s, []))"

definition shutdown :: "TCPSession \<Rightarrow> session_result" where
  "shutdown s =
     (if state s = kConnected
      then (if \<not> socket s then Inl NullDeref
            else Inr (s\<lparr>state := kDisconnecting\<rparr>, [SockShutdown]))
      else Inr (s, []))"

text \<open>The client side: a session that owns a connector.\<close>

definition ClientSession_new :: "int \<Rightarrow> TCPSession" where
  "ClientSession_new now = (TCPSession_new now)\<lparr>client := True\<rparr>"

definition connectCallback :: "TCPSession \<Rightarrow> session_result" where
  "connectCallback s = connectEstablished (s\<lparr>socket := True\<rparr>)"

definition reconnect :: "TCPSession \<Rightarrow> session_result" where
  "reconnect s =
     rbind (connectDestroyed s) (\<lambda>(s1, es1).
       Inr (s1, es1 @ (if retry s1 then [ConnectorRestart] else [])))"

definition unenableRetry :: "TCPSession \<Rightarrow> TCPSession" where
  "unenableRetry s = s\<lparr>retry := False\<rparr>"

definition client_stop :: "bool \<Rightarrow> TCPSession \<Rightarrow> session_result" where
  "client_stop hasConnector s = Inr (s, if hasConnector then [ConnectorStop] else [])"

section \<open>Well-formed sessions\<close>

definition sess_ok :: "TCPSession \<Rightarrow> bool" where
  "sess_ok s \<longleftrightarrow> buf_ok (inputBuffer s) \<and> buf_ok (outputBuffer s) \<and> buf_ok (sendBuffer s)
     \<and> (state s = kConnected \<longrightarrow> socket s)
     \<and> \<not> isOperate (outputBuffer s) \<and> (\<not> isOperate (sendBuffer s) \<longrightarrow> contents (sendBuffer s) = [])"

text \<open>The bytes accepted by the session that no socket has been asked to send or confirmed.\<close>

definition pending :: "TCPSession \<Rightarrow> byte list" where
  "pending s = contents (sendBuffer s) @ contents (outputBuffer s)"

lemma TCPSession_new_ok: "sess_ok (TCPSession_new now)" "pending (TCPSession_new now) = []"
  by (simp_all add: sess_ok_def pending_def TCPSession_new_def)
    (simp add: DataBuffer_new_def isOperate_def)

lemma addMore_spec:
  assumes "sess_ok s"
  shows "\<exists>s'. addMore xs s = Inr s' \<and> sess_ok s' \<and> pending s' = pending s @ xs
      \<and> sendBuffer s' = sendBuffer s \<and> state s' = state s \<and> socket s' = socket s"
  using append_spec [of "outputBuffer s" xs] assms
  by (auto simp: addMore_def sess_ok_def pending_def isOperate_def)

lemma internalSend_spec:
  assumes "sess_ok s"
  shows "\<exists>s' es. internalSend s = Inr (s', es) \<and> sess_ok s' \<and> pending s' = pending s
      \<and> state s' = state s \<and> socket s' = socket s
      \<and> (es = [] \<and> s' = s \<or> es = [AsyncSend (contents (sendBuffer s'))] \<and> isOperate (sendBuffer s')
          \<and> \<not> isOperate (sendBuffer s))
      \<and> (state s = kConnected \<longrightarrow> isOperate (sendBuffer s') \<or> pending s' = [])"
proof (cases "state s \<noteq> kConnected \<or> isOperate (sendBuffer s) \<or> readableBytes (outputBuffer s) = 0")
  case True
  with assms show ?thesis
    by (auto simp: internalSend_def sess_ok_def pending_def contents_def)
next
  case False
  with assms show ?thesis
    by (auto simp: internalSend_def sess_ok_def pending_def Let_def beginRead_contents)
qed

lemma send_spec:
  assumes "sess_ok s"
  shows "\<exists>s' es. send xs s = Inr (s', es) \<and> sess_ok s' \<and> pending s' = pending s @ xs
      \<and> state s' = state s \<and> socket s' = socket s
      \<and> (state s = kConnected \<longrightarrow> isOperate (sendBuffer s') \<or> pending s' = [])"
proof -
  obtain b where b: "append xs (outputBuffer s) = Inr b" "buf_ok b"
      "contents b = contents (outputBuffer s) @ xs" "isOperating b = isOperating (outputBuffer s)"
    using append_spec [of "outputBuffer s" xs] assms by (auto simp: sess_ok_def)
  then have ok: "sess_ok (s\<lparr>outputBuffer := b\<rparr>)" "pending (s\<lparr>outputBuffer := b\<rparr>) = pending s @ xs"
    using assms by (auto simp: sess_ok_def isOperate_def pending_def)
  from internalSend_spec [OF ok(1)] ok(2) b(1) show ?thesis
    by (auto simp: send_def)
qed

lemma handWrite_ok_spec:
  assumes "sess_ok s"
  shows "\<exists>s' es. handWrite None Success n s = Inr (s', es) \<and> sess_ok s'
      \<and> pending s' = contents (outputBuffer s) \<and> state s' = state s \<and> socket s' = socket s
      \<and> (state s = kConnected \<longrightarrow> isOperate (sendBuffer s') \<or> pending s' = [])"
proof -
  let ?s1 = "s\<lparr>sendBuffer := retrieveAll (unoperate (sendBuffer s))\<rparr>"
  have ok: "sess_ok ?s1" "pending ?s1 = contents (outputBuffer s)"
    using assms by (auto simp: sess_ok_def pending_def)
  from internalSend_spec [OF ok(1)] ok(2) show ?thesis
    by (auto simp: handWrite_def Let_def)
qed

lemma startAsyncRead_spec:
  assumes "sess_ok s"
  shows "\<exists>b. startAsyncRead s = Inr (s\<lparr>inputBuffer := b\<rparr>, if state s = kConnected then [AsyncRead] else [])
      \<and> buf_ok b \<and> contents b = contents (inputBuffer s)"
proof (cases "state s = kConnected")
  case True
  with assms ensureWritableBytes_spec [of "inputBuffer s" 1024] show ?thesis
    by (auto simp: startAsyncRead_def sess_ok_def)
next
  case False
  with assms show ?thesis
    by (intro exI [of _ "inputBuffer s"]) (simp add: startAsyncRead_def sess_ok_def)
qed

lemma connectEstablished_spec:
  assumes "sess_ok s" and "socket s"
  shows "\<exists>s' es. connectEstablished s = Inr (s', es) \<and> sess_ok s' \<and> pending s' = pending s
      \<and> state s' = kConnected \<and> sendBuffer s' = sendBuffer s \<and> outputBuffer s' = outputBuffer s
      \<and> last es = SendInitData \<and> (\<forall>bs. AsyncSend bs \<notin> set es)"
proof -
  have "sess_ok (s\<lparr>state := kConnected\<rparr>)" using assms by (simp add: sess_ok_def)
  from startAsyncRead_spec [OF this] assms show ?thesis
    by (auto simp: connectEstablished_def sess_ok_def pending_def)
qed

lemma handClose_spec:
  assumes "sess_ok s" and "state s \<noteq> kConnecting"
  shows "\<exists>s' es. handClose s = Inr (s', es) \<and> sess_ok s' \<and> pending s' = pending s
      \<and> sendBuffer s' = sendBuffer s \<and> outputBuffer s' = outputBuffer s
      \<and> (\<forall>bs. AsyncSend bs \<notin> set es)"
  using assms by (auto simp: handClose_def connected_def sess_ok_def pending_def)

lemma shutdown_spec:
  assumes "sess_ok s"
  shows "\<exists>s' es. shutdown s = Inr (s', es) \<and> sess_ok s' \<and> pending s' = pending s
      \<and> sendBuffer s' = sendBuffer s \<and> outputBuffer s' = outputBuffer s
      \<and> (\<forall>bs. AsyncSend bs \<notin> set es)"
  using assms by (auto simp: shutdown_def sess_ok_def pending_def)

section \<open>The output side as a machine\<close>

text \<open>
  A session together with what its user has given it (\<open>accepted\<close>) and what the socket has
  confirmed (\<open>wire\<close>). The environment completes a send in flight with the whole buffer
  (\<open>written\<close>); a completion of only a part is treated separately below.
\<close>

record session_io =
  sess :: TCPSession
  accepted :: "byte list"
  wire :: "byte list"

inductive io_step :: "session_io \<Rightarrow> session_io \<Rightarrow> bool" where
  add: "addMore xs (sess c) = Inr s' \<Longrightarrow> io_step c (c\<lparr>sess := s', accepted := accepted c @ xs\<rparr>)"
| snd: "send xs (sess c) = Inr (s', es) \<Longrightarrow> io_step c (c\<lparr>sess := s', accepted := accepted c @ xs\<rparr>)"
| written: "isOperate (sendBuffer (sess c)) \<Longrightarrow>
    handWrite None Success (readableBytes (sendBuffer (sess c))) (sess c) = Inr (s', es) \<Longrightarrow>
    io_step c (c\<lparr>sess := s', wire := wire c @ contents (sendBuffer (sess c))\<rparr>)"
| established: "socket (sess c) \<Longrightarrow> connectEstablished (sess c) = Inr (s', es) \<Longrightarrow>
    io_step c (c\<lparr>sess := s'\<rparr>)"
| closing: "shutdown (sess c) = Inr (s', es) \<Longrightarrow> io_step c (c\<lparr>sess := s'\<rparr>)"
| closed: "forceClose (sess c) = Inr (s', es) \<Longrightarrow> io_step c (c\<lparr>sess := s'\<rparr>)"

inductive io_reachable :: "int \<Rightarrow> session_io \<Rightarrow> bool" for now where
  start: "io_reachable now \<lparr>sess = TCPSession_socket now, accepted = [], wire = []\<rparr>"
| more: "io_reachable now c \<Longrightarrow> io_step c c' \<Longrightarrow> io_reachable now c'"

inductive_cases io_stepE: "io_step c c'"

definition io_inv :: "session_io \<Rightarrow> bool" where
  "io_inv c \<longleftrightarrow> sess_ok (sess c) \<and> accepted c = wire c @ pending (sess c)"

lemma io_step_inv:
  assumes "io_step c c'" and "io_inv c"
  shows "io_inv c'"
  using assms(1)
proof (cases rule: io_step.cases)
  case (add xs s')
  with assms(2) addMore_spec [of "sess c" xs] show ?thesis by (auto simp: io_inv_def)
next
  case (snd xs s' es)
  with assms(2) send_spec [of "sess c" xs] show ?thesis by (auto simp: io_inv_def)
next
  case (written s' es)
  with assms(2) handWrite_ok_spec [of "sess c" "readableBytes (sendBuffer (sess c))"] show ?thesis
    by (auto simp: io_inv_def pending_def)
next
  case (established s' es)
  with assms(2) connectEstablished_spec [of "sess c"] show ?thesis by (auto simp: io_inv_def)
next
  case (closing s' es)
  with assms(2) shutdown_spec [of "sess c"] show ?thesis by (auto simp: io_inv_def)
next
  case (closed s' es)
  with assms(2) handClose_spec [of "sess c"] show ?thesis
    by (auto simp: io_inv_def forceClose_def split: if_splits)
qed

lemma io_reachable_inv: "io_reachable now c \<Longrightarrow> io_inv c"
proof (induction rule: io_reachable.induct)
  case start
  show ?case
    using TCPSession_new_ok [of now] by (simp add: io_inv_def TCPSession_socket_def sess_ok_def pending_def)
next
  case (more c c')
  then show ?case by (blast intro: io_step_inv)
qed

section \<open>What the user of a session can still do to it\<close>

datatype user_op =
    OpAddMore "byte list"
  | OpSend "byte list"
  | OpConnected
  | OpShutdown
  | OpForceClose
  | OpReadError int

text \<open>
  \<open>OpConnected\<close> is the connector's callback with a new socket, \<open>OpReadError\<close> a failed read that
  is none of aborted, interrupted and try-again.
\<close>

fun run_op :: "user_op \<Rightarrow> TCPSession \<Rightarrow> session_result" where
  "run_op (OpAddMore xs) s = rbind (addMore xs s) (\<lambda>s'. Inr (s', []))"
| "run_op (OpSend xs) s = send xs s"
| "run_op OpConnected s = connectCallback s"
| "run_op OpShutdown s = shutdown s"
| "run_op OpForceClose s = forceClose s"
| "run_op (OpReadError e) s = the (handRead (\<lambda>s. None) (OtherError e) [] s)"

fun run_ops :: "user_op list \<Rightarrow> TCPSession \<Rightarrow> session_result" where
  "run_ops [] s = Inr (s, [])"
| "run_ops (op # ops) s =
     rbind (run_op op s) (\<lambda>(s1, es1). rbind (run_ops ops s1) (\<lambda>(s2, es2). Inr (s2, es1 @ es2)))"

lemma run_ops_keeps:
  assumes keep: "\<And>op s s' es. op \<in> set ops \<Longrightarrow> P s \<Longrightarrow> run_op op s = Inr (s', es) \<Longrightarrow> P s' \<and> (\<forall>e \<in> set es. Q e)"
    and "P s" and "run_ops ops s = Inr (s', es)"
  shows "P s' \<and> (\<forall>e \<in> set es. Q e)"
  using assms
proof (induction ops arbitrary: s s' es)
  case Nil
  then show ?case by simp
next
  case (Cons op ops)
  from Cons.prems(3) obtain s1 es1 es2 where
    one: "run_op op s = Inr (s1, es1)" and rest: "run_ops ops s1 = Inr (s', es2)" and es: "es = es1 @ es2"
    by auto
  from Cons.prems(1) [OF _ Cons.prems(2) one] have 1: "P s1 \<and> (\<forall>e \<in> set es1. Q e)" by simp
  have "P s' \<and> (\<forall>e \<in> set es2. Q e)"
  proof (rule Cons.IH [OF _ _ rest])
    show "P s'' \<and> (\<forall>e \<in> set es'. Q e)"
      if "op' \<in> set ops" "P s0" "run_op op' s0 = Inr (s'', es')" for op' s0 s'' es'
      using that by (intro Cons.prems(1)) auto
  qed (use 1 in simp)
  with 1 es show ?case by auto
qed

lemma run_op_operating:
  assumes "isOperate (sendBuffer s)" and "run_op op s = Inr (s', es)"
  shows "isOperate (sendBuffer s') \<and> (\<forall>e \<in> set es. \<forall>bs. e \<noteq> AsyncSend bs)"
proof (cases op)
  case (OpAddMore xs)
  with assms show ?thesis by (auto simp: addMore_def)
next
  case (OpSend xs)
  with assms show ?thesis by (auto simp: send_def internalSend_def)
next
  case OpConnected
  with assms show ?thesis
    by (auto simp: connectCallback_def connectEstablished_def startAsyncRead_def)
next
  case OpShutdown
  with assms show ?thesis by (auto simp: shutdown_def split: if_splits)
next
  case OpForceClose
  with assms show ?thesis by (auto simp: forceClose_def handClose_def split: if_splits)
next
  case (OpReadError e)
  with assms show ?thesis by (auto simp: handRead_def handClose_def split: if_splits)
qed

lemma run_op_disconnecting:
  assumes "state s = kDisconnecting" and "op \<noteq> OpConnected" and "run_op op s = Inr (s', es)"
  shows "state s' = kDisconnecting \<and> (\<forall>e \<in> set es. e \<noteq> OnClose \<and> e \<noteq> CloseCallback)"
proof (cases op)
  case (OpAddMore xs)
  with assms show ?thesis by (auto simp: addMore_def)
next
  case (OpSend xs)
  with assms show ?thesis by (auto simp: send_def internalSend_def)
next
  case OpConnected
  with assms show ?thesis by simp
qed (use assms in \<open>auto simp: shutdown_def forceClose_def handRead_def handClose_def connected_def\<close>)

section \<open>Properties\<close>



text \<open>Progress of the output side: a \<open>send\<close> on a well-formed connected session never fails, and
  afterwards either a send is in flight or every accepted byte has been confirmed; the same holds
  after every successful completion, so data never waits without a send outstanding.\<close>

theorem session_send_progress:
  assumes "sess_ok s" and "state s = kConnected"
  shows "(\<exists>s' es. send xs s = Inr (s', es) \<and> sess_ok s' \<and> (isOperate (sendBuffer s') \<or> pending s' = []))
    \<and> (\<exists>s' es. handWrite None Success n s = Inr (s', es) \<and> sess_ok s'
         \<and> (isOperate (sendBuffer s') \<or> pending s' = []))"
  using send_spec [OF assms(1), of xs] handWrite_ok_spec [OF assms(1), of n] assms(2) by blast

lemma sample_session_ok: "sess_ok ((TCPSession_socket 0)\<lparr>state := kConnected\<rparr>)"
  using TCPSession_new_ok(1) [of 0] by (simp add: sess_ok_def TCPSession_socket_def)

theorem session_send_progress_witness:
  "\<exists>s' es. send [1] ((TCPSession_socket 0)\<lparr>state := kConnected\<rparr>) = Inr (s', es) \<and> sess_ok s'
     \<and> (isOperate (sendBuffer s') \<or> pending s' = [])"
  using session_send_progress [OF sample_session_ok, of "[1]" 0] by simp

text \<open>A partial send loses data. The socket may confirm fewer bytes than it was given
  (\<open>async_send\<close> sends some); \<open>handWrite\<close> drops the whole send buffer whatever the count, so the
  unsent tail of the buffer is neither on the wire nor pending any more.\<close>

theorem partial_send_loses_the_tail:
  assumes "io_reachable now c" and "isOperate (sendBuffer (sess c))"
    and "handWrite None Success n (sess c) = Inr (s', es)"
  shows "accepted c = (wire c @ take n (contents (sendBuffer (sess c))))
      @ drop n (contents (sendBuffer (sess c))) @ pending s'"
proof -
  from io_reachable_inv [OF assms(1)] have "sess_ok (sess c)" "accepted c = wire c @ pending (sess c)"
    by (simp_all add: io_inv_def)
  with handWrite_ok_spec [of "sess c" n] assms(3) show ?thesis
    by (auto simp: pending_def)
qed

definition sample_inflight :: session_io where
  "sample_inflight =
     (let s1 = fst (projr (connectEstablished (TCPSession_socket 0)));
          s2 = fst (projr (send [1, 2, 3] s1))
      in \<lparr>sess = s2, accepted = [1, 2, 3], wire = []\<rparr>)"

lemma sample_inflight_reachable:
  "io_reachable 0 sample_inflight" "isOperate (sendBuffer (sess sample_inflight))"
proof -
  let ?c0 = "\<lparr>sess = TCPSession_socket 0, accepted = [], wire = []\<rparr>"
  have ok0: "sess_ok (TCPSession_socket 0)"
    using io_reachable_inv [OF io_reachable.start, of 0] by (simp add: io_inv_def)
  from connectEstablished_spec [OF ok0] obtain s1 es1 where
    s1: "connectEstablished (TCPSession_socket 0) = Inr (s1, es1)" "sess_ok s1" "state s1 = kConnected"
      "pending s1 = pending (TCPSession_socket 0)"
    by (auto simp: TCPSession_socket_def)
  from send_spec [OF s1(2), of "[1, 2, 3]"] s1(3) obtain s2 es2 where
    s2: "send [1, 2, 3] s1 = Inr (s2, es2)" "pending s2 = pending s1 @ [1, 2, 3]"
      "isOperate (sendBuffer s2) \<or> pending s2 = []"
    by auto
  have "io_step ?c0 (?c0\<lparr>sess := s1\<rparr>)"
    by (rule io_step.established) (simp_all add: s1(1), simp add: TCPSession_socket_def)
  moreover have "io_step (?c0\<lparr>sess := s1\<rparr>) \<lparr>sess = s2, accepted = [1, 2, 3], wire = []\<rparr>"
    using io_step.snd [of "[1, 2, 3]" "?c0\<lparr>sess := s1\<rparr>" s2 es2] s2(1) by simp
  ultimately show "io_reachable 0 sample_inflight"
    using io_reachable.more [OF io_reachable.more [OF io_reachable.start]] s1(1) s2(1)
    by (simp add: sample_inflight_def)
  show "isOperate (sendBuffer (sess sample_inflight))"
    using s1(1) s2 by (simp add: sample_inflight_def)
qed

theorem partial_send_loses_the_tail_witness:
  "\<exists>s' es. handWrite None Success 1 (sess sample_inflight) = Inr (s', es)
     \<and> accepted sample_inflight = (wire sample_inflight @ take 1 (contents (sendBuffer (sess sample_inflight))))
        @ drop 1 (contents (sendBuffer (sess sample_inflight))) @ pending s'"
proof -
  have "sess_ok (sess sample_inflight)"
    using io_reachable_inv [OF sample_inflight_reachable(1)] by (simp add: io_inv_def)
  from handWrite_ok_spec [OF this, of 1] obtain s' es where
    w: "handWrite None Success 1 (sess sample_inflight) = Inr (s', es)"
    by blast
  from partial_send_loses_the_tail [OF sample_inflight_reachable w] w show ?thesis by blast
qed

text \<open>A failed write blocks a session for good. \<open>handWrite\<close> with an error leaves the send buffer
  marked as in flight, and from then on no sequence of adds, sends, closes, read errors and
  reconnections ever starts a send again: the reconnected client stays mute.\<close>

theorem failed_write_blocks_sending:
  assumes "isOperate (sendBuffer s)" and "ec \<noteq> Success"
    and "handWrite cb ec n s = Inr (s1, es1)" and "run_ops ops s1 = Inr (s2, es2)"
  shows "es1 = [] \<and> isOperate (sendBuffer s2) \<and> (\<forall>bs. AsyncSend bs \<notin> set es2)"
proof -
  from assms have s1: "es1 = []" "isOperate (sendBuffer s1)"
    by (auto simp: handWrite_def)
  have "isOperate (sendBuffer s2) \<and> (\<forall>e \<in> set es2. \<forall>bs. e \<noteq> AsyncSend bs)"
    by (rule run_ops_keeps [where P = "\<lambda>s. isOperate (sendBuffer s)", OF _ s1(2) assms(4)])
      (rule run_op_operating)
  with s1 show ?thesis by auto
qed

definition sample_failed :: TCPSession where
  "sample_failed = (TCPSession_socket 0)\<lparr>sendBuffer := operate (DataBuffer_new 8)\<rparr>"

lemma sample_failed_ok: "sess_ok sample_failed" "socket sample_failed" "isOperate (sendBuffer sample_failed)"
  using TCPSession_new_ok(1) [of 0]
  by (simp_all add: sample_failed_def sess_ok_def TCPSession_socket_def)

theorem failed_write_blocks_sending_witness:
  "\<exists>s2 es2. run_ops [OpConnected, OpSend [4]] sample_failed = Inr (s2, es2)
     \<and> (\<forall>bs. AsyncSend bs \<notin> set es2)"
proof -
  have ok: "sess_ok (sample_failed\<lparr>socket := True\<rparr>)"
    using sample_failed_ok(1) by (simp add: sess_ok_def)
  from connectEstablished_spec [OF ok] obtain s1 es1 where
    s1: "run_op OpConnected sample_failed = Inr (s1, es1)" "sess_ok s1"
    by (auto simp: connectCallback_def)
  from send_spec [OF s1(2), of "[4]"] s1(1) obtain s2 es2 where
    run: "run_ops [OpConnected, OpSend [4]] sample_failed = Inr (s2, es2)"
    by auto
  have "handWrite None (OtherError 32) 0 sample_failed = Inr (sample_failed, [])"
    by (simp add: handWrite_def)
  from failed_write_blocks_sending [OF sample_failed_ok(3) _ this run] run show ?thesis by blast
qed

text \<open>A session that was shut down is never closed. After \<open>shutdown\<close> of a connected session,
  no sequence of sends, shutdowns, forced closes and read errors runs \<open>onClose\<close> or the close
  callback, because \<open>handClose\<close> only acts on a connected or connecting session: the session keeps
  its slot in the session manager.\<close>

theorem shutdown_session_never_closes:
  assumes "state s = kConnected" and "shutdown s = Inr (s1, es1)"
    and "OpConnected \<notin> set ops" and "run_ops ops s1 = Inr (s2, es2)"
  shows "state s2 = kDisconnecting \<and> OnClose \<notin> set es2 \<and> CloseCallback \<notin> set es2"
proof -
  from assms(1,2) have s1: "state s1 = kDisconnecting"
    by (auto simp: shutdown_def split: if_splits)
  have "state s2 = kDisconnecting \<and> (\<forall>e \<in> set es2. e \<noteq> OnClose \<and> e \<noteq> CloseCallback)"
    by (rule run_ops_keeps [where P = "\<lambda>s. state s = kDisconnecting", OF _ s1 assms(4)])
      (use assms(3) run_op_disconnecting in metis)
  then show ?thesis by auto
qed

theorem shutdown_session_never_closes_witness:
  "let s1 = (TCPSession_socket 0)\<lparr>state := kDisconnecting\<rparr> in
   shutdown ((TCPSession_socket 0)\<lparr>state := kConnected\<rparr>) = Inr (s1, [SockShutdown])
   \<and> run_ops [OpReadError 2, OpForceClose] s1 = Inr (s1, []) \<and> state s1 = kDisconnecting"
proof -
  let ?s = "(TCPSession_socket 0)\<lparr>state := kConnected\<rparr>"
  let ?s1 = "(TCPSession_socket 0)\<lparr>state := kDisconnecting\<rparr>"
  have sh: "shutdown ?s = Inr (?s1, [SockShutdown])"
    by (simp add: shutdown_def TCPSession_socket_def)
  have run: "run_ops [OpReadError 2, OpForceClose] ?s1 = Inr (?s1, [])"
    by (simp add: handRead_def forceClose_def handClose_def connected_def)
  from shutdown_session_never_closes [OF _ sh _ run] sh run show ?thesis by simp
qed

end
