(* ===== verification/TCPSessionManager.thy ===== *)
theory TCPSessionManager
  imports TCPSession ObjectIndexPool NetPacket
begin

text \<open>
  TCPSessionManager.cpp: the sessions of a server, by index in the pool, and the ways to send
  to them. Sessions are shared objects, so the state holds them in an explicit store: \<open>heap\<close>
  maps a pointer to the session it points to, and the pool holds pointers. A null
  \<open>TCPSessionPtr\<close> is \<open>None\<close>. The effects of an operation say which session they belong to.
  \<open>M\<close> is the \<open>MAX_NUM\<close> of the pool; the protocol buffer encoder is the parameter \<open>ser\<close>.
\<close>

type_synonym session_ptr = nat

record TCPSessionManager =
  listeners :: "int list"
  sessionMap :: "session_ptr ObjectIndexPool"
  heap :: "session_ptr \<Rightarrow> TCPSession option"

type_synonym manager_result = "(TCPSessionManager \<times> (session_ptr \<times> effect) list) result"

definition TCPSessionManager_new :: "nat \<Rightarrow> TCPSessionManager" where
  "TCPSessionManager_new M = \<lparr>listeners = [], sessionMap = ObjectIndexPool_new M, heap = (\<lambda>_. None)\<rparr>"

text \<open>Calling a method of the object behind a pointer.\<close>

definition on_session :: "session_ptr \<Rightarrow> (TCPSession \<Rightarrow> session_result) \<Rightarrow> TCPSessionManager \<Rightarrow> manager_result" where
  "on_session p f m = (case heap m p of
     None \<Rightarrow> Inl NullDeref
   | Some s \<Rightarrow> rbind (f s) (\<lambda>(s', es). Inr (m\<lparr>heap := (heap m)(p \<mapsto> s')\<rparr>, map (Pair p) es)))"

section \<open>Sessions\<close>

definition addSession :: "nat \<Rightarrow> session_ptr \<Rightarrow> TCPSessionManager \<Rightarrow> TCPSessionManager result" where
  "addSession M p m =
     (let (pool, index) = addObject M (Some p) (sessionMap m)
      in case heap m p of
        None \<Rightarrow> Inl NullDeref
      | Some s \<Rightarrow> Inr (m\<lparr>sessionMap := pool,
          heap := (heap m)(p \<mapsto> (setUUID (of_nat index) s)\<lparr>closeCallback := True\<rparr>)\<rparr>))"

definition newSession :: "nat \<Rightarrow> session_ptr \<Rightarrow> TCPSessionManager \<Rightarrow> TCPSessionManager result" where
  "newSession M p m = addSession M p m"

text \<open>\<open>removeObject\<close> takes an unsigned index: a negative \<open>uuid\<close> is a large one.\<close>

definition removeSession :: "nat \<Rightarrow> int32_w \<Rightarrow> TCPSessionManager \<Rightarrow> TCPSessionManager" where
  "removeSession M u m = m\<lparr>sessionMap := removeObject M (unat u) (sessionMap m)\<rparr>"

definition removeSessionPtr :: "nat \<Rightarrow> session_ptr \<Rightarrow> TCPSessionManager \<Rightarrow> manager_result" where
  "removeSessionPtr M p m = (case heap m p of
     None \<Rightarrow> Inl NullDeref
   | Some s \<Rightarrow>
       if \<not> client s then Inr (removeSession M (uuid s) m, [])
       else if retry s then on_session p reconnect m
       else Inr (removeSession M (uuid s) m, []))"

definition getSession :: "nat \<Rightarrow> int32_w \<Rightarrow> TCPSessionManager \<Rightarrow> session_ptr option result" where
  "getSession M u m = (if sint u \<ge> 0 then getObject M (unat u) (sessionMap m) else Inr None)"

text \<open>A listener keeps a factory; the port is what identifies it. \<open>unordered_map::insert\<close> keeps
  an old entry.\<close>

definition createListener :: "int \<Rightarrow> TCPSessionManager \<Rightarrow> TCPSessionManager" where
  "createListener port m = (if port \<in> set (listeners m) then m else m\<lparr>listeners := port # listeners m\<rparr>)"

text \<open>The new client session is the object at the fresh pointer \<open>p\<close>; starting its connector is
  \<open>ConnectorRestart\<close>.\<close>

definition createConnector :: "nat \<Rightarrow> int \<Rightarrow> session_ptr \<Rightarrow> 8 word \<Rightarrow> TCPSessionManager \<Rightarrow> manager_result" where
  "createConnector M now p t m =
     rbind (addSession M p (m\<lparr>heap := (heap m)(p \<mapsto> setType (ucast t) (ClientSession_new now))\<rparr>)) (\<lambda>m'.
       Inr (m', [(p, ConnectorRestart)]))"

section \<open>Sending\<close>

text \<open>The bytes \<open>data, len\<close> of a call: \<open>len\<close> is converted to \<open>size_t\<close>.\<close>

definition arg_bytes :: "byte list \<Rightarrow> int32_w \<Rightarrow> byte list result" where
  "arg_bytes data len = read_mem data (unat (scast len :: size_w))"

fun foreach_type ::
    "(session_ptr \<Rightarrow> TCPSessionManager \<Rightarrow> manager_result) \<Rightarrow> 8 word \<Rightarrow> session_ptr option list \<Rightarrow> TCPSessionManager \<Rightarrow> manager_result" where
  "foreach_type f t [] m = Inr (m, [])"
| "foreach_type f t (None # ps) m = Inl NullDeref"
| "foreach_type f t (Some p # ps) m = (case heap m p of
     None \<Rightarrow> Inl NullDeref
   | Some s \<Rightarrow>
       rbind (if session_type s = t then f p m else Inr (m, [])) (\<lambda>(m1, es1).
         rbind (foreach_type f t ps m1) (\<lambda>(m2, es2). Inr (m2, es1 @ es2))))"

definition send_frame :: "PacketHeader \<Rightarrow> byte list \<Rightarrow> session_ptr \<Rightarrow> TCPSessionManager \<Rightarrow> manager_result" where
  "send_frame h body p = on_session p (\<lambda>s.
     rbind (addMore (header_bytes h) s) (\<lambda>s'. rbind (arg_bytes body (psize h)) (\<lambda>bs. send bs s')))"

definition sendMsg :: "session_ptr option \<Rightarrow> byte list \<Rightarrow> PacketHeader \<Rightarrow> 8 word \<Rightarrow> TCPSessionManager \<Rightarrow> manager_result" where
  "sendMsg session body h t m =
     (case session of
        Some p \<Rightarrow> send_frame h body p m
      | None \<Rightarrow> foreach_type (send_frame h body) t (objects (sessionMap m)) m)"

definition sendMsg_uuid :: "nat \<Rightarrow> int32_w \<Rightarrow> byte list \<Rightarrow> PacketHeader \<Rightarrow> 8 word \<Rightarrow> TCPSessionManager \<Rightarrow> manager_result" where
  "sendMsg_uuid M u body h t m = rbind (getSession M u m) (\<lambda>session. sendMsg session body h t m)"

definition sendMsgToSession :: "session_ptr option \<Rightarrow> byte list \<Rightarrow> int32_w \<Rightarrow> int32_w \<Rightarrow> 8 word \<Rightarrow> TCPSessionManager \<Rightarrow> manager_result" where
  "sendMsgToSession session data len msgID t m = sendMsg session data \<lparr>ptype = msgID, psize = len, extraID = 0\<rparr> t m"

definition sendMsgToSession_str :: "session_ptr option \<Rightarrow> byte list \<Rightarrow> int32_w \<Rightarrow> 8 word \<Rightarrow> TCPSessionManager \<Rightarrow> manager_result" where
  "sendMsgToSession_str session msg msgID t m = sendMsgToSession session msg (of_nat (length msg)) msgID t m"

definition sendMsgToSession_proto :: "('p \<Rightarrow> byte list) \<Rightarrow> session_ptr option \<Rightarrow> 'p \<Rightarrow> int32_w \<Rightarrow> 8 word \<Rightarrow> TCPSessionManager \<Rightarrow> manager_result" where
  "sendMsgToSession_proto ser session msg msgID t m = sendMsgToSession_str session (ser msg) msgID t m"

definition sendMsgToSession_raw :: "session_ptr option \<Rightarrow> byte list \<Rightarrow> int32_w \<Rightarrow> 8 word \<Rightarrow> TCPSessionManager \<Rightarrow> manager_result" where
  "sendMsgToSession_raw session data len t m =
     (let to = (\<lambda>p. on_session p (\<lambda>s. rbind (arg_bytes data len) (\<lambda>bs. send bs s)))
      in case session of
        Some p \<Rightarrow> to p m
      | None \<Rightarrow> foreach_type to t (objects (sessionMap m)) m)"

definition sendMsgToSession_packet :: "session_ptr option \<Rightarrow> NetPacket \<Rightarrow> 8 word \<Rightarrow> TCPSessionManager \<Rightarrow> manager_result" where
  "sendMsgToSession_packet session packet t m =
     sendMsgToSession_raw session (pkt_buffer packet) (of_nat (pkt_size packet)) t m"

definition sendMsgToSession_uuid :: "nat \<Rightarrow> int32_w \<Rightarrow> byte list \<Rightarrow> int32_w \<Rightarrow> int32_w \<Rightarrow> 8 word \<Rightarrow> TCPSessionManager \<Rightarrow> manager_result" where
  "sendMsgToSession_uuid M u data len msgID t m =
     rbind (getSession M u m) (\<lambda>session. sendMsgToSession session data len msgID t m)"

definition sendMsgToSession_uuid_str :: "nat \<Rightarrow> int32_w \<Rightarrow> byte list \<Rightarrow> int32_w \<Rightarrow> 8 word \<Rightarrow> TCPSessionManager \<Rightarrow> manager_result" where
  "sendMsgToSession_uuid_str M u msg msgID t m =
     rbind (getSession M u m) (\<lambda>session. sendMsgToSession_str session msg msgID t m)"

definition sendMsgToSession_uuid_proto :: "('p \<Rightarrow> byte list) \<Rightarrow> nat \<Rightarrow> int32_w \<Rightarrow> 'p \<Rightarrow> int32_w \<Rightarrow> 8 word \<Rightarrow> TCPSessionManager \<Rightarrow> manager_result" where
  "sendMsgToSession_uuid_proto ser M u msg msgID t m =
     rbind (getSession M u m) (\<lambda>session. sendMsgToSession_proto ser session msg msgID t m)"

definition sendMsgToSession_uuid_packet :: "nat \<Rightarrow> int32_w \<Rightarrow> NetPacket \<Rightarrow> 8 word \<Rightarrow> TCPSessionManager \<Rightarrow> manager_result" where
  "sendMsgToSession_uuid_packet M u packet t m =
     rbind (getSession M u m) (\<lambda>session. sendMsgToSession_packet session packet t m)"

definition transMsgToSession :: "session_ptr option \<Rightarrow> byte list \<Rightarrow> int32_w \<Rightarrow> int32_w \<Rightarrow> int32_w \<Rightarrow> 8 word \<Rightarrow> TCPSessionManager \<Rightarrow> manager_result" where
  "transMsgToSession session data len msgID extra t m =
     sendMsg session data \<lparr>ptype = msgID, psize = len, extraID = extra\<rparr> t m"

definition transMsgToSession_str :: "session_ptr option \<Rightarrow> byte list \<Rightarrow> int32_w \<Rightarrow> int32_w \<Rightarrow> 8 word \<Rightarrow> TCPSessionManager \<Rightarrow> manager_result" where
  "transMsgToSession_str session msg msgID extra t m =
     transMsgToSession session msg (of_nat (length msg)) msgID extra t m"

definition transMsgToSession_proto :: "('p \<Rightarrow> byte list) \<Rightarrow> session_ptr option \<Rightarrow> 'p \<Rightarrow> int32_w \<Rightarrow> int32_w \<Rightarrow> 8 word \<Rightarrow> TCPSessionManager \<Rightarrow> manager_result" where
  "transMsgToSession_proto ser session msg msgID extra t m =
     transMsgToSession_str session (ser msg) msgID extra t m"

section \<open>What a send changes\<close>

definition mgr_ok :: "nat \<Rightarrow> TCPSessionManager \<Rightarrow> bool" where
  "mgr_ok M m \<longleftrightarrow> pool_ok M (sessionMap m) \<and> (\<forall>p s. heap m p = Some s \<longrightarrow> sess_ok s) \<and>
     (\<forall>p \<in> ran (slot (sessionMap m)). heap m p \<noteq> None)"

text \<open>\<open>m'\<close> is \<open>m\<close> after the bytes \<open>bs\<close> were given to the sessions in \<open>P\<close>: each of these has
  them at the end of what it still has to send, and no other session changes.\<close>

definition delivered :: "byte list \<Rightarrow> session_ptr set \<Rightarrow> TCPSessionManager \<Rightarrow> TCPSessionManager \<Rightarrow> bool" where
  "delivered bs P m m' \<longleftrightarrow> sessionMap m' = sessionMap m \<and> listeners m' = listeners m \<and>
     (\<forall>q. q \<notin> P \<longrightarrow> heap m' q = heap m q) \<and>
     (\<forall>q \<in> P. \<exists>s s'. heap m q = Some s \<and> heap m' q = Some s' \<and> sess_ok s' \<and>
        pending s' = pending s @ bs \<and> session_type s' = session_type s)"

lemma delivered_none: "delivered bs {} m m"
  by (simp add: delivered_def)

lemma delivered_trans:
  "delivered bs P m m1 \<Longrightarrow> delivered bs Q m1 m2 \<Longrightarrow> P \<inter> Q = {} \<Longrightarrow> delivered bs (P \<union> Q) m m2"
  unfolding delivered_def by (auto 4 4 simp: disjoint_iff)

lemma delivered_ok: "delivered bs P m m' \<Longrightarrow> mgr_ok M m \<Longrightarrow> mgr_ok M m'"
  unfolding delivered_def mgr_ok_def by (metis option.distinct(1) option.inject)

lemma send_keeps_type: "send bs s = Inr (s', es) \<Longrightarrow> stype s' = stype s"
  by (auto simp: send_def internalSend_def Let_def split: if_splits)

lemma addMore_keeps_type: "addMore bs s = Inr s' \<Longrightarrow> stype s' = stype s"
  by (auto simp: addMore_def)

lemma arg_bytes_ok:
  "length body < 2 ^ 31 \<Longrightarrow> len = of_nat (length body) \<Longrightarrow> arg_bytes body len = Inr body"
  by (simp add: arg_bytes_def read_mem_def scast_of_nat unat_of_nat_size)

lemma send_frame_delivers:
  assumes "heap m p = Some s" and "sess_ok s" and "length body < 2 ^ 31" and "psize h = of_nat (length body)"
  shows "\<exists>m' es. send_frame h body p m = Inr (m', es) \<and> delivered (header_bytes h @ body) {p} m m'"
proof -
  obtain s1 where s1: "addMore (header_bytes h) s = Inr s1" "sess_ok s1" "pending s1 = pending s @ header_bytes h"
    using addMore_spec [OF assms(2), of "header_bytes h"] by blast
  obtain s2 es where s2: "send body s1 = Inr (s2, es)" "sess_ok s2" "pending s2 = pending s1 @ body"
    using send_spec [OF s1(2), of body] by blast
  have "session_type s2 = session_type s"
    using addMore_keeps_type [OF s1(1)] send_keeps_type [OF s2(1)] by (simp add: session_type_def)
  then show ?thesis
    using assms s1 s2 by (simp add: send_frame_def on_session_def arg_bytes_ok delivered_def)
qed

lemma foreach_type_delivers:
  assumes "distinct ps" and "\<forall>p \<in> set ps. \<exists>s. heap m p = Some s \<and> sess_ok s"
    and "\<And>m p s. heap m p = Some s \<Longrightarrow> sess_ok s \<Longrightarrow> \<exists>m' es. f p m = Inr (m', es) \<and> delivered bs {p} m m'"
  shows "\<exists>m' es. foreach_type f t (map Some ps) m = Inr (m', es) \<and>
    delivered bs {p \<in> set ps. \<exists>s. heap m p = Some s \<and> session_type s = t} m m'"
  using assms(1,2)
proof (induction ps arbitrary: m)
  case (Cons p ps)
  obtain s where s: "heap m p = Some s" "sess_ok s"
    using Cons.prems(2) by auto
  let ?P = "{q. q = p \<and> session_type s = t}"
  obtain m1 es1 where step: "(if session_type s = t then f p m else Inr (m, [])) = Inr (m1, es1)"
      "delivered bs ?P m m1"
    using assms(3) [OF s] delivered_none [of bs m] by (cases "session_type s = t") auto
  have same: "heap m1 q = heap m q" if "q \<in> set ps" for q
    using step(2) that Cons.prems(1) by (auto simp: delivered_def)
  obtain m2 es2 where rest: "foreach_type f t (map Some ps) m1 = Inr (m2, es2)"
      "delivered bs {q \<in> set ps. \<exists>s. heap m1 q = Some s \<and> session_type s = t} m1 m2"
    using Cons.IH [of m1] Cons.prems same by auto
  have "{q \<in> set ps. \<exists>s. heap m1 q = Some s \<and> session_type s = t} =
      {q \<in> set ps. \<exists>s. heap m q = Some s \<and> session_type s = t}"
    using same by auto
  moreover have disjoint: "?P \<inter> {q \<in> set ps. \<exists>s. heap m q = Some s \<and> session_type s = t} = {}"
    using Cons.prems(1) by auto
  ultimately have "delivered bs (?P \<union> {q \<in> set ps. \<exists>s. heap m q = Some s \<and> session_type s = t}) m m2"
    using delivered_trans [OF step(2) _ disjoint, of m2] rest(2) by simp
  moreover have "?P \<union> {q \<in> set ps. \<exists>s. heap m q = Some s \<and> session_type s = t} =
      {q \<in> set (p # ps). \<exists>s. heap m q = Some s \<and> session_type s = t}"
    using s(1) by auto
  ultimately show ?case
    using step(1) rest(1) s(1) by simp
qed (simp add: delivered_none)

text \<open>The sessions a message goes to: the given one, or all of the given type.\<close>

definition targets :: "session_ptr option \<Rightarrow> 8 word \<Rightarrow> TCPSessionManager \<Rightarrow> session_ptr set" where
  "targets session t m = (case session of
     Some p \<Rightarrow> {p}
   | None \<Rightarrow> {p \<in> ran (slot (sessionMap m)). \<exists>s. heap m p = Some s \<and> session_type s = t})"

lemma objects_stored: "pool_ok M p \<Longrightarrow> objects p = map Some (stored p)"
  by (auto simp: pool_ok_def stored_def intro!: map_idI [symmetric])

lemma sendMsg_delivers:
  assumes ok: "mgr_ok M m" and "\<forall>p. session = Some p \<longrightarrow> heap m p \<noteq> None"
    and "length body < 2 ^ 31" and "psize h = of_nat (length body)"
  shows "\<exists>m' es. sendMsg session body h t m = Inr (m', es) \<and> mgr_ok M m' \<and>
    delivered (header_bytes h @ body) (targets session t m) m m'"
proof -
  have sess: "\<exists>s. heap m p = Some s \<and> sess_ok s" if "heap m p \<noteq> None" for p
    using that ok by (auto simp: mgr_ok_def)
  have "\<exists>m' es. sendMsg session body h t m = Inr (m', es) \<and>
      delivered (header_bytes h @ body) (targets session t m) m m'"
  proof (cases session)
    case (Some p)
    then obtain s where "heap m p = Some s" "sess_ok s"
      using assms(2) sess by blast
    then show ?thesis
      using send_frame_delivers [OF _ _ assms(3,4)] Some by (auto simp: sendMsg_def targets_def)
  next
    case None
    have pool: "distinct (stored (sessionMap m))" "set (stored (sessionMap m)) = ran (slot (sessionMap m))"
      using ok oip.elems_law by (auto simp: mgr_ok_def)
    have "\<forall>p \<in> set (stored (sessionMap m)). \<exists>s. heap m p = Some s \<and> sess_ok s"
      using pool(2) ok sess by (simp add: mgr_ok_def)
    from foreach_type_delivers [OF pool(1) this, of "send_frame h body" "header_bytes h @ body" t]
    show ?thesis
      using send_frame_delivers [OF _ _ assms(3,4)] None pool(2) ok objects_stored [of M "sessionMap m"]
      by (simp add: sendMsg_def targets_def mgr_ok_def)
  qed
  then show ?thesis
    using delivered_ok ok by blast
qed

section \<open>Sessions come and go\<close>

lemma sint_of_nat_small: "n < 2 ^ 31 \<Longrightarrow> sint (of_nat n :: int32_w) = int n"
  by (simp add: signed_of_nat signed_take_bit_int_eq_self)

lemma getObject_slot: "pool_ok M p \<Longrightarrow> i \<le> M \<Longrightarrow> getObject M i p = Inr (slot p i)"
  by (simp add: getObject_def slot_def pool_ok_def)

lemma addSession_spec:
  assumes ok: "mgr_ok M m" and s: "heap m p = Some s" and room: "has_room M (sessionMap m)"
    and new: "p \<notin> ran (slot (sessionMap m))" and small: "M < 2 ^ 31"
  shows "\<exists>m' s'. addSession M p m = Inr m' \<and> mgr_ok M m' \<and> heap m' p = Some s' \<and>
    getSession M (uuid s') m' = Inr (Some p) \<and> (\<forall>q. q \<noteq> p \<longrightarrow> heap m' q = heap m q) \<and>
    pending s' = pending s \<and> closeCallback s' \<and> (\<exists>u. s' = (setUUID u s)\<lparr>closeCallback := True\<rparr>)"
proof -
  let ?i = "maxIndex (sessionMap m)" and ?pool = "sessionMap m"
  obtain pool where add: "addObject M (Some p) ?pool = (pool, ?i)"
    using addObject_room(1) [of M ?pool p] ok room by (cases "addObject M (Some p) ?pool") (auto simp: mgr_ok_def)
  have "\<forall>j. slot ?pool j \<noteq> Some p"
    using new by (auto simp: ran_def)
  then have pool: "pool_ok M pool" "slot pool = (slot ?pool)(?i := Some p)" "slot ?pool ?i = None"
    using oip.add_law [OF _ room _ add] ok by (auto simp: mgr_ok_def)
  have i: "?i \<le> M" "unat (of_nat ?i :: int32_w) = ?i" "0 \<le> sint (of_nat ?i :: int32_w)"
    using room small by (auto simp: has_room_def unat_of_nat sint_of_nat_small)
  let ?s' = "(setUUID (of_nat ?i) s)\<lparr>closeCallback := True\<rparr>"
  let ?m' = "m\<lparr>sessionMap := pool, heap := (heap m)(p \<mapsto> ?s')\<rparr>"
  have sess: "sess_ok ?s'" "pending ?s' = pending s" "uuid ?s' = of_nat ?i"
    using ok s by (auto simp: mgr_ok_def sess_ok_def setUUID_def pending_def)
  have "ran (slot pool) = insert p (ran (slot ?pool))"
    using pool(2,3) by simp
  then have "mgr_ok M ?m'"
    using ok pool(1) sess(1) by (auto simp: mgr_ok_def)
  moreover have "getSession M (uuid ?s') ?m' = Inr (Some p)"
    using i getObject_slot [OF pool(1) i(1)] pool(2) unfolding sess(3) by (simp add: getSession_def)
  ultimately show ?thesis
    using add s sess(2) by (intro exI [of _ ?m'] exI [of _ ?s']) (auto simp: addSession_def)
qed

section \<open>Properties\<close>

text \<open>C10: A message sent through the manager reaches exactly its targets: each target gets the
  header and the body, in one piece, after everything it was given before, and no other session
  changes. The target is the given session, or every stored session of the given type when no
  session is given.\<close>

theorem send_reaches_exactly_its_targets:
  assumes "mgr_ok M m" and "\<forall>p. session = Some p \<longrightarrow> heap m p \<noteq> None"
    and "length body < 2 ^ 31" and "psize h = of_nat (length body)"
  shows "\<exists>m' es. sendMsg session body h t m = Inr (m', es) \<and> mgr_ok M m' \<and>
    (\<forall>q. q \<notin> targets session t m \<longrightarrow> heap m' q = heap m q) \<and>
    (\<forall>q \<in> targets session t m. \<exists>s s'. heap m q = Some s \<and> heap m' q = Some s' \<and>
       pending s' = pending s @ header_bytes h @ body)"
  using sendMsg_delivers [OF assms] unfolding delivered_def by (metis (no_types, lifting))

definition sample_session :: "16 word \<Rightarrow> TCPSession" where
  "sample_session t = (TCPSession_socket 0)\<lparr>stype := t, state := kConnected\<rparr>"

definition sample_sessions :: TCPSessionManager where
  "sample_sessions = \<lparr>listeners = [],
     sessionMap = fst (addObject 3 (Some 8) (fst (addObject 3 (Some 7) (ObjectIndexPool_new 3)))),
     heap = [7 \<mapsto> sample_session 0, 8 \<mapsto> sample_session 5]\<rparr>"

lemma sample_session_sess_ok: "sess_ok (sample_session t)"
  using TCPSession_new_ok(1) [of 0] by (simp add: sample_session_def TCPSession_socket_def sess_ok_def)

lemma sample_pool_slots: "slot (sessionMap sample_sessions) = [0 \<mapsto> 7, 1 \<mapsto> 8]"
  by (auto simp: sample_sessions_def addObject_def ObjectIndexPool_new_def slot_def fun_eq_iff numeral_eq_Suc
      nth_Cons' split: if_splits)

lemma sample_heap:
  "heap sample_sessions = [7 \<mapsto> sample_session 0, 8 \<mapsto> sample_session 5]"
  "session_type (sample_session 0) = 0" "session_type (sample_session 5) = 5"
  by (simp_all add: sample_sessions_def sample_session_def session_type_def)

lemma sample_sessions_ok: "mgr_ok 3 sample_sessions"
proof -
  have p0: "pool_ok 3 (ObjectIndexPool_new 3 :: nat ObjectIndexPool)" "has_room 3 (ObjectIndexPool_new 3 :: nat ObjectIndexPool)"
    by (rule pool_ok_new) (simp add: has_room_def ObjectIndexPool_new_def)
  obtain p1 i where a1: "addObject 3 (Some 7) (ObjectIndexPool_new 3 :: nat ObjectIndexPool) = (p1, i)"
    by fastforce
  have p1: "pool_ok 3 p1" "slot p1 = (slot (ObjectIndexPool_new 3))(i \<mapsto> 7)"
    using addObject_ok [OF p0 _ a1] addObject_room(3) [OF p0 a1] by simp_all
  have r1: "has_room 3 p1"
    using addObject_room(5) [OF p0 a1] by (simp add: has_room_def ObjectIndexPool_new_def)
  obtain p2 j where a2: "addObject 3 (Some 8) p1 = (p2, j)"
    by fastforce
  have "pool_ok 3 p2"
    using addObject_ok [OF p1(1) r1 _ a2] p1(2) by simp
  moreover have "sessionMap sample_sessions = p2"
    by (simp add: sample_sessions_def a1 a2)
  ultimately show ?thesis
    unfolding mgr_ok_def sample_pool_slots
    by (auto simp: sample_sessions_def sample_session_sess_ok split: if_splits)
qed

lemma sample_targets: "targets None 0 sample_sessions = {7}" "targets (Some 8) t sample_sessions = {8}"
  by (auto simp: targets_def sample_pool_slots sample_heap split: if_splits)

theorem send_reaches_exactly_its_targets_witness:
  "\<exists>m' es. sendMsg (Some 8) [1, 2] \<lparr>ptype = 3, psize = 2, extraID = 0\<rparr> 0 sample_sessions = Inr (m', es) \<and>
     heap m' 7 = heap sample_sessions 7"
proof -
  have "\<forall>p. Some 8 = Some p \<longrightarrow> heap sample_sessions p \<noteq> None"
    by (simp add: sample_sessions_def)
  from send_reaches_exactly_its_targets [OF sample_sessions_ok this, of "[1, 2]" "\<lparr>ptype = 3, psize = 2, extraID = 0\<rparr>" 0]
  show ?thesis
    by (auto simp: sample_targets)
qed

text \<open>A reply to a session that is gone is not dropped: with the default type it is sent to
  every client session that is still connected.\<close>

theorem reply_to_vanished_session_is_broadcast:
  assumes "mgr_ok M m" and "getSession M u m = Inr None"
    and "length body < 2 ^ 31" and "psize h = of_nat (length body)"
  shows "\<exists>m' es. sendMsg_uuid M u body h 0 m = Inr (m', es) \<and>
    (\<forall>q \<in> ran (slot (sessionMap m)). \<forall>s. heap m q = Some s \<and> session_type s = 0 \<longrightarrow>
       (\<exists>s'. heap m' q = Some s' \<and> pending s' = pending s @ header_bytes h @ body))"
  using sendMsg_delivers [OF assms(1) _ assms(3,4), of None 0] assms(2)
  by (fastforce simp: sendMsg_uuid_def delivered_def targets_def)

theorem reply_to_vanished_session_is_broadcast_witness:
  "\<exists>m' es s'. sendMsg_uuid 3 2 [1, 2] \<lparr>ptype = 3, psize = 2, extraID = 0\<rparr> 0 sample_sessions = Inr (m', es) \<and>
     heap m' 7 = Some s' \<and>
     pending s' = pending (sample_session 0) @ header_bytes \<lparr>ptype = 3, psize = 2, extraID = 0\<rparr> @ [1, 2]"
proof -
  have "getSession 3 2 sample_sessions = Inr None"
    using sample_sessions_ok getObject_slot [of 3 "sessionMap sample_sessions" 2] sample_pool_slots
    by (simp add: getSession_def mgr_ok_def)
  from reply_to_vanished_session_is_broadcast [OF sample_sessions_ok this, of "[1, 2]" "\<lparr>ptype = 3, psize = 2, extraID = 0\<rparr>"]
  obtain m' es where m': "sendMsg_uuid 3 2 [1, 2] \<lparr>ptype = 3, psize = 2, extraID = 0\<rparr> 0 sample_sessions = Inr (m', es)"
      "\<forall>q \<in> ran (slot (sessionMap sample_sessions)). \<forall>s. heap sample_sessions q = Some s \<and> session_type s = 0 \<longrightarrow>
       (\<exists>s'. heap m' q = Some s' \<and>
          pending s' = pending s @ header_bytes \<lparr>ptype = 3, psize = 2, extraID = 0\<rparr> @ [1, 2])"
    by auto
  moreover have "7 \<in> ran (slot (sessionMap sample_sessions))"
    by (simp add: sample_pool_slots)
  ultimately show ?thesis
    using sample_heap by fastforce
qed

text \<open>While the pool has room, a session that is added is found under the uuid it is given,
  and removing that uuid makes it unknown again; no other session is touched.\<close>

theorem session_add_get_remove:
  assumes "mgr_ok M m" and "heap m p = Some s" and "has_room M (sessionMap m)"
    and "p \<notin> ran (slot (sessionMap m))" and "M < 2 ^ 31"
  shows "\<exists>m' s'. addSession M p m = Inr m' \<and> mgr_ok M m' \<and> heap m' p = Some s' \<and>
    getSession M (uuid s') m' = Inr (Some p) \<and> getSession M (uuid s') (removeSession M (uuid s') m') = Inr None \<and>
    (\<forall>q. q \<noteq> p \<longrightarrow> heap m' q = heap m q)"
proof -
  obtain m' s' where m': "addSession M p m = Inr m'" "mgr_ok M m'" "heap m' p = Some s'"
      "getSession M (uuid s') m' = Inr (Some p)" "\<forall>q. q \<noteq> p \<longrightarrow> heap m' q = heap m q"
    using addSession_spec [OF assms] by blast
  have "getSession M (uuid s') (removeSession M (uuid s') m') = Inr None"
    using m'(2,4) by (auto simp: getSession_def getObject_def removeSession_def removeObject_def mgr_ok_def
        pool_ok_def split: if_splits)
  then show ?thesis
    using m' by blast
qed

theorem session_add_get_remove_witness:
  "\<exists>m' s'. addSession 3 9 (sample_sessions\<lparr>heap := (heap sample_sessions)(9 \<mapsto> sample_session 0)\<rparr>) = Inr m' \<and>
     heap m' 9 = Some s' \<and> getSession 3 (uuid s') m' = Inr (Some 9)"
proof -
  let ?m = "sample_sessions\<lparr>heap := (heap sample_sessions)(9 \<mapsto> sample_session 0)\<rparr>"
  have "mgr_ok 3 ?m"
    using sample_sessions_ok sample_session_sess_ok by (auto simp: mgr_ok_def)
  moreover have "has_room 3 (sessionMap ?m)"
    by (simp add: sample_sessions_def has_room_def addObject_def ObjectIndexPool_new_def)
  moreover have "9 \<notin> ran (slot (sessionMap ?m))"
    by (simp add: sample_pool_slots)
  ultimately show ?thesis
    using session_add_get_remove [of 3 ?m 9 "sample_session 0"] by auto
qed

end
