(* ===== verification/StdContainers.thy ===== *)
theory StdContainers
  imports Prelude
begin

text \<open>
  The operations of the C++ containers that the servers use and that HOL has no equal of.

  A \<open>std::list\<close> is a HOL list; \<open>merge\<close> and \<open>set_difference\<close> are written out as the library
  runs them, so that they also say what happens on unsorted input. A \<open>std::map\<close> is the list of
  its entries in key order. Its comparison is a projection \<open>p\<close> of the key, because
  \<open>MatchDisService\<close> is compared by \<open>sid\<close> alone while its entries also carry \<open>loaded\<close>: two
  keys that compare equal need not be equal, and which of them stays in the map matters. A
  \<open>std::set<int>\<close> is a sorted list without repetition, with \<open>insort_insert\<close> of the
  library as its \<open>insert\<close>.
\<close>

section \<open>Lists\<close>

text \<open>\<open>std::list::merge\<close>: an element of the second list goes before the first element it is
  smaller than.\<close>

fun list_merge :: "'a::linorder list \<Rightarrow> 'a list \<Rightarrow> 'a list" where
  "list_merge [] ys = ys"
| "list_merge xs [] = xs"
| "list_merge (x # xs) (y # ys) =
     (if y < x then y # list_merge (x # xs) ys else x # list_merge xs (y # ys))"

lemma mset_list_merge [simp, conserve_simps]: "mset (list_merge xs ys) = mset xs + mset ys"
  by (induction xs ys rule: list_merge.induct) auto

lemma set_list_merge [simp]: "set (list_merge xs ys) = set xs \<union> set ys"
  by (induction xs ys rule: list_merge.induct) auto

lemma length_list_merge [simp]: "length (list_merge xs ys) = length xs + length ys"
  by (induction xs ys rule: list_merge.induct) auto

lemma list_merge_Nil2 [simp]: "list_merge xs [] = xs"
  by (cases xs) auto

lemma sorted_list_merge: "sorted xs \<Longrightarrow> sorted ys \<Longrightarrow> sorted (list_merge xs ys)"
  by (induction xs ys rule: list_merge.induct) (auto simp: not_less)

text \<open>\<open>std::set_difference\<close> on two sorted ranges.\<close>

fun set_difference :: "'a::linorder list \<Rightarrow> 'a list \<Rightarrow> 'a list" where
  "set_difference [] ys = []"
| "set_difference xs [] = xs"
| "set_difference (x # xs) (y # ys) =
     (if x < y then x # set_difference xs (y # ys)
      else if y < x then set_difference (x # xs) ys
      else set_difference xs ys)"

lemma set_difference_Nil2 [simp]: "set_difference xs [] = xs"
  by (cases xs) auto

lemma mset_set_difference:
  "sorted xs \<Longrightarrow> sorted ys \<Longrightarrow> mset (set_difference xs ys) = mset xs - mset ys"
proof (induction xs ys rule: set_difference.induct)
  case (3 x xs y ys)
  consider "x < y" | "y < x" | "x = y"
    by fastforce
  then show ?case
  proof cases
    case 1
    then have "x \<notin> set (y # ys)"
      using "3.prems"(2) by fastforce
    then show ?thesis
      using 1 3 by (simp add: add_mset_diff_bothsides diff_union_swap2 not_in_iff set_mset_mset)
  next
    case 2
    then have "y \<notin> set (x # xs)"
      using "3.prems"(1) by fastforce
    then have "mset (x # xs) - mset (y # ys) = mset (x # xs) - mset ys"
      by (metis (no_types) diff_single_trivial diff_union_swap2 minus_add_mset_if_not_in_lhs mset.simps(2) set_mset_mset)
    then show ?thesis
      using 2 3 by simp
  next
    case 3
    then show ?thesis
      using "3.IH" "3.prems" by simp
  qed
qed simp_all

lemma set_difference_empty_iff:
  "sorted xs \<Longrightarrow> sorted ys \<Longrightarrow> set_difference xs ys = [] \<longleftrightarrow> mset xs \<subseteq># mset ys"
  by (metis Diff_eq_empty_iff_mset mset_set_difference mset_zero_iff)

section \<open>Ordered maps\<close>

type_synonym ('k, 'v) omap = "('k \<times> 'v) list"

definition om_find :: "('k \<Rightarrow> 'o::linorder) \<Rightarrow> 'o \<Rightarrow> ('k, 'v) omap \<Rightarrow> ('k \<times> 'v) option" where
  "om_find p q m = find (\<lambda>e. p (fst e) = q) m"

text \<open>\<open>insert\<close> leaves an entry whose key compares equal as it is.\<close>

fun om_insert :: "('k \<Rightarrow> 'o::linorder) \<Rightarrow> 'k \<Rightarrow> 'v \<Rightarrow> ('k, 'v) omap \<Rightarrow> ('k, 'v) omap" where
  "om_insert p k v [] = [(k, v)]"
| "om_insert p k v ((k', v') # m) =
     (if p k < p k' then (k, v) # (k', v') # m
      else if p k' < p k then (k', v') # om_insert p k v m
      else (k', v') # m)"

definition om_erase :: "('k \<Rightarrow> 'o::linorder) \<Rightarrow> 'o \<Rightarrow> ('k, 'v) omap \<Rightarrow> ('k, 'v) omap" where
  "om_erase p q m = filter (\<lambda>e. p (fst e) \<noteq> q) m"

text \<open>Writing through an iterator, \<open>iter->second = f (iter->second)\<close>.\<close>

definition om_modify :: "('k \<Rightarrow> 'o::linorder) \<Rightarrow> 'o \<Rightarrow> ('v \<Rightarrow> 'v) \<Rightarrow> ('k, 'v) omap \<Rightarrow> ('k, 'v) omap" where
  "om_modify p q f m = map (\<lambda>(k, v). if p k = q then (k, f v) else (k, v)) m"

text \<open>\<open>m[k] = v\<close>: the key that is already in the map stays.\<close>

definition om_assign :: "('k \<Rightarrow> 'o::linorder) \<Rightarrow> 'k \<Rightarrow> 'v \<Rightarrow> ('k, 'v) omap \<Rightarrow> ('k, 'v) omap" where
  "om_assign p k v m = om_modify p (p k) (\<lambda>_. v) (om_insert p k v m)"

definition om_ok :: "('k \<Rightarrow> 'o::linorder) \<Rightarrow> ('k, 'v) omap \<Rightarrow> bool" where
  "om_ok p m = sorted_wrt (<) (map (p \<circ> fst) m)"

lemma om_ok_Nil [simp]: "om_ok p []"
  by (simp add: om_ok_def)

lemma om_ok_Cons: "om_ok p (e # m) \<longleftrightarrow> (\<forall>e' \<in> set m. p (fst e) < p (fst e')) \<and> om_ok p m"
  by (simp add: om_ok_def)

lemma om_ok_distinct: "om_ok p m \<Longrightarrow> distinct (map (p \<circ> fst) m)"
  by (simp add: om_ok_def strict_sorted_iff)

lemma om_ok_sorted: "om_ok p m \<Longrightarrow> sorted (map (p \<circ> fst) m)"
  by (simp add: om_ok_def strict_sorted_iff)

lemma om_find_simps [simp]:
  "om_find p q [] = None"
  "om_find p q (e # m) = (if p (fst e) = q then Some e else om_find p q m)"
  by (simp_all add: om_find_def)

lemma om_find_None_iff: "om_find p q m = None \<longleftrightarrow> q \<notin> (p \<circ> fst) ` set m"
  by (induction m) auto

lemma om_find_SomeD: "om_find p q m = Some e \<Longrightarrow> e \<in> set m \<and> p (fst e) = q"
  by (auto simp: om_find_def find_Some_iff)

lemma om_find_iff:
  assumes "om_ok p m"
  shows "om_find p q m = Some e \<longleftrightarrow> e \<in> set m \<and> p (fst e) = q"
  using assms by (induction m) (auto simp: om_ok_Cons dest: om_find_SomeD)

lemma om_modify_keys [simp]: "map fst (om_modify p q f m) = map fst m"
  by (induction m) (auto simp: om_modify_def split: prod.splits)

lemma om_modify_ok [simp]: "om_ok p (om_modify p q f m) \<longleftrightarrow> om_ok p m"
  unfolding om_ok_def by (metis list.map_comp om_modify_keys)

lemma om_find_modify:
  "om_find p q' (om_modify p q f m) =
     (if q' = q then map_option (apsnd f) (om_find p q m) else om_find p q' m)"
  by (induction m) (auto simp: om_modify_def)

lemma om_insert_set:
  "om_ok p m \<Longrightarrow> set (om_insert p k v m) =
     (if om_find p (p k) m = None then insert (k, v) (set m) else set m)"
proof (induction m)
  case (Cons e m)
  have "p k < p (fst e) \<Longrightarrow> om_find p (p k) m = None"
    using Cons.prems by (force simp: om_ok_Cons om_find_None_iff)
  then show ?case
    using Cons by (cases e) (auto simp: om_ok_Cons)
qed simp

lemma om_insert_ok: "om_ok p m \<Longrightarrow> om_ok p (om_insert p k v m)"
  by (induction m) (force simp: om_ok_Cons om_insert_set split: if_splits)+

lemma om_find_insert:
  "om_ok p m \<Longrightarrow> om_find p q (om_insert p k v m) =
     (if q = p k \<and> om_find p q m = None then Some (k, v) else om_find p q m)"
proof (induction m)
  case (Cons e m)
  have "p k < p (fst e) \<Longrightarrow> om_find p (p k) m = None"
    using Cons.prems by (force simp: om_ok_Cons om_find_None_iff)
  then show ?case
    using Cons by (cases e) (auto simp: om_ok_Cons)
qed simp

lemma om_erase_set: "set (om_erase p q m) = {e \<in> set m. p (fst e) \<noteq> q}"
  by (auto simp: om_erase_def)

lemma om_erase_ok: "om_ok p m \<Longrightarrow> om_ok p (om_erase p q m)"
  by (induction m) (auto simp: om_ok_Cons om_erase_def)

lemma om_find_erase: "om_find p q' (om_erase p q m) = (if q' = q then None else om_find p q' m)"
  by (induction m) (auto simp: om_erase_def)

lemma om_assign_ok: "om_ok p m \<Longrightarrow> om_ok p (om_assign p k v m)"
  by (simp add: om_assign_def om_insert_ok)

lemma om_find_assign:
  "om_ok p m \<Longrightarrow> om_find p q (om_assign p k v m) =
     (if q = p k then Some (case om_find p q m of None \<Rightarrow> (k, v) | Some e \<Rightarrow> (fst e, v))
      else om_find p q m)"
  by (auto simp: om_assign_def om_find_modify om_find_insert split: option.splits prod.splits)

lemma om_find_assign_id:
  "om_ok id m \<Longrightarrow> om_find id q (om_assign id k v m) =
     (if q = k then Some (case om_find id q m of None \<Rightarrow> (k, v) | Some e \<Rightarrow> (fst e, v)) else om_find id q m)"
  using om_find_assign [of id m q k v] by (simp add: id_def)

lemma om_insert_absent:
  "om_find p (p k) m = None \<Longrightarrow> mset (om_insert p k v m) = add_mset (k, v) (mset m)"
  by (induction m) (auto split: if_splits)

lemma om_erase_found:
  "om_ok p m \<Longrightarrow> om_find p q m = Some e \<Longrightarrow> mset m = add_mset e (mset (om_erase p q m))"
proof (induction m)
  case (Cons a m)
  show ?case
  proof (cases "p (fst a) = q")
    case True
    then have "om_erase p q m = m"
      using Cons.prems(1) by (auto simp: om_erase_def om_ok_Cons intro!: filter_True)
    then show ?thesis
      using True Cons.prems by (simp add: om_erase_def)
  next
    case False
    then show ?thesis
      using Cons by (simp add: om_erase_def om_ok_Cons)
  qed
qed simp

lemma om_erase_absent: "om_find p q m = None \<Longrightarrow> om_erase p q m = m"
  by (induction m) (auto simp: om_erase_def split: if_splits)

text \<open>The values of a map of lists, as one multiset: the matches some service runs.\<close>

definition om_values :: "('k, 'a list) omap \<Rightarrow> 'a multiset" where
  "om_values m = (\<Sum>e\<in>#mset m. mset (snd e))"

lemma om_values_simps [simp]:
  "om_values [] = {#}"
  "om_values (e # m) = mset (snd e) + om_values m"
  by (simp_all add: om_values_def)

lemma om_values_insert [conserve_simps]:
  "om_find p (p k) m = None \<Longrightarrow> om_values (om_insert p k v m) = mset v + om_values m"
  by (simp add: om_values_def om_insert_absent)

lemma om_values_erase [conserve_simps]:
  "om_ok p m \<Longrightarrow> om_find p q m = Some e \<Longrightarrow> om_values m = mset (snd e) + om_values (om_erase p q m)"
  by (simp add: om_values_def om_erase_found [of p m q e])

lemma om_modify_absent: "om_find p q m = None \<Longrightarrow> om_modify p q f m = m"
  by (induction m) (auto simp: om_modify_def split: if_splits)

lemma om_values_modify [conserve_simps]:
  "om_ok p m \<Longrightarrow> om_find p q m = Some e \<Longrightarrow>
     om_values (om_modify p q f m) + mset (snd e) = om_values m + mset (f (snd e))"
proof (induction m)
  case (Cons a m)
  show ?case
  proof (cases "p (fst a) = q")
    case True
    then have "om_find p q m = None"
      using Cons.prems(1) by (auto simp: om_ok_Cons om_find_None_iff)
    then have "om_modify p q f m = m"
      by (rule om_modify_absent)
    then show ?thesis
      using True Cons.prems by (auto simp: om_modify_def split: prod.splits)
  next
    case False
    then show ?thesis
      using Cons by (cases a) (simp add: om_modify_def om_ok_Cons)
  qed
qed simp

section \<open>The map interface\<close>

text \<open>
  What the managers rely on of a map: the laws of looking up after storing, writing through an
  iterator and erasing, up to the invariant of the representation.
\<close>

locale key_map =
  fixes ok :: "'m \<Rightarrow> bool"
    and lookup :: "'m \<Rightarrow> 'o \<Rightarrow> 'v option"
    and store :: "'o \<Rightarrow> 'v \<Rightarrow> 'm \<Rightarrow> 'm"
    and modify :: "'o \<Rightarrow> ('v \<Rightarrow> 'v) \<Rightarrow> 'm \<Rightarrow> 'm"
    and remove :: "'o \<Rightarrow> 'm \<Rightarrow> 'm"
  assumes store_ok: "ok m \<Longrightarrow> ok (store q v m)"
    and modify_ok: "ok m \<Longrightarrow> ok (modify q f m)"
    and remove_ok: "ok m \<Longrightarrow> ok (remove q m)"
    and lookup_store: "ok m \<Longrightarrow> lookup (store q v m) = (lookup m)(q \<mapsto> v)"
    and lookup_modify: "ok m \<Longrightarrow> lookup (modify q f m) = (lookup m)(q := map_option f (lookup m q))"
    and lookup_remove: "ok m \<Longrightarrow> lookup (remove q m) = (lookup m)(q := None)"
begin

lemma remove_store: "ok m \<Longrightarrow> lookup (remove q (store q v m)) = (lookup m)(q := None)"
  by (simp add: lookup_remove lookup_store store_ok)

lemma store_all:
  "ok m \<Longrightarrow> ok (fold (\<lambda>(q, v). store q v) xs m) \<and>
     lookup (fold (\<lambda>(q, v). store q v) xs m) = lookup m ++ map_of (rev xs)"
  by (induction xs arbitrary: m) (auto simp: store_ok lookup_store map_add_def split: option.splits)

lemma remove_all:
  "ok m \<Longrightarrow> ok (fold remove qs m) \<and> lookup (fold remove qs m) = lookup m |` (- set qs)"
  by (induction qs arbitrary: m) (auto simp: remove_ok lookup_remove restrict_map_def)

end

definition om_lookup :: "('k \<Rightarrow> 'o::linorder) \<Rightarrow> ('k, 'v) omap \<Rightarrow> 'o \<Rightarrow> 'v option" where
  "om_lookup p m q = map_option snd (om_find p q m)"

lemma om_lookup_insert:
  "om_ok p m \<Longrightarrow> om_lookup p (om_insert p k v m) =
     (if om_lookup p m (p k) = None then (om_lookup p m)(p k \<mapsto> v) else om_lookup p m)"
  by (rule ext) (auto simp: om_lookup_def om_find_insert)

lemma om_lookup_fold_insert:
  "om_ok p m \<Longrightarrow> om_ok p (fold (\<lambda>(k, v). om_insert p k v) xs m) \<and>
     om_lookup p (fold (\<lambda>(k, v). om_insert p k v) xs m) = map_of (map (apfst p) xs) ++ om_lookup p m"
proof (induction xs arbitrary: m)
  case (Cons x xs)
  obtain k v where x: "x = (k, v)"
    by fastforce
  have ins: "om_ok p (om_insert p k v m)"
    using Cons.prems by (rule om_insert_ok)
  have "f ++ (if g q = None then g(q \<mapsto> v) else g) = (f(q \<mapsto> v)) ++ g" for f g :: "'b \<rightharpoonup> 'c" and q v
    by (rule ext) (auto simp: map_add_def split: option.splits)
  then have "map_of (map (apfst p) xs) ++ om_lookup p (om_insert p k v m) =
      map_of (map (apfst p) (x # xs)) ++ om_lookup p m"
    unfolding om_lookup_insert [OF Cons.prems] x by (simp del: fun_upd_apply map_add_upd)
  then show ?case
    using Cons.IH [OF ins] by (simp add: x fun_upd_def)
qed simp

interpretation im: key_map "om_ok id" "om_lookup id" "\<lambda>q v. om_assign id q v"
    "om_modify id" "om_erase id"
  by unfold_locales
    (auto simp: om_lookup_def om_assign_ok om_erase_ok om_find_assign om_find_modify
      om_find_erase map_option.compositionality comp_def split: option.splits)

lemma om_lookup_Nil [simp]: "om_lookup p [] q = None"
  by (simp add: om_lookup_def)

text \<open>The entries of a map are what can be looked up in it.\<close>

lemma om_lookup_iff: "om_ok id m \<Longrightarrow> om_lookup id m q = Some v \<longleftrightarrow> (q, v) \<in> set m"
proof -
  assume ok: "om_ok id m"
  have "om_find id q m = Some e \<longleftrightarrow> e \<in> set m \<and> fst e = q" for e
    using om_find_iff [OF ok, of q e] by simp
  then show ?thesis
    by (cases "om_find id q m") (force simp: om_lookup_def)+
qed

end
