(* ===== verification/MatchDistribution.thy ===== *)
theory MatchDistribution
  imports StdContainers
begin

text \<open>
  The distribution of matches over match services, CSMatchDistribution.cpp, with the load
  estimate of CSMatchLoadedEvaluation.cpp: filling of the services below the average, clipping
  of those above it. A service map is an ordered map keyed by \<open>sid\<close>; the \<open>loaded\<close> of a key is
  the estimate the strategy sorts by.

  The average is \<open>floor(all / (float)n)\<close>. The quotient is written as integer division, which
  it equals as long as the number of matches is below \<open>2 ^ 24\<close>.
\<close>

record MatchDisService =
  sid :: int
  loaded :: int

type_synonym service_map = "(MatchDisService, int list) omap"

type_synonym distribution = "service_map \<times> int list \<times> int list"

section \<open>Load evaluation\<close>

definition evaluate :: "int \<Rightarrow> int list \<Rightarrow> int" where
  "evaluate s mids = int (length mids)"

definition updateLoaded :: "int \<Rightarrow> service_map \<Rightarrow> service_map result" where
  "updateLoaded s services = (case om_find sid s services of
     None \<Rightarrow> Inl NullDeref
   | Some (k, mids) \<Rightarrow>
       Inr (om_insert sid \<lparr>sid = s, loaded = evaluate s mids\<rparr> mids (om_erase sid s services)))"

section \<open>Filling\<close>

text \<open>At most \<open>n\<close> matches go from the front of the waiting list to the end of the service's.\<close>

fun fill_move :: "nat \<Rightarrow> int list \<Rightarrow> int list \<Rightarrow> int list \<times> int list" where
  "fill_move (Suc n) mids (mid # undist) = fill_move n (mids @ [mid]) undist"
| "fill_move _ mids undist = (mids, undist)"

fun fill_loop :: "int \<Rightarrow> MatchDisService list \<Rightarrow> distribution \<Rightarrow> distribution result" where
  "fill_loop avg [] (services, undist, changed) = Inr (services, undist, changed)"
| "fill_loop avg (srv # ordered) (services, undist, changed) =
     (if undist = [] then Inr (services, undist, changed)
      else if avg - loaded srv \<le> 0 then Inr (services, undist, changed)
      else case om_find sid (sid srv) services of
        None \<Rightarrow> Inl NullDeref
      | Some (k, mids) \<Rightarrow>
          let (mids', undist') = fill_move (nat (avg - loaded srv)) mids undist
          in fill_loop avg ordered
               (om_modify sid (sid srv) (\<lambda>_. mids') services, undist', insort_insert (sid srv) changed))"

definition distributeFill :: "int \<Rightarrow> service_map \<Rightarrow> int list \<Rightarrow> distribution result" where
  "distributeFill avg services undist =
     (let ordered = sort_key loaded (map fst services)
      in rbind (fill_loop avg ordered (services, undist, [])) (\<lambda>(services', undist', changed).
           rbind (rfold updateLoaded changed services') (\<lambda>services''.
             Inr (services'', undist', changed))))"

section \<open>Clipping\<close>

definition tooFree :: "MatchDisService \<Rightarrow> bool" where
  "tooFree srv = (loaded srv \<le> 0)"

definition tooBusy :: "MatchDisService \<Rightarrow> bool" where
  "tooBusy srv = (loaded srv \<ge> 10)"

definition canRedistribute :: "int \<Rightarrow> bool" where
  "canRedistribute mid = True"

text \<open>
  The inner \<open>do ... while (true)\<close> looks for the next match that may move; it does not test for
  the end of the list. The result is the matches passed over, the match, and the rest.
\<close>

fun clip_next :: "int list \<Rightarrow> (int list \<times> int \<times> int list) result" where
  "clip_next [] = Inl OutOfBounds"
| "clip_next (mid # mes) =
     (if canRedistribute mid then Inr ([], mid, mes)
      else rbind (clip_next mes) (\<lambda>(passed, m, rest). Inr (mid # passed, m, rest)))"

fun clip_move :: "nat \<Rightarrow> int list \<Rightarrow> int list \<Rightarrow> int list \<Rightarrow> bool \<Rightarrow> (int list \<times> int list \<times> bool) result" where
  "clip_move (Suc n) passed (mid # mes) undist changed =
     rbind (clip_next (mid # mes)) (\<lambda>(skipped, m, rest).
       clip_move n (passed @ skipped) rest (undist @ [m]) True)"
| "clip_move _ passed mes undist changed = Inr (passed @ mes, undist, changed)"

fun clip_loop :: "int \<Rightarrow> MatchDisService list \<Rightarrow> distribution \<Rightarrow> distribution result" where
  "clip_loop avg [] (services, undist, changed) = Inr (services, undist, changed)"
| "clip_loop avg (srv # ordered) (services, undist, changed) =
     (if loaded srv - avg \<le> 0 then Inr (services, undist, changed)
      else case om_find sid (sid srv) services of
        None \<Rightarrow> Inl NullDeref
      | Some (k, mes) \<Rightarrow>
          rbind (clip_move (nat (loaded srv - avg)) [] mes undist False) (\<lambda>(mes', undist', moved).
            clip_loop avg ordered
              (om_modify sid (sid srv) (\<lambda>_. mes') services, undist',
               if moved then insort_insert (sid srv) changed else changed)))"

definition distributeClipping :: "int \<Rightarrow> service_map \<Rightarrow> int list \<Rightarrow> distribution result" where
  "distributeClipping avg services undist =
     (let ordered = sort_key (\<lambda>s. - loaded s) (map fst services)
      in if ordered = [] then Inl OutOfBounds
         else if \<not> (tooFree (last ordered) \<or> tooBusy (hd ordered)) then Inr (services, undist, [])
         else rbind (clip_loop avg ordered (services, undist, [])) (\<lambda>(services', undist', changed).
           rbind (rfold updateLoaded changed services') (\<lambda>services''.
             Inr (services'', undist', changed))))"

section \<open>The strategy\<close>

text \<open>The result lists the changed services as \<open>unsigned int\<close>.\<close>

definition uint_of :: "int \<Rightarrow> int" where
  "uint_of s = s mod 2 ^ 32"

definition MatchDistribution_call ::
    "service_map \<Rightarrow> (int, 'p) omap \<Rightarrow> int list \<Rightarrow> distribution result" where
  "MatchDistribution_call services allMatches undist =
     (if services = [] then Inr (services, undist, [])
      else
        let avg = int (length allMatches div length services)
        in rbind (distributeFill avg services undist) (\<lambda>(services1, undist1, tmp1).
             rbind (distributeClipping avg services1 undist1) (\<lambda>(services2, undist2, tmp2).
               let changed = fold insort_insert tmp2 (fold insort_insert tmp1 [])
               in if undist2 \<noteq> []
                  then rbind (distributeFill avg services2 undist2) (\<lambda>(services3, undist3, tmp3).
                    Inr (services3, undist3, map uint_of (fold insort_insert tmp3 changed)))
                  else Inr (services2, undist2, map uint_of changed))))"

section \<open>Loads\<close>

text \<open>The matches of a service, as \<open>CSMatchManager::getDistMatch\<close> reads them.\<close>

definition dist_of :: "service_map \<Rightarrow> int \<Rightarrow> int list" where
  "dist_of services s = (case om_find sid s services of None \<Rightarrow> [] | Some e \<Rightarrow> snd e)"

definition sids :: "service_map \<Rightarrow> int list" where
  "sids services = map (sid \<circ> fst) services"

definition accurate :: "service_map \<Rightarrow> bool" where
  "accurate services = (\<forall>e \<in> set services. loaded (fst e) = int (length (snd e)))"

definition reload :: "int \<Rightarrow> service_map \<Rightarrow> service_map" where
  "reload s services =
     map (\<lambda>e. if sid (fst e) = s then (\<lparr>sid = s, loaded = int (length (snd e))\<rparr>, snd e) else e) services"

lemma om_replace:
  "om_ok p m \<Longrightarrow> om_find p q m = Some (k, v) \<Longrightarrow> p k' = q \<Longrightarrow>
     om_insert p k' v' (om_erase p q m) = map (\<lambda>e. if p (fst e) = q then (k', v') else e) m"
proof (induction m)
  case (Cons e m)
  show ?case
  proof (cases "p (fst e) = q")
    case True
    then have above: "\<forall>e' \<in> set m. q < p (fst e')"
      using Cons.prems(1) by (auto simp: om_ok_Cons)
    then have "om_erase p q m = m" "map (\<lambda>e. if p (fst e) = q then (k', v') else e) m = m"
      by (auto simp: om_erase_def intro!: filter_True map_idI)
    moreover have "om_insert p k' v' m = (k', v') # m"
      using above Cons.prems(3) by (cases m) auto
    ultimately show ?thesis
      using True by (simp add: om_erase_def)
  next
    case False
    then have "p (fst e) < q"
      using Cons.prems om_find_SomeD [of p q m "(k, v)"] by (auto simp: om_ok_Cons)
    then show ?thesis
      using False Cons by (cases e) (auto simp: om_erase_def om_ok_Cons)
  qed
qed simp

lemma updateLoaded_reload:
  assumes "om_ok sid services" and "s \<in> set (sids services)"
  shows "updateLoaded s services = Inr (reload s services)"
proof -
  obtain k v where found: "om_find sid s services = Some (k, v)"
    using assms(2) om_find_None_iff [of sid s services] by (cases "om_find sid s services") (auto simp: sids_def)
  have "\<forall>e \<in> set services. sid (fst e) = s \<longrightarrow> e = (k, v)"
    using found om_find_iff [OF assms(1)] by (metis option.inject)
  then show ?thesis
    using om_replace [OF assms(1) found] by (auto simp: updateLoaded_def found reload_def evaluate_def)
qed

text \<open>Re-estimating changes keys only, never the services, their order or their matches.\<close>

lemma reload_keeps [simp]:
  "sids (reload s m) = sids m" "om_ok sid (reload s m) = om_ok sid m"
  "dist_of (reload s m) q = dist_of m q" "om_values (reload s m) = om_values m"
  "length (reload s m) = length m"
proof -
  have "map (sid \<circ> fst) (reload s m) = map (sid \<circ> fst) m"
    by (auto simp: reload_def)
  then show "sids (reload s m) = sids m" "om_ok sid (reload s m) = om_ok sid m"
    by (simp_all add: sids_def om_ok_def)
  show "dist_of (reload s m) q = dist_of m q"
    by (induction m) (auto simp: dist_of_def reload_def)
  show "om_values (reload s m) = om_values m"
    by (induction m) (auto simp: reload_def)
  show "length (reload s m) = length m"
    by (simp add: reload_def)
qed

lemma fold_reload_keeps [simp]:
  "sids (fold reload ss m) = sids m" "om_ok sid (fold reload ss m) = om_ok sid m"
  "dist_of (fold reload ss m) q = dist_of m q" "om_values (fold reload ss m) = om_values m"
  "length (fold reload ss m) = length m"
  by (induction ss arbitrary: m) simp_all

lemma fold_reload_accurate:
  "\<forall>e \<in> set m. sid (fst e) \<notin> set ss \<longrightarrow> loaded (fst e) = int (length (snd e)) \<Longrightarrow>
     accurate (fold reload ss m)"
proof (induction ss arbitrary: m)
  case (Cons s ss)
  have "\<forall>e \<in> set (reload s m). sid (fst e) \<notin> set ss \<longrightarrow> loaded (fst e) = int (length (snd e))"
    using Cons.prems by (auto simp: reload_def)
  then show ?case
    by (simp add: Cons.IH)
qed (simp add: accurate_def)

lemma updateLoaded_all:
  assumes "om_ok sid services" and "set ss \<subseteq> set (sids services)"
  shows "rfold updateLoaded ss services = Inr (fold reload ss services)"
proof -
  have "updateLoaded s m = Inr (reload s m) \<and> om_ok sid (reload s m) \<and> sids (reload s m) = sids services"
    if "s \<in> set ss" "om_ok sid m \<and> sids m = sids services" for s m
    using that assms(2) by (auto simp: updateLoaded_reload)
  then show ?thesis
    using rfold_cong [of ss "\<lambda>m. om_ok sid m \<and> sids m = sids services" updateLoaded reload services] assms(1)
    by blast
qed

lemma dist_of_modify:
  "s \<in> set (sids m) \<Longrightarrow> dist_of (om_modify sid s (\<lambda>_. v) m) q = (if q = s then v else dist_of m q)"
  using om_find_None_iff [of sid s m]
  by (cases "om_find sid s m") (auto simp: dist_of_def om_find_modify sids_def)

lemma sids_modify [simp]: "sids (om_modify sid s f m) = sids m"
  by (metis list.map_comp om_modify_keys sids_def)

lemma sids_keys: "map fst m = map fst m' \<Longrightarrow> sids m = sids m'"
  by (metis list.map_comp sids_def)

lemma om_ok_sids: "om_ok sid m \<longleftrightarrow> sorted_wrt (<) (sids m)"
  by (simp add: om_ok_def sids_def)

lemma sids_find: "s \<in> set (sids m) \<Longrightarrow> \<exists>k v. om_find sid s m = Some (k, v)"
  using om_find_None_iff [of sid s m] by (cases "om_find sid s m") (auto simp: sids_def)

lemma entry_dist_of: "om_ok sid m \<Longrightarrow> e \<in> set m \<Longrightarrow> dist_of m (sid (fst e)) = snd e"
  using om_find_iff [of sid m "sid (fst e)" e] by (simp add: dist_of_def)

section \<open>What filling does\<close>

lemma fill_move_eq: "fill_move n mids undist = (mids @ take n undist, drop n undist)"
  by (induction n mids undist rule: fill_move.induct) auto

text \<open>
  The state \<open>(m, u)\<close> before and \<open>(m', u')\<close> after some services, \<open>ks\<close>, were offered matches:
  nothing is lost, a service gets at most what it lacks, and it gets all of it when matches are
  left over. \<open>cs\<close> are the services that were touched.
\<close>

definition filled ::
    "int \<Rightarrow> MatchDisService list \<Rightarrow> service_map \<Rightarrow> int list \<Rightarrow> int set \<Rightarrow> service_map \<Rightarrow> int list \<Rightarrow> bool" where
  "filled avg ks m u cs m' u' \<longleftrightarrow>
     map fst m' = map fst m \<and> om_values m' + mset u' = om_values m + mset u \<and>
     cs \<subseteq> sid ` set ks \<and> (\<forall>s. s \<notin> cs \<longrightarrow> dist_of m' s = dist_of m s) \<and>
     (\<forall>k \<in> set ks. length (dist_of m (sid k)) \<le> length (dist_of m' (sid k)) \<and>
       length (dist_of m' (sid k)) \<le> length (dist_of m (sid k)) + nat (avg - loaded k)) \<and>
     (u' \<noteq> [] \<longrightarrow> (\<forall>k \<in> set ks.
       length (dist_of m' (sid k)) = length (dist_of m (sid k)) + nat (avg - loaded k)))"

lemma filled_stop:
  "u = [] \<or> (\<forall>k \<in> set ks. avg \<le> loaded k) \<Longrightarrow> filled avg ks m u {} m u"
  by (auto simp: filled_def)

lemma filled_step:
  assumes "om_ok sid m" and found: "om_find sid (sid k) m = Some (k', v)" and "sid k \<notin> sid ` set ks"
    and left: "drop (nat (avg - loaded k)) u = [] \<longrightarrow> u' = []"
    and rest: "filled avg ks (om_modify sid (sid k) (\<lambda>_. v @ take (nat (avg - loaded k)) u) m)
      (drop (nat (avg - loaded k)) u) cs m' u'"
  shows "filled avg (k # ks) m u (insert (sid k) cs) m' u'"
proof -
  let ?n = "nat (avg - loaded k)" and ?m1 = "om_modify sid (sid k) (\<lambda>_. v @ take (nat (avg - loaded k)) u) m"
  have "om_values ?m1 + mset (drop ?n u) = om_values m + mset u"
    using om_values_modify [OF assms(1) found, of "\<lambda>_. v @ take ?n u"]
    by simp (metis append_take_drop_id mset_append union_assoc union_commute)
  moreover have dist1: "dist_of ?m1 q = (if q = sid k then v @ take ?n u else dist_of m q)" for q
    using found om_find_SomeD [OF found] by (subst dist_of_modify) (force simp: sids_def)+
  have v: "dist_of m (sid k) = v"
    by (simp add: dist_of_def found)
  have new: "sid k \<notin> cs"
    using rest assms(3) by (auto simp: filled_def)
  then have last: "dist_of m' (sid k) = v @ take ?n u"
    using rest by (simp add: filled_def dist1)
  have other: "sid j \<noteq> sid k" if "j \<in> set ks" for j
    using that assms(3) by (metis image_eqI)
  have full: "u' \<noteq> [] \<Longrightarrow> length (take ?n u) = ?n"
    using left by auto
  have "\<forall>s. s \<notin> insert (sid k) cs \<longrightarrow> dist_of m' s = dist_of m s"
    using rest by (simp add: filled_def dist1)
  moreover have "\<forall>j \<in> set (k # ks). length (dist_of m (sid j)) \<le> length (dist_of m' (sid j)) \<and>
      length (dist_of m' (sid j)) \<le> length (dist_of m (sid j)) + nat (avg - loaded j)"
    using rest by (simp add: filled_def dist1 other last v)
  moreover have "u' \<noteq> [] \<longrightarrow> (\<forall>j \<in> set (k # ks).
      length (dist_of m' (sid j)) = length (dist_of m (sid j)) + nat (avg - loaded j))"
    using rest full by (simp add: filled_def dist1 other last v)
  moreover have "insert (sid k) cs \<subseteq> sid ` set (k # ks)" "map fst m' = map fst m"
      "om_values m' + mset u' = om_values ?m1 + mset (drop ?n u)"
    using rest by (auto simp: filled_def)
  ultimately show ?thesis
    unfolding filled_def by presburger
qed

lemma fill_loop_nothing: "fill_loop avg ks (m, [], c) = Inr (m, [], c)"
  by (cases ks) simp_all

lemma fill_loop_spec:
  assumes "om_ok sid m" and "sid ` set ks \<subseteq> set (sids m)" and "distinct (map sid ks)"
    and "sorted (map loaded ks)"
  shows "\<exists>m' u' c' cs. fill_loop avg ks (m, u, c) = Inr (m', u', c') \<and>
    set c' = set c \<union> cs \<and> filled avg ks m u cs m' u'"
  using assms
proof (induction ks arbitrary: m u c)
  case (Cons k ks)
  let ?n = "nat (avg - loaded k)"
  show ?case
  proof (cases "u = [] \<or> avg - loaded k \<le> 0")
    case True
    then have "filled avg (k # ks) m u {} m u"
      using Cons.prems(4) by (intro filled_stop) auto
    then show ?thesis
      using True by (intro exI [of _ m] exI [of _ u] exI [of _ c] exI [of _ "{}"]) auto
  next
    case False
    obtain k' v where found: "om_find sid (sid k) m = Some (k', v)"
      using Cons.prems(2) sids_find by force
    let ?m1 = "om_modify sid (sid k) (\<lambda>_. v @ take ?n u) m"
    have step: "fill_loop avg (k # ks) (m, u, c) = fill_loop avg ks (?m1, drop ?n u, insort_insert (sid k) c)"
      using False by (simp add: found fill_move_eq)
    have "sid ` set ks \<subseteq> set (sids ?m1)" "distinct (map sid ks)" "sorted (map loaded ks)" "om_ok sid ?m1"
      using Cons.prems by auto
    then obtain m' u' c' cs where IH: "fill_loop avg ks (?m1, drop ?n u, insort_insert (sid k) c) = Inr (m', u', c')"
      "set c' = set (insort_insert (sid k) c) \<union> cs" "filled avg ks ?m1 (drop ?n u) cs m' u'"
      using Cons.IH [of ?m1 "drop ?n u" "insort_insert (sid k) c"] by blast
    have "drop ?n u = [] \<longrightarrow> u' = []"
      using IH(1) fill_loop_nothing [of avg ks ?m1 "insort_insert (sid k) c"] by auto
    then have "filled avg (k # ks) m u (insert (sid k) cs) m' u'"
      using filled_step [OF Cons.prems(1) found _ _ IH(3)] Cons.prems(3) by auto
    moreover have "fill_loop avg (k # ks) (m, u, c) = Inr (m', u', c')"
      using step IH(1) by (rule trans)
    moreover have "set c' = set c \<union> insert (sid k) cs"
      using IH(2) by (simp add: set_insort_insert)
    ultimately show ?thesis
      by blast
  qed
next
  case Nil
  then show ?case
    using filled_stop [of u "[]" avg m] by (intro exI [of _ m] exI [of _ u] exI [of _ c] exI [of _ "{}"]) simp
qed

text \<open>
  The two phases, seen from outside. \<open>conserves\<close> is what each promises of any map: the same
  services in the same order, no match lost or doubled, only the reported services touched, and
  loads that are right wherever they were right before.
\<close>

definition conserves :: "service_map \<Rightarrow> int list \<Rightarrow> service_map \<Rightarrow> int list \<Rightarrow> int set \<Rightarrow> bool" where
  "conserves m u m' u' cs \<longleftrightarrow>
     om_ok sid m' \<and> sids m' = sids m \<and> om_values m' + mset u' = om_values m + mset u \<and>
     cs \<subseteq> set (sids m) \<and> (\<forall>s. s \<notin> cs \<longrightarrow> dist_of m' s = dist_of m s) \<and>
     (accurate m \<longrightarrow> accurate m')"

lemma conserves_refl: "om_ok sid m \<Longrightarrow> conserves m u m u {}"
  by (simp add: conserves_def)

lemma conserves_trans:
  "conserves m u m1 u1 cs \<Longrightarrow> conserves m1 u1 m2 u2 cs' \<Longrightarrow> conserves m u m2 u2 (cs \<union> cs')"
  by (auto simp: conserves_def)

lemma sorted_keys:
  "sid ` set (sort_key f (map fst m)) = set (sids m)"
  "om_ok sid m \<Longrightarrow> distinct (map sid (sort_key f (map fst m)))"
proof -
  show "sid ` set (sort_key f (map fst m)) = set (sids m)"
    by (auto simp: sids_def)
  have "mset (map sid (sort_key f (map fst m))) = mset (sids m)"
    by (simp add: sids_def flip: image_mset.compositionality)
  then show "om_ok sid m \<Longrightarrow> distinct (map sid (sort_key f (map fst m)))"
    using om_ok_distinct [of sid m] mset_eq_imp_distinct_iff unfolding sids_def by blast
qed

lemma accurate_key:
  assumes "om_ok sid m" and "accurate m" and "k \<in> set (map fst m)"
  shows "loaded k = int (length (dist_of m (sid k)))"
  using assms entry_dist_of by (fastforce simp: accurate_def)

lemma reload_conserves:
  assumes ok: "om_ok sid m" and keys: "map fst m' = map fst m"
    and "om_values m' + mset u' = om_values m + mset u" and cs: "set c \<subseteq> set (sids m)"
    and same: "\<forall>s. s \<notin> set c \<longrightarrow> dist_of m' s = dist_of m s"
  shows "rfold updateLoaded c m' = Inr (fold reload c m')"
    and "conserves m u (fold reload c m') u' (set c)"
proof -
  have ok': "om_ok sid m'" and sids': "sids m' = sids m"
    using ok keys by (simp_all add: om_ok_sids sids_keys [OF keys])
  then show "rfold updateLoaded c m' = Inr (fold reload c m')"
    using cs by (simp add: updateLoaded_all)
  have "accurate (fold reload c m')" if "accurate m"
  proof (rule fold_reload_accurate, intro ballI impI)
    fix e assume e: "e \<in> set m'" "sid (fst e) \<notin> set c"
    then have "fst e \<in> set (map fst m)"
      using keys by (metis image_eqI set_map)
    then show "loaded (fst e) = int (length (snd e))"
      using accurate_key [OF ok that] same entry_dist_of [OF ok' e(1)] e(2) by metis
  qed
  then show "conserves m u (fold reload c m') u' (set c)"
    using ok' sids' assms(3-5) by (simp add: conserves_def)
qed

lemma distributeFill_spec:
  assumes ok: "om_ok sid m"
  shows "\<exists>m' u' c. distributeFill avg m u = Inr (m', u', c) \<and> conserves m u m' u' (set c) \<and>
    (accurate m \<longrightarrow> (\<forall>s \<in> set (sids m).
       length (dist_of m s) \<le> length (dist_of m' s) \<and>
       length (dist_of m' s) \<le> max (length (dist_of m s)) (nat avg) \<and>
       (u' \<noteq> [] \<longrightarrow> length (dist_of m' s) = max (length (dist_of m s)) (nat avg))))"
proof -
  let ?ks = "sort_key loaded (map fst m)"
  have "sid ` set ?ks \<subseteq> set (sids m)" "distinct (map sid ?ks)" "sorted (map loaded ?ks)"
    using sorted_keys [where f = loaded and m = m] ok by simp_all
  then obtain m1 u' c cs where loop: "fill_loop avg ?ks (m, u, []) = Inr (m1, u', c)"
      "set c = set [] \<union> cs" and fill: "filled avg ?ks m u cs m1 u'"
    using fill_loop_spec [OF ok, of ?ks avg u "[]"] by blast
  have cs: "set c \<subseteq> set (sids m)"
    using fill loop(2) sorted_keys(1) [where f = loaded and m = m] by (simp add: filled_def)
  have parts: "map fst m1 = map fst m" "om_values m1 + mset u' = om_values m + mset u"
      "\<forall>s. s \<notin> set c \<longrightarrow> dist_of m1 s = dist_of m s"
    using fill loop(2) by (simp_all add: filled_def)
  note upd = reload_conserves [OF ok parts(1,2) cs parts(3)]
  have "distributeFill avg m u = Inr (fold reload c m1, u', c)"
    by (simp add: distributeFill_def loop(1) upd(1))
  moreover have "length (dist_of m s) \<le> length (dist_of m1 s) \<and>
       length (dist_of m1 s) \<le> max (length (dist_of m s)) (nat avg) \<and>
       (u' \<noteq> [] \<longrightarrow> length (dist_of m1 s) = max (length (dist_of m s)) (nat avg))"
    if acc: "accurate m" and s: "s \<in> set (sids m)" for s
  proof -
    obtain k where k: "k \<in> set ?ks" "sid k = s"
      using s sorted_keys(1) [where f = loaded and m = m] by (metis imageE)
    then have "loaded k = int (length (dist_of m s))"
      using accurate_key [OF ok acc, of k] by simp
    then show ?thesis
      using fill k by (force simp: filled_def max_def nat_diff_distrib')
  qed
  ultimately show ?thesis
    using upd(2) by (intro exI [of _ "fold reload c m1"] exI [of _ u'] exI [of _ c]) simp
qed

section \<open>What clipping does\<close>

lemma clip_next_Cons: "clip_next (mid # mes) = Inr ([], mid, mes)"
  by (simp add: canRedistribute_def)

lemma clip_move_eq:
  "clip_move n passed mes u ch = Inr (passed @ drop n mes, u @ take n mes, ch \<or> (n \<noteq> 0 \<and> mes \<noteq> []))"
proof (induction n arbitrary: passed mes u ch)
  case (Suc n)
  then show ?case
    by (cases mes) (simp_all add: clip_next_Cons del: clip_next.simps)
qed simp

definition clipped ::
    "int \<Rightarrow> MatchDisService list \<Rightarrow> service_map \<Rightarrow> int list \<Rightarrow> int set \<Rightarrow> service_map \<Rightarrow> int list \<Rightarrow> bool" where
  "clipped avg ks m u cs m' u' \<longleftrightarrow>
     map fst m' = map fst m \<and> om_values m' + mset u' = om_values m + mset u \<and>
     cs \<subseteq> sid ` set ks \<and> (\<forall>s. s \<notin> cs \<longrightarrow> dist_of m' s = dist_of m s) \<and>
     (\<forall>k \<in> set ks. length (dist_of m' (sid k)) = length (dist_of m (sid k)) - nat (loaded k - avg))"

lemma clipped_step:
  assumes "om_ok sid m" and found: "om_find sid (sid k) m = Some (k', v)" and "sid k \<notin> sid ` set ks"
    and rest: "clipped avg ks (om_modify sid (sid k) (\<lambda>_. drop (nat (loaded k - avg)) v) m)
      (u @ take (nat (loaded k - avg)) v) cs m' u'"
  shows "clipped avg (k # ks) m u (if nat (loaded k - avg) \<noteq> 0 \<and> v \<noteq> [] then insert (sid k) cs else cs) m' u'"
proof -
  let ?n = "nat (loaded k - avg)" and ?m1 = "om_modify sid (sid k) (\<lambda>_. drop (nat (loaded k - avg)) v) m"
  have "om_values ?m1 + mset (u @ take ?n v) + mset v = om_values m + mset u + mset v"
    using om_values_modify [OF assms(1) found, of "\<lambda>_. drop ?n v"]
    by (subst (asm) (2) append_take_drop_id [of ?n v, symmetric]) (simp del: append_take_drop_id)
  then have "om_values ?m1 + mset (u @ take ?n v) = om_values m + mset u"
    by simp
  moreover have dist1: "dist_of ?m1 q = (if q = sid k then drop ?n v else dist_of m q)" for q
    using found om_find_SomeD [OF found] by (subst dist_of_modify) (force simp: sids_def)+
  have v: "dist_of m (sid k) = v"
    by (simp add: dist_of_def found)
  have "sid k \<notin> cs"
    using rest assms(3) by (auto simp: clipped_def)
  then have last: "dist_of m' (sid k) = drop ?n v"
    using rest by (simp add: clipped_def dist1)
  have other: "sid j \<noteq> sid k" if "j \<in> set ks" for j
    using that assms(3) by (metis image_eqI)
  have "dist_of m' s = dist_of m s"
    if "s \<notin> (if ?n \<noteq> 0 \<and> v \<noteq> [] then insert (sid k) cs else cs)" for s
    using rest that v by (cases "s = sid k") (auto simp: clipped_def dist1 split: if_splits)
  moreover have "\<forall>j \<in> set (k # ks).
      length (dist_of m' (sid j)) = length (dist_of m (sid j)) - nat (loaded j - avg)"
    using rest by (simp add: clipped_def dist1 other last v)
  moreover have "(if ?n \<noteq> 0 \<and> v \<noteq> [] then insert (sid k) cs else cs) \<subseteq> sid ` set (k # ks)"
      "map fst m' = map fst m" "om_values m' + mset u' = om_values ?m1 + mset (u @ take ?n v)"
    using rest by (auto simp: clipped_def)
  ultimately show ?thesis
    unfolding clipped_def by presburger
qed

lemma clip_loop_spec:
  assumes "om_ok sid m" and "sid ` set ks \<subseteq> set (sids m)" and "distinct (map sid ks)"
    and "sorted (map (\<lambda>k. - loaded k) ks)"
  shows "\<exists>m' u' c' cs. clip_loop avg ks (m, u, c) = Inr (m', u', c') \<and>
    set c' = set c \<union> cs \<and> clipped avg ks m u cs m' u'"
  using assms
proof (induction ks arbitrary: m u c)
  case Nil
  have "clipped avg [] m u {} m u"
    by (simp add: clipped_def)
  then show ?case
    by (intro exI [of _ m] exI [of _ u] exI [of _ c] exI [of _ "{}"]) simp
next
  case (Cons k ks)
  let ?n = "nat (loaded k - avg)"
  show ?case
  proof (cases "loaded k - avg \<le> 0")
    case True
    then have "clipped avg (k # ks) m u {} m u"
      using Cons.prems(4) by (auto simp: clipped_def)
    then show ?thesis
      using True by (intro exI [of _ m] exI [of _ u] exI [of _ c] exI [of _ "{}"]) auto
  next
    case False
    obtain k' v where found: "om_find sid (sid k) m = Some (k', v)"
      using Cons.prems(2) sids_find by force
    let ?m1 = "om_modify sid (sid k) (\<lambda>_. drop ?n v) m"
    define c1 where "c1 = (if ?n \<noteq> 0 \<and> v \<noteq> [] then insort_insert (sid k) c else c)"
    have step: "clip_loop avg (k # ks) (m, u, c) = clip_loop avg ks (?m1, u @ take ?n v, c1)"
      using False by (simp add: found clip_move_eq c1_def)
    have "sid ` set ks \<subseteq> set (sids ?m1)" "distinct (map sid ks)" "sorted (map (\<lambda>k. - loaded k) ks)"
        "om_ok sid ?m1"
      using Cons.prems by auto
    then obtain m' u' c' cs where IH: "clip_loop avg ks (?m1, u @ take ?n v, c1) = Inr (m', u', c')"
      "set c' = set c1 \<union> cs" "clipped avg ks ?m1 (u @ take ?n v) cs m' u'"
      using Cons.IH [of ?m1 "u @ take ?n v" c1] by blast
    have "clipped avg (k # ks) m u (if ?n \<noteq> 0 \<and> v \<noteq> [] then insert (sid k) cs else cs) m' u'"
      using clipped_step [OF Cons.prems(1) found _ IH(3)] Cons.prems(3) by auto
    moreover have "clip_loop avg (k # ks) (m, u, c) = Inr (m', u', c')"
      using step IH(1) by (rule trans)
    moreover have "set c' = set c \<union> (if ?n \<noteq> 0 \<and> v \<noteq> [] then insert (sid k) cs else cs)"
      using IH(2) by (simp add: c1_def set_insort_insert)
    ultimately show ?thesis
      by blast
  qed
qed

text \<open>Some service is idle or overloaded: the condition under which clipping runs.\<close>

definition uneven :: "service_map \<Rightarrow> bool" where
  "uneven m \<longleftrightarrow> (\<exists>s \<in> set (sids m). length (dist_of m s) = 0 \<or> 10 \<le> length (dist_of m s))"

lemma sorted_bounds: "sorted (map f xs) \<Longrightarrow> x \<in> set xs \<Longrightarrow> f (hd xs) \<le> f x \<and> f x \<le> f (last xs)"
proof -
  assume sorted: "sorted (map f xs)" and "x \<in> set xs"
  then obtain i where i: "i < length xs" "x = xs ! i"
    by (metis in_set_conv_nth)
  then have "xs \<noteq> []" "0 < length xs"
    by auto
  moreover from this have "f (xs ! 0) \<le> f (xs ! i)" "f (xs ! i) \<le> f (xs ! (length xs - 1))"
    using sorted_nth_mono [OF sorted, of 0 i] sorted_nth_mono [OF sorted, of i "length xs - 1"] i(1) by auto
  ultimately show "f (hd xs) \<le> f x \<and> f x \<le> f (last xs)"
    using i(2) by (simp add: hd_conv_nth last_conv_nth)
qed

lemma clip_condition:
  assumes ok: "om_ok sid m" and acc: "accurate m" and ne: "m \<noteq> []"
  shows "tooFree (last (sort_key (\<lambda>k. - loaded k) (map fst m))) \<or>
    tooBusy (hd (sort_key (\<lambda>k. - loaded k) (map fst m))) \<longleftrightarrow> uneven m"
proof -
  let ?ks = "sort_key (\<lambda>k. - loaded k) (map fst m)"
  have "set ?ks \<noteq> {}"
    using ne by simp
  then have ends: "hd ?ks \<in> set ?ks" "last ?ks \<in> set ?ks"
    by (metis hd_in_set set_empty, metis last_in_set set_empty)
  have load: "loaded k = int (length (dist_of m (sid k)))" if "k \<in> set ?ks" for k
    using accurate_key [OF ok acc] that by simp
  have bounds: "loaded (last ?ks) \<le> loaded k \<and> loaded k \<le> loaded (hd ?ks)" if "k \<in> set ?ks" for k
    using sorted_bounds [OF _ that, of "\<lambda>k. - loaded k"] by simp
  have keys: "sid ` set ?ks = set (sids m)"
    by (rule sorted_keys)
  show ?thesis
  proof
    assume "tooFree (last ?ks) \<or> tooBusy (hd ?ks)"
    then show "uneven m"
      unfolding uneven_def keys [symmetric] using ends load by (force simp: tooFree_def tooBusy_def)
  next
    assume "uneven m"
    then obtain k where "k \<in> set ?ks" "length (dist_of m (sid k)) = 0 \<or> 10 \<le> length (dist_of m (sid k))"
      unfolding uneven_def keys [symmetric] by auto
    then show "tooFree (last ?ks) \<or> tooBusy (hd ?ks)"
      using bounds [of k] load [of k] by (auto simp: tooFree_def tooBusy_def)
  qed
qed

lemma distributeClipping_spec:
  assumes ok: "om_ok sid m" and ne: "m \<noteq> []" and avg: "0 \<le> avg"
  shows "\<exists>m' u' c. distributeClipping avg m u = Inr (m', u', c) \<and> conserves m u m' u' (set c) \<and>
    (accurate m \<longrightarrow> (if uneven m
       then (\<forall>s \<in> set (sids m). length (dist_of m' s) = min (length (dist_of m s)) (nat avg))
       else m' = m \<and> u' = u))"
proof -
  let ?ks = "sort_key (\<lambda>k. - loaded k) (map fst m)"
  have ks: "?ks \<noteq> []"
    using ne by (metis Nil_is_map_conv length_0_conv length_sort)
  show ?thesis
  proof (cases "tooFree (last ?ks) \<or> tooBusy (hd ?ks)")
    case False
    then have "distributeClipping avg m u = Inr (m, u, [])"
      using ks by (simp add: distributeClipping_def Let_def)
    then show ?thesis
      using False clip_condition [OF ok _ ne] conserves_refl [OF ok, of u]
      by (intro exI [of _ m] exI [of _ u] exI [of _ "[]"]) auto
  next
    case True
    have "sid ` set ?ks \<subseteq> set (sids m)" "distinct (map sid ?ks)" "sorted (map (\<lambda>k. - loaded k) ?ks)"
      using sorted_keys [where f = "\<lambda>k. - loaded k" and m = m] ok by simp_all
    then obtain m1 u' c cs where loop: "clip_loop avg ?ks (m, u, []) = Inr (m1, u', c)"
        "set c = set [] \<union> cs" and clip: "clipped avg ?ks m u cs m1 u'"
      using clip_loop_spec [OF ok, of ?ks avg u "[]"] by blast
    have cs: "set c \<subseteq> set (sids m)"
      using clip loop(2) sorted_keys(1) [where f = "\<lambda>k. - loaded k" and m = m] by (simp add: clipped_def)
    have parts: "map fst m1 = map fst m" "om_values m1 + mset u' = om_values m + mset u"
        "\<forall>s. s \<notin> set c \<longrightarrow> dist_of m1 s = dist_of m s"
      using clip loop(2) by (simp_all add: clipped_def)
    note upd = reload_conserves [OF ok parts(1,2) cs parts(3)]
    have "distributeClipping avg m u = Inr (fold reload c m1, u', c)"
      using ks True by (simp add: distributeClipping_def Let_def loop(1) upd(1))
    moreover have "length (dist_of m1 s) = min (length (dist_of m s)) (nat avg)"
      if acc: "accurate m" and s: "s \<in> set (sids m)" for s
    proof -
      obtain k where k: "k \<in> set ?ks" "sid k = s"
        using s sorted_keys(1) [where f = "\<lambda>k. - loaded k" and m = m] by (metis imageE)
      then have "loaded k = int (length (dist_of m s))"
        using accurate_key [OF ok acc, of k] by simp
      then show ?thesis
        using clip k avg by (force simp: clipped_def min_def)
    qed
    ultimately show ?thesis
      using upd(2) True clip_condition [OF ok _ ne]
      by (intro exI [of _ "fold reload c m1"] exI [of _ u'] exI [of _ c]) auto
  qed
qed

section \<open>The whole strategy\<close>

lemma set_fold_insort_insert: "set (fold insort_insert xs ys) = set xs \<union> set ys"
  by (induction xs arbitrary: ys) (auto simp: set_insort_insert)

lemma conserves_length: "conserves m u m' u' cs \<Longrightarrow> length m' = length m"
  by (metis conserves_def length_map sids_def)

text \<open>
  How the loads can end: at most the average and exactly it when matches are left over, or,
  when clipping did not run, between 1 and 9 and not below the average when matches are left.
\<close>

definition level_loads :: "nat \<Rightarrow> service_map \<Rightarrow> int list \<Rightarrow> bool" where
  "level_loads avg m u \<longleftrightarrow>
     (\<forall>s \<in> set (sids m). length (dist_of m s) \<le> avg \<and> (u = [] \<or> length (dist_of m s) = avg))"

definition tolerable_loads :: "nat \<Rightarrow> service_map \<Rightarrow> int list \<Rightarrow> bool" where
  "tolerable_loads avg m u \<longleftrightarrow>
     (\<forall>s \<in> set (sids m). 1 \<le> length (dist_of m s) \<and> length (dist_of m s) \<le> 9 \<and>
       (u = [] \<or> avg \<le> length (dist_of m s)))"

lemma fill_levels:
  assumes "sids m' = sids m" and "\<forall>s \<in> set (sids m). length (dist_of m s) \<le> avg"
    and "\<forall>s \<in> set (sids m). length (dist_of m' s) \<le> max (length (dist_of m s)) avg \<and>
      (u' \<noteq> [] \<longrightarrow> length (dist_of m' s) = max (length (dist_of m s)) avg)"
  shows "level_loads avg m' u'"
  using assms by (auto simp: level_loads_def max_def split: if_splits)

lemma refill_loads:
  assumes "sids m' = sids m"
    and "\<forall>s \<in> set (sids m). length (dist_of m s) \<le> length (dist_of m' s) \<and>
      length (dist_of m' s) \<le> max (length (dist_of m s)) avg \<and>
      (u' \<noteq> [] \<longrightarrow> length (dist_of m' s) = max (length (dist_of m s)) avg)"
    and "(\<forall>s \<in> set (sids m). length (dist_of m s) \<le> avg) \<or> tolerable_loads avg m [x]"
  shows "level_loads avg m' u' \<or> tolerable_loads avg m' u'"
  using assms(3)
proof
  assume "\<forall>s \<in> set (sids m). length (dist_of m s) \<le> avg"
  then show ?thesis
    using fill_levels [OF assms(1), of avg u'] assms(2) by blast
next
  assume tol: "tolerable_loads avg m [x]"
  then have "\<forall>s \<in> set (sids m). length (dist_of m' s) = length (dist_of m s)"
    using assms(2) by (force simp: tolerable_loads_def)
  then have "tolerable_loads avg m' u'"
    using tol assms(1) by (simp add: tolerable_loads_def)
  then show ?thesis ..
qed

lemma strategy_spec:
  assumes ok: "om_ok sid m" and ne: "m \<noteq> []"
  shows "\<exists>m' u' c. MatchDistribution_call m all u = Inr (m', u', map uint_of c) \<and>
    conserves m u m' u' (set c) \<and>
    (accurate m \<longrightarrow> level_loads (length all div length m) m' u' \<or>
       tolerable_loads (length all div length m) m' u')"
proof -
  let ?a = "length all div length m"
  obtain m1 u1 c1 where fill1: "distributeFill (int ?a) m u = Inr (m1, u1, c1)"
      "conserves m u m1 u1 (set c1)"
    and load1: "accurate m \<Longrightarrow> \<forall>s \<in> set (sids m). length (dist_of m s) \<le> length (dist_of m1 s) \<and>
       length (dist_of m1 s) \<le> max (length (dist_of m s)) ?a \<and>
       (u1 \<noteq> [] \<longrightarrow> length (dist_of m1 s) = max (length (dist_of m s)) ?a)"
    using distributeFill_spec [OF ok, of "int ?a" u] unfolding nat_int by blast
  have m1: "om_ok sid m1" "m1 \<noteq> []" "sids m1 = sids m" "accurate m \<Longrightarrow> accurate m1"
    using fill1(2) ne conserves_length [OF fill1(2)] by (auto simp: conserves_def)
  obtain m2 u2 c2 where clip: "distributeClipping (int ?a) m1 u1 = Inr (m2, u2, c2)"
      "conserves m1 u1 m2 u2 (set c2)"
    and load2: "accurate m1 \<Longrightarrow> if uneven m1
       then (\<forall>s \<in> set (sids m1). length (dist_of m2 s) = min (length (dist_of m1 s)) ?a)
       else m2 = m1 \<and> u2 = u1"
    using distributeClipping_spec [OF m1(1,2), of "int ?a" u1] unfolding nat_int by auto
  have m2: "om_ok sid m2" "sids m2 = sids m" "accurate m \<Longrightarrow> accurate m2"
    using clip(2) m1 by (auto simp: conserves_def)
  let ?c = "fold insort_insert c2 (fold insort_insert c1 [])"
  have cons2: "conserves m u m2 u2 (set ?c)"
    using conserves_trans [OF fill1(2) clip(2)] by (simp add: set_fold_insort_insert Un_commute)
  have even1: "u1 \<noteq> [] \<Longrightarrow> accurate m \<Longrightarrow> \<not> uneven m1 \<Longrightarrow> tolerable_loads ?a m1 u"
       "accurate m \<Longrightarrow> \<not> uneven m1 \<Longrightarrow> tolerable_loads ?a m1 u1" for u
    using load1 m1(3) by (auto simp: tolerable_loads_def uneven_def max_def Suc_le_eq split: if_splits)
  show ?thesis
  proof (cases "u2 = []")
    case True
    then have "MatchDistribution_call m all u = Inr (m2, u2, map uint_of ?c)"
      using ne by (simp add: MatchDistribution_call_def Let_def fill1(1) clip(1))
    moreover have "level_loads ?a m2 u2 \<or> tolerable_loads ?a m2 u2" if "accurate m"
      using load2 [OF m1(4) [OF that]] even1(2) [OF that] True m1(3) m2(2)
      by (auto simp: level_loads_def split: if_splits)
    ultimately show ?thesis
      using cons2 by blast
  next
    case False
    obtain m3 u3 c3 where fill3: "distributeFill (int ?a) m2 u2 = Inr (m3, u3, c3)"
        "conserves m2 u2 m3 u3 (set c3)"
      and load3: "accurate m2 \<Longrightarrow> \<forall>s \<in> set (sids m2). length (dist_of m2 s) \<le> length (dist_of m3 s) \<and>
         length (dist_of m3 s) \<le> max (length (dist_of m2 s)) ?a \<and>
         (u3 \<noteq> [] \<longrightarrow> length (dist_of m3 s) = max (length (dist_of m2 s)) ?a)"
      using distributeFill_spec [OF m2(1), of "int ?a" u2] unfolding nat_int by blast
    have sids3: "sids m3 = sids m2"
      using fill3(2) by (simp add: conserves_def)
    have call: "MatchDistribution_call m all u = Inr (m3, u3, map uint_of (fold insort_insert c3 ?c))"
      using ne False by (simp add: MatchDistribution_call_def Let_def fill1(1) clip(1) fill3(1))
    have cons3: "conserves m u m3 u3 (set (fold insort_insert c3 ?c))"
      using conserves_trans [OF cons2 fill3(2)] by (simp add: set_fold_insort_insert Un_commute Un_assoc)
    have "level_loads ?a m3 u3 \<or> tolerable_loads ?a m3 u3" if acc: "accurate m"
    proof (rule refill_loads [OF sids3 load3 [OF m2(3) [OF acc]]])
      show "(\<forall>s \<in> set (sids m2). length (dist_of m2 s) \<le> ?a) \<or> tolerable_loads ?a m2 [0]"
        using load2 [OF m1(4) [OF acc]] even1(1) [OF _ acc, of "[0]"] m1(3) m2(2) False
        by (auto split: if_splits)
    qed
    then show ?thesis
      using call cons3 by blast
  qed
qed

section \<open>Counting\<close>

lemma size_om_values: "size (om_values m) = sum_list (map (length \<circ> snd) m)"
  by (induction m) simp_all

lemma sum_list_at_bound:
  "\<forall>x \<in> set xs. f x \<le> a \<Longrightarrow> length xs * a \<le> sum_list (map f xs) \<Longrightarrow> \<forall>x \<in> set xs. f x = (a :: nat)"
proof (induction xs)
  case (Cons x xs)
  have "sum_list (map f xs) \<le> length xs * a"
    using Cons.prems(1) sum_list_mono [of xs f "\<lambda>_. a"] by (simp add: sum_list_triv)
  then show ?case
    using Cons by auto
qed simp

lemma entries_by_sid:
  "om_ok sid m \<Longrightarrow> (\<forall>s \<in> set (sids m). P (dist_of m s)) \<longleftrightarrow> (\<forall>e \<in> set m. P (snd e))"
  by (auto simp: sids_def entry_dist_of)

lemma level_balanced:
  assumes level: "level_loads (n div length m) m u" and ok: "om_ok sid m" and ne: "m \<noteq> []"
    and total: "size (om_values m) + length u = n"
  shows "(\<forall>e \<in> set m. length (snd e) = n div length m) \<and> length u = n mod length m"
proof -
  let ?a = "n div length m"
  have le: "\<forall>e \<in> set m. (length \<circ> snd) e \<le> ?a"
    using level entries_by_sid [OF ok, of "\<lambda>v. length v \<le> ?a"] by (simp add: level_loads_def)
  have eq: "\<forall>e \<in> set m. (length \<circ> snd) e = ?a"
  proof (cases "u = []")
    case True
    then have "length m * ?a \<le> sum_list (map (length \<circ> snd) m)"
      using total by (simp add: size_om_values)
    then show ?thesis
      using sum_list_at_bound [OF le] by blast
  next
    case False
    then show ?thesis
      using level entries_by_sid [OF ok, of "\<lambda>v. length v = ?a"] by (simp add: level_loads_def)
  qed
  then have "size (om_values m) = length m * ?a"
    by (simp add: size_om_values sum_list_triv cong: map_cong)
  then have "length u = n mod length m"
    using total by (metis add_diff_cancel_left' minus_mult_div_eq_mod)
  then show ?thesis
    using eq by simp
qed

lemma strategy_conserves:
  assumes "om_ok sid m"
  shows "\<exists>m' u' c. MatchDistribution_call m all u = Inr (m', u', c) \<and> om_ok sid m' \<and> sids m' = sids m \<and>
    om_values m' + mset u' = om_values m + mset u \<and>
    (\<forall>s. uint_of s \<notin> set c \<longrightarrow> dist_of m' s = dist_of m s)"
proof (cases "m = []")
  case True
  then show ?thesis
    by (simp add: MatchDistribution_call_def)
next
  case False
  then obtain m' u' c where "MatchDistribution_call m all u = Inr (m', u', map uint_of c)"
      "conserves m u m' u' (set c)"
    using strategy_spec [OF assms] by blast
  then show ?thesis
    by (intro exI [of _ m'] exI [of _ u'] exI [of _ "map uint_of c"]) (auto simp: conserves_def)
qed

section \<open>Properties\<close>

definition sample_services :: service_map where
  "sample_services = [(\<lparr>sid = 1, loaded = 3\<rparr>, [10, 11, 12]), (\<lparr>sid = 2, loaded = 0\<rparr>, [])]"

definition sample_matches :: "(int, unit) omap" where
  "sample_matches = [(10, ()), (11, ()), (12, ()), (13, ()), (14, ())]"

text \<open>C3: The distribution always returns, keeps the services and their order, neither loses nor
  doubles a match (the matches of the services and the waiting ones are the same multiset before
  and after), and every service whose matches changed is in the list it reports.\<close>

theorem distribution_conserves_matches:
  assumes "om_ok sid services"
  shows "\<exists>services' undist' changed.
    MatchDistribution_call services allMatches undist = Inr (services', undist', changed) \<and>
    om_ok sid services' \<and> sids services' = sids services \<and>
    om_values services' + mset undist' = om_values services + mset undist \<and>
    (\<forall>s. uint_of s \<notin> set changed \<longrightarrow> dist_of services' s = dist_of services s)"
  by (rule strategy_conserves [OF assms])

theorem distribution_conserves_matches_witness:
  "\<exists>services' undist' changed.
    MatchDistribution_call sample_services sample_matches [13, 14] = Inr (services', undist', changed) \<and>
    om_values services' + mset undist' = {#10, 11, 12, 13, 14#}"
proof -
  have "om_ok sid sample_services"
    by (simp add: sample_services_def om_ok_def)
  then show ?thesis
    using distribution_conserves_matches [of sample_services sample_matches "[13, 14]"]
    by (auto simp: sample_services_def)
qed


lemma sample_services_ok:
  "om_ok sid sample_services" "accurate sample_services" "sample_services \<noteq> []"
  by (simp_all add: sample_services_def om_ok_def accurate_def)

lemma sample_distribution:
  "MatchDistribution_call sample_services sample_matches [13, 14] =
     Inr ([(\<lparr>sid = 1, loaded = 3\<rparr>, [10, 11, 12]), (\<lparr>sid = 2, loaded = 2\<rparr>, [13, 14])], [], [2])"
  by code_simp


text \<open>With fewer matches than services the average is 0, so the distribution takes every
  match away from every service: all of them end up waiting and none is run.\<close>

theorem few_matches_strand_every_match:
  assumes "om_ok sid services" and "accurate services"
    and "size (om_values services) + length undist = length allMatches"
    and "length allMatches < length services"
    and "MatchDistribution_call services allMatches undist = Inr (services', undist', changed)"
  shows "(\<forall>e \<in> set services'. snd e = []) \<and> mset undist' = om_values services + mset undist"
proof -
  have ne: "services \<noteq> []" and avg: "length allMatches div length services = 0"
    using assms(4) by auto
  obtain c where cons: "conserves services undist services' undist' (set c)"
      and loads: "level_loads 0 services' undist' \<or> tolerable_loads 0 services' undist'"
    using strategy_spec [OF assms(1) ne, of allMatches undist] assms(2,5) avg by auto
  have ok: "om_ok sid services'" and len: "length services' = length services"
    using cons conserves_length [OF cons] by (simp_all add: conserves_def)
  have sum: "om_values services' + mset undist' = om_values services + mset undist"
    using cons by (simp add: conserves_def)
  then have "size (om_values services') \<le> length allMatches"
    using assms(3) by (metis le_add1 size_mset size_union)
  then have few: "sum_list (map (length \<circ> snd) services') < length services'"
    using assms(4) len by (simp add: size_om_values)
  have "\<not> (\<forall>e \<in> set services'. 1 \<le> length (snd e))"
  proof
    assume "\<forall>e \<in> set services'. 1 \<le> length (snd e)"
    then have "sum_list (map (\<lambda>_. 1) services') \<le> sum_list (map (length \<circ> snd) services')"
      by (intro sum_list_mono) simp
    then show False
      using few by (simp add: sum_list_triv)
  qed
  then have "level_loads 0 services' undist'"
    using loads entries_by_sid [OF ok, of "\<lambda>v. 1 \<le> length v"] by (auto simp: tolerable_loads_def)
  then have empty: "\<forall>e \<in> set services'. snd e = []"
    using entries_by_sid [OF ok, of "\<lambda>v. v = []"] by (simp add: level_loads_def)
  then have "om_values services' = {#}"
    using size_om_values [of services'] by (simp cong: map_cong)
  then show ?thesis
    using empty sum by simp
qed

lemma sample_stranding:
  "MatchDistribution_call [(\<lparr>sid = 1, loaded = 1\<rparr>, [7]), (\<lparr>sid = 2, loaded = 0\<rparr>, [])] [(7, ())] [] =
     Inr ([(\<lparr>sid = 1, loaded = 0\<rparr>, []), (\<lparr>sid = 2, loaded = 0\<rparr>, [])], [7], [1])"
  by code_simp

theorem few_matches_strand_every_match_witness:
  "MatchDistribution_call [(\<lparr>sid = 1, loaded = 1\<rparr>, [7]), (\<lparr>sid = 2, loaded = 0\<rparr>, [])] [(7, ())] [] =
     Inr ([(\<lparr>sid = 1, loaded = 0\<rparr>, []), (\<lparr>sid = 2, loaded = 0\<rparr>, [])], [7], [1]) \<and>
   mset [7] = om_values [(\<lparr>sid = 1, loaded = 1\<rparr>, [7]), (\<lparr>sid = 2, loaded = 0\<rparr>, [])] + mset ([] :: int list)"
  using few_matches_strand_every_match [OF _ _ _ _ sample_stranding] sample_stranding
  by (simp add: om_ok_def accurate_def)

end
