(* ===== verification/Decimal.thy ===== *)
theory Decimal
  imports Prelude
begin

text \<open>
  Decimal text of machine integers, as \<open>std::to_string\<close> prints it and \<open>std::atoi\<close> reads it.
  \<open>atoi\<close> is \<open>(int) strtol(s, nullptr, 10)\<close>, as the C libraries of the targets have it: leading
  white space, an optional sign, digits up to the first other character, saturation at the
  bounds of \<open>long\<close>, and the low 32 bits of the result.
\<close>

definition digit_char :: "nat \<Rightarrow> char" where
  "digit_char d = char_of (48 + d)"

definition digit_val :: "char \<Rightarrow> nat" where
  "digit_val c = of_char c - 48"

definition is_digit :: "char \<Rightarrow> bool" where
  "is_digit c = (48 \<le> (of_char c :: nat) \<and> (of_char c :: nat) \<le> 57)"

definition is_space :: "char \<Rightarrow> bool" where
  "is_space c = ((of_char c :: nat) = 32 \<or> (9 \<le> (of_char c :: nat) \<and> (of_char c :: nat) \<le> 13))"

fun dec :: "nat \<Rightarrow> string" where
  "dec n = (if n < 10 then [digit_char n] else dec (n div 10) @ [digit_char (n mod 10)])"

declare dec.simps [simp del]

definition to_string :: "int \<Rightarrow> string" where
  "to_string i = (if i < 0 then CHR ''-'' # dec (nat (- i)) else dec (nat i))"

definition digits_val :: "string \<Rightarrow> nat" where
  "digits_val cs = fold (\<lambda>c acc. 10 * acc + digit_val c) cs 0"

definition clamp_long :: "int \<Rightarrow> int" where
  "clamp_long i = max (- (2 ^ 63)) (min (2 ^ 63 - 1) i)"

definition strtol :: "string \<Rightarrow> int" where
  "strtol s =
     (let s' = dropWhile is_space s;
          neg = (s' \<noteq> [] \<and> hd s' = CHR ''-'');
          ds = (if s' \<noteq> [] \<and> (hd s' = CHR ''-'' \<or> hd s' = CHR ''+'') then tl s' else s');
          v = int (digits_val (takeWhile is_digit ds))
      in clamp_long (if neg then - v else v))"

definition atoi :: "string \<Rightarrow> int32_w" where
  "atoi s = word_of_int (strtol s)"

section \<open>Reading back what was printed\<close>

lemma digit_char_val: "d < 10 \<Longrightarrow> digit_val (digit_char d) = d \<and> is_digit (digit_char d)"
  by (simp add: digit_val_def digit_char_def is_digit_def of_char_of)

lemma digit_not_special:
  "is_digit c \<Longrightarrow> \<not> is_space c \<and> c \<noteq> CHR ''-'' \<and> c \<noteq> CHR ''+''"
  by (auto simp: is_digit_def is_space_def)

lemma dec_digits: "dec n \<noteq> [] \<and> list_all is_digit (dec n)"
proof (induction n rule: dec.induct)
  case (1 n)
  then show ?case
    by (subst dec.simps, subst dec.simps) (auto simp: digit_char_val)
qed

lemma digits_val_dec: "digits_val (dec n) = n"
proof (induction n rule: dec.induct)
  case (1 n)
  then show ?case
    by (subst dec.simps) (auto simp: digits_val_def digit_char_val)
qed

lemma takeWhile_dec: "takeWhile is_digit (dec n) = dec n"
  using dec_digits [of n] by (simp add: list_all_iff)

lemma strtol_to_string: "strtol (to_string i) = clamp_long i"
proof (cases "i < 0")
  case True
  then show ?thesis
    by (simp add: strtol_def to_string_def takeWhile_dec digits_val_dec is_space_def)
next
  case False
  obtain c cs where dec: "dec (nat i) = c # cs" and c: "is_digit c"
    using dec_digits [of "nat i"] by (cases "dec (nat i)") auto
  then have "dropWhile is_space (dec (nat i)) = dec (nat i)"
    using digit_not_special by simp
  moreover have "\<not> (hd (dec (nat i)) = CHR ''-'' \<or> hd (dec (nat i)) = CHR ''+'')"
    using dec c digit_not_special by simp
  ultimately show ?thesis
    using False by (simp add: strtol_def to_string_def takeWhile_dec digits_val_dec)
qed

lemma clamp_long_id: "- (2 ^ 63) \<le> i \<Longrightarrow> i < 2 ^ 63 \<Longrightarrow> clamp_long i = i"
  by (simp add: clamp_long_def)

lemma atoi_to_string [simp]: "atoi (to_string (sint w)) = (w :: int32_w)"
proof -
  have "- (2 ^ 31) \<le> sint w" "sint w < 2 ^ 31"
    using sint_ge [of w] sint_lt [of w] by simp_all
  then show ?thesis
    by (simp add: atoi_def strtol_to_string clamp_long_id)
qed

lemma atoi_to_string_unat:
  "atoi (to_string (int (unat (w :: 64 word)))) = (if unat w < 2 ^ 63 then ucast w else - 1)"
proof (cases "unat w < 2 ^ 63")
  case True
  then have "int (unat w) < int (2 ^ 63)"
    by (simp only: of_nat_less_iff)
  moreover have "- (2 ^ 63) \<le> int (unat w)"
    by (rule order_trans [of _ 0]) simp_all
  ultimately have "clamp_long (int (unat w)) = int (unat w)"
    by (intro clamp_long_id) simp_all
  then show ?thesis
    using True by (simp add: atoi_def strtol_to_string)
next
  case False
  then have "int (2 ^ 63) \<le> int (unat w)"
    by (simp only: of_nat_le_iff not_less)
  then have "clamp_long (int (unat w)) = 2 ^ 63 - 1"
    unfolding clamp_long_def by simp
  then show ?thesis
    using False by (simp add: atoi_def strtol_to_string)
qed

lemma length_dec: "n < 10 ^ k \<Longrightarrow> 0 < k \<Longrightarrow> length (dec n) \<le> k"
proof (induction k arbitrary: n)
  case (Suc k)
  show ?case
  proof (cases "n < 10")
    case True
    then show ?thesis
      by (subst dec.simps) simp
  next
    case False
    then have "0 < k" "n div 10 < 10 ^ k"
      using Suc.prems by (cases k; simp add: less_mult_imp_div_less mult.commute)+
    then have "length (dec (n div 10)) \<le> k"
      using Suc.IH by simp
    then show ?thesis
      using False by (subst dec.simps) simp
  qed
qed simp

lemma to_string_0: "to_string 0 = ''0''"
  by code_simp

end
