(* ===== verification/MatchProfile.thy ===== *)
theory MatchProfile
  imports Decimal StdContainers "HOL-Library.List_Lexorder" "HOL-Library.Char_ord"
begin

text \<open>
  \<open>CPGMatchProfile\<close> (CPGMatchDefine.h) and its conversion to and from string maps
  (CPGMatchStructHelper.cpp), through which profiles travel to the database thread and back.
  The \<open>int\<close> fields are 32-bit words, \<open>bankid\<close> is the one \<open>unsigned long long\<close>.
\<close>

record CPGMatchProfile =
  current_blind_level :: int32_w
  total_player_amount :: int32_w
  remained_player_amount :: int32_w
  match_state :: int32_w
  end_time :: int32_w
  mid :: int32_w
  match_type :: int32_w
  enter_code :: int32_w
  start_time :: int32_w
  increase_blind_time :: int32_w
  operator_time :: int32_w
  entryfee :: int32_w
  entry_pool :: int32_w
  reward_coin :: int32_w
  init_chips_amount :: int32_w
  min_players_amount :: int32_w
  max_players_amount :: int32_w
  delay_join_level :: int32_w
  reward_type :: int32_w
  start_condition :: int32_w
  stop_condition :: int32_w
  finish_condition :: int32_w
  finish_param :: int32_w
  first_blind_level :: int32_w
  bonusid :: int32_w
  guarantee_person :: int32_w
  match_auto_cancel_second :: int32_w
  bankid :: "64 word"
  name :: string

text \<open>\<open>std::make_shared<CPGMatchProfile>()\<close>: zeros, and the two initialisers that are not 0.\<close>

definition CPGMatchProfile_new :: CPGMatchProfile where
  "CPGMatchProfile_new = \<lparr>current_blind_level = 1, total_player_amount = 0, remained_player_amount = 0,
     match_state = 1, end_time = 0, mid = 0, match_type = 0, enter_code = 0, start_time = 0,
     increase_blind_time = 0, operator_time = 0, entryfee = 0, entry_pool = 0, reward_coin =
     0, init_chips_amount = 0, min_players_amount = 0, max_players_amount = 0,
     delay_join_level = 0, reward_type = 0, start_condition = 0, stop_condition = 0,
     finish_condition = 0, finish_param = 0, first_blind_level = 0, bonusid = 0,
     guarantee_person = 0, match_auto_cancel_second = 0, bankid = 0, name = []\<rparr>"

type_synonym dict = "(string, string) omap"

definition int_text :: "int32_w \<Rightarrow> string" where
  "int_text w = to_string (sint w)"

definition profile_fields :: "CPGMatchProfile \<Rightarrow> (string \<times> string) list" where
  "profile_fields p =
    [(''mid'', int_text (mid p)),
     (''start_time'', int_text (start_time p)),
     (''total_player_amount'', int_text (total_player_amount p)),
     (''remained_player_amount'', int_text (remained_player_amount p)),
     (''match_state'', int_text (match_state p)),
     (''current_blind_level'', int_text (current_blind_level p)),
     (''entryfee'', int_text (entryfee p)),
     (''init_chips_amount'', int_text (init_chips_amount p)),
     (''min_players_amount'', int_text (min_players_amount p)),
     (''max_players_amount'', int_text (max_players_amount p)),
     (''operator_time'', int_text (operator_time p)),
     (''increase_blind_time'', int_text (increase_blind_time p)),
     (''first_blind_level'', int_text (first_blind_level p)),
     (''delay_join_level'', int_text (delay_join_level p)),
     (''stop_condition'', int_text (stop_condition p)),
     (''start_condition'', int_text (start_condition p)),
     (''reward_type'', int_text (reward_type p)),
     (''match_type'', int_text (match_type p)),
     (''bonusid'', int_text (bonusid p)),
     (''guarantee_person'', int_text (guarantee_person p)),
     (''name'', name p),
     (''enter_code'', int_text (enter_code p)),
     (''entry_pool'', int_text (entry_pool p)),
     (''reward_coin'', int_text (reward_coin p)),
     (''finish_condition'', int_text (finish_condition p)),
     (''finish_param'', int_text (finish_param p)),
     (''match_auto_cancel_second'', int_text (match_auto_cancel_second p)),
     (''bankid'', to_string (int (unat (bankid p)))),
     (''end_time'', int_text (end_time p))]"

definition structConvertMap :: "CPGMatchProfile \<Rightarrow> dict" where
  "structConvertMap p = fold (\<lambda>(k, v). om_insert id k v) (profile_fields p) []"

text \<open>\<open>dict[k]\<close> of a missing key is the empty string, which \<open>atoi\<close> reads as 0.\<close>

definition dict_get :: "dict \<Rightarrow> string \<Rightarrow> string" where
  "dict_get d k = (case om_lookup id d k of None \<Rightarrow> [] | Some v \<Rightarrow> v)"

definition dict_int :: "dict \<Rightarrow> string \<Rightarrow> int32_w" where
  "dict_int d k = atoi (dict_get d k)"

definition mapConvertStruct :: "dict \<Rightarrow> CPGMatchProfile \<Rightarrow> CPGMatchProfile" where
  "mapConvertStruct d p = p\<lparr>
     mid := dict_int d ''mid'',
     start_time := dict_int d ''start_time'',
     total_player_amount := dict_int d ''total_player_amount'',
     remained_player_amount := dict_int d ''remained_player_amount'',
     match_state := dict_int d ''match_state'',
     current_blind_level := dict_int d ''current_blind_level'',
     entryfee := dict_int d ''entryfee'',
     init_chips_amount := dict_int d ''init_chips_amount'',
     min_players_amount := dict_int d ''min_players_amount'',
     max_players_amount := dict_int d ''max_players_amount'',
     operator_time := dict_int d ''operator_time'',
     increase_blind_time := dict_int d ''increase_blind_time'',
     first_blind_level := dict_int d ''first_blind_level'',
     delay_join_level := dict_int d ''delay_join_level'',
     start_condition := dict_int d ''start_condition'',
     reward_type := dict_int d ''reward_type'',
     match_type := dict_int d ''match_type'',
     bonusid := dict_int d ''bonusid'',
     guarantee_person := dict_int d ''guarantee_person'',
     enter_code := dict_int d ''enter_code'',
     entry_pool := dict_int d ''entry_pool'',
     reward_coin := dict_int d ''reward_coin'',
     finish_condition := dict_int d ''finish_condition'',
     finish_param := dict_int d ''finish_param'',
     match_auto_cancel_second := dict_int d ''match_auto_cancel_second'',
     bankid := scast (dict_int d ''bankid''),
     stop_condition := dict_int d ''stop_condition'',
     name := dict_get d ''name'',
     end_time := dict_int d ''end_time''\<rparr>"

section \<open>Round trip\<close>

lemma lookup_structConvertMap: "om_lookup id (structConvertMap p) = map_of (profile_fields p)"
  using om_lookup_fold_insert [of id "[]" "profile_fields p"]
  by (simp add: structConvertMap_def om_lookup_def map_add_def apfst_def map_prod.id)

lemma profile_keys_distinct: "distinct (map fst (profile_fields p))"
  by (simp add: profile_fields_def)

lemma profile_field:
  "(k, v) \<in> set (profile_fields p) \<Longrightarrow> dict_get (structConvertMap p) k = v"
  using map_of_is_SomeI [OF profile_keys_distinct] by (simp add: dict_get_def lookup_structConvertMap)

lemma profile_int_field:
  "(k, int_text w) \<in> set (profile_fields p) \<Longrightarrow> dict_int (structConvertMap p) k = w"
  using profile_field [of k "int_text w" p] by (simp add: dict_int_def int_text_def)

lemma profile_int_fields:
  "dict_int (structConvertMap p) ''mid'' = mid p"
  "dict_int (structConvertMap p) ''start_time'' = start_time p"
  "dict_int (structConvertMap p) ''total_player_amount'' = total_player_amount p"
  "dict_int (structConvertMap p) ''remained_player_amount'' = remained_player_amount p"
  "dict_int (structConvertMap p) ''match_state'' = match_state p"
  "dict_int (structConvertMap p) ''current_blind_level'' = current_blind_level p"
  "dict_int (structConvertMap p) ''entryfee'' = entryfee p"
  "dict_int (structConvertMap p) ''init_chips_amount'' = init_chips_amount p"
  "dict_int (structConvertMap p) ''min_players_amount'' = min_players_amount p"
  "dict_int (structConvertMap p) ''max_players_amount'' = max_players_amount p"
  "dict_int (structConvertMap p) ''operator_time'' = operator_time p"
  "dict_int (structConvertMap p) ''increase_blind_time'' = increase_blind_time p"
  "dict_int (structConvertMap p) ''first_blind_level'' = first_blind_level p"
  "dict_int (structConvertMap p) ''delay_join_level'' = delay_join_level p"
  "dict_int (structConvertMap p) ''start_condition'' = start_condition p"
  "dict_int (structConvertMap p) ''reward_type'' = reward_type p"
  "dict_int (structConvertMap p) ''match_type'' = match_type p"
  "dict_int (structConvertMap p) ''bonusid'' = bonusid p"
  "dict_int (structConvertMap p) ''guarantee_person'' = guarantee_person p"
  "dict_int (structConvertMap p) ''enter_code'' = enter_code p"
  "dict_int (structConvertMap p) ''entry_pool'' = entry_pool p"
  "dict_int (structConvertMap p) ''reward_coin'' = reward_coin p"
  "dict_int (structConvertMap p) ''finish_condition'' = finish_condition p"
  "dict_int (structConvertMap p) ''finish_param'' = finish_param p"
  "dict_int (structConvertMap p) ''match_auto_cancel_second'' = match_auto_cancel_second p"
  "dict_int (structConvertMap p) ''stop_condition'' = stop_condition p"
  "dict_int (structConvertMap p) ''end_time'' = end_time p"
  by (rule profile_int_field, simp add: profile_fields_def)+

lemma profile_other_fields:
  "dict_get (structConvertMap p) ''name'' = name p"
  "dict_get (structConvertMap p) ''bankid'' = to_string (int (unat (bankid p)))"
  by (rule profile_field, simp add: profile_fields_def)+

lemma mapConvertStruct_structConvertMap:
  "mapConvertStruct (structConvertMap p) q =
     p\<lparr>bankid := scast (atoi (to_string (int (unat (bankid p)))))\<rparr>"
  unfolding mapConvertStruct_def profile_int_fields profile_other_fields
  by (rule CPGMatchProfile.equality) (simp_all add: dict_int_def profile_other_fields)

lemma unat_less_power_bits:
  "unat (w :: 64 word) < 2 ^ k \<longleftrightarrow> (\<forall>n \<ge> k. \<not> bit w n)"
proof -
  have "unat w < 2 ^ k \<longleftrightarrow> take_bit k (unat w) = unat w"
    by (simp add: take_bit_nat_eq_self_iff)
  also have "\<dots> \<longleftrightarrow> (\<forall>n. n < k \<and> bit w n \<longleftrightarrow> bit w n)"
    unfolding bit_eq_iff [of "take_bit k (unat w)"] bit_take_bit_iff bit_unsigned_iff by simp
  also have "\<dots> \<longleftrightarrow> (\<forall>n \<ge> k. \<not> bit w n)"
    by (meson not_le)
  finally show ?thesis .
qed

lemma bankid_text:
  "scast (atoi (to_string (int (unat (w :: 64 word)))) :: int32_w) = w \<longleftrightarrow> unat w < 2 ^ 31 \<or> w = - 1"
proof -
  have "scast (ucast w :: int32_w) = w \<longleftrightarrow> unat w < 2 ^ 31" if "unat w < 2 ^ 63"
  proof
    assume "unat w < 2 ^ 31"
    then have "\<not> bit w n" if "31 \<le> n" for n
      using that unat_less_power_bits [of w 31] by simp
    then show "scast (ucast w :: int32_w) = w"
      by (intro bit_word_eqI) (auto simp: bit_simps min_def not_less_eq_eq)
  next
    assume eq: "scast (ucast w :: int32_w) = w"
    have "bit w n \<longleftrightarrow> n < 64 \<and> bit w 31" if "31 \<le> n" for n
      using that arg_cong [OF eq, of "\<lambda>v. bit v n"] by (auto simp: bit_simps min_def split: if_splits)
    moreover from this [of 63] have "\<not> bit w 31"
      using \<open>unat w < 2 ^ 63\<close> unat_less_power_bits [of w 63] by simp
    ultimately show "unat w < 2 ^ 31"
      using unat_less_power_bits [of w 31] by simp
  qed
  moreover have "unat w < 2 ^ 31 \<Longrightarrow> unat w < 2 ^ 63"
    by simp
  moreover have "\<not> unat (- 1 :: 64 word) < 2 ^ 63"
    by (subst unat_less_power_bits) (auto intro!: exI [of _ 63])
  ultimately show ?thesis
    unfolding atoi_to_string_unat by (cases "unat w < 2 ^ 63") auto
qed

text \<open>A profile that is turned into a string map and read back is the same profile exactly
  when its \<open>bankid\<close> is below \<open>2 ^ 31\<close> (or all ones): every other field survives, but
  \<open>bankid\<close>, an \<open>unsigned long long\<close>, is read with the 32-bit \<open>atoi\<close>.\<close>

theorem profile_round_trip:
  "mapConvertStruct (structConvertMap p) q = p \<longleftrightarrow> unat (bankid p) < 2 ^ 31 \<or> bankid p = - 1"
proof -
  have "p\<lparr>bankid := b\<rparr> = p \<longleftrightarrow> b = bankid p" for b
    by (cases p) simp
  then show ?thesis
    by (simp only: mapConvertStruct_structConvertMap bankid_text)
qed

end
