(* ===== verification/CSMatchManager.thy ===== *)
theory CSMatchManager
  imports MatchDistribution MatchProfile
begin

text \<open>
  CSMatchManager.cpp: which match service runs which match. Services that come and go are
  collected in \<open>changedServices\<close> and take effect in \<open>updateDistMatchServices\<close>, which a timer
  calls and which does its work once nothing has changed for \<open>updateDuration\<close> seconds.

  \<open>time(NULL)\<close> is the argument \<open>now\<close>. The timer is the flag \<open>timer\<close> (\<open>timer_ != nullptr\<close>), the
  callback of the kernel the flag \<open>changedMatchMapCB\<close>; its calls and the requests queued for
  the database thread are the effects an operation returns. Calling an empty \<open>std::function\<close>
  throws, which is \<open>Inl NullDeref\<close>. A protocol buffer message is the tuple of its fields.
\<close>

datatype ChangedType = Added | Update | Removed

record ChangedService =
  ctype :: ChangedType
  service :: MatchDisService
  stamp :: int

datatype mm_effect =
    ChangedMatchMap "(int, int list) omap"
  | CancelMatchRQ int int
  | UpdateMatchRQ int dict
  | CreateMatchRQ dict int

record CSMatchManager =
  matchServices :: service_map
  matches :: "(int, CPGMatchProfile) omap"
  changedServices :: "ChangedService list"
  undistMatches :: "int list"
  timer :: bool
  matchLatestUpdateTime :: int
  changedMatchMapCB :: bool

type_synonym mm_result = "(CSMatchManager \<times> mm_effect list) result"

definition updateDuration :: int where
  "updateDuration = 25"

definition kNoneError :: int where "kNoneError = 0"
definition kManager_MatchNotFound :: int where "kManager_MatchNotFound = 10001"
definition kManager_MatchCancel_StartedError :: int where "kManager_MatchCancel_StartedError = 10002"
definition kCreateMatch_ErrorTimeOut :: int where "kCreateMatch_ErrorTimeOut = 10101"
definition kCreateMatch_ErrorHasExist :: int where "kCreateMatch_ErrorHasExist = 10102"
definition ENUM_STATE_READY :: int where "ENUM_STATE_READY = 1"
definition ENUM_STATE_CANCEL :: int where "ENUM_STATE_CANCEL = 7"

lemmas mm_constants = updateDuration_def kNoneError_def kManager_MatchNotFound_def
  kManager_MatchCancel_StartedError_def kCreateMatch_ErrorTimeOut_def kCreateMatch_ErrorHasExist_def
  ENUM_STATE_READY_def ENUM_STATE_CANCEL_def

section \<open>Start\<close>

definition CSMatchManager_new :: "int \<Rightarrow> CSMatchManager" where
  "CSMatchManager_new now = \<lparr>matchServices = [], matches = [], changedServices = [],
     undistMatches = [], timer = False, matchLatestUpdateTime = now, changedMatchMapCB = False\<rparr>"

definition setChangedMatchMapCB :: "CSMatchManager \<Rightarrow> CSMatchManager" where
  "setChangedMatchMapCB m = m\<lparr>changedMatchMapCB := True\<rparr>"

text \<open>The matches come from the factory. The one-shot timer that \<open>initialize\<close> creates after 20
  seconds is not \<open>timer_\<close>; its run is a call of \<open>updateDistMatchServices\<close>.\<close>

definition mm_initialize :: "(int, CPGMatchProfile) omap \<Rightarrow> CSMatchManager \<Rightarrow> CSMatchManager" where
  "mm_initialize loadedMatches m = m\<lparr>matches := loadedMatches, undistMatches := map fst loadedMatches\<rparr>"

section \<open>Queries\<close>

definition getDistMatch :: "int \<Rightarrow> CSMatchManager \<Rightarrow> int list" where
  "getDistMatch s m = (case om_find sid s (matchServices m) of None \<Rightarrow> [] | Some e \<Rightarrow> snd e)"

definition getService :: "int \<Rightarrow> CSMatchManager \<Rightarrow> int" where
  "getService i m =
     (if i \<in> set (undistMatches m) then - 1
      else case find (\<lambda>e. i \<in> set (snd e)) (matchServices m) of
        None \<Rightarrow> - 1
      | Some e \<Rightarrow> sid (fst e))"

definition getMatch :: "int \<Rightarrow> CSMatchManager \<Rightarrow> CPGMatchProfile option" where
  "getMatch i m = om_lookup id (matches m) i"

definition matchList :: "CSMatchManager \<Rightarrow> CPGMatchProfile list" where
  "matchList m = map snd (matches m)"

definition getAllMatchServices :: "CSMatchManager \<Rightarrow> service_map" where
  "getAllMatchServices m = matchServices m"

section \<open>Collecting changes\<close>

definition startTimerCheckDistMatchServices :: "CSMatchManager \<Rightarrow> CSMatchManager" where
  "startTimerCheckDistMatchServices m = (if \<not> timer m then m\<lparr>timer := True\<rparr> else m)"

definition stopTimerCheckDistMatchServices :: "CSMatchManager \<Rightarrow> CSMatchManager" where
  "stopTimerCheckDistMatchServices m = (if timer m then m\<lparr>timer := False\<rparr> else m)"

definition updateMatchesOrService :: "int \<Rightarrow> CSMatchManager \<Rightarrow> CSMatchManager" where
  "updateMatchesOrService now m =
     startTimerCheckDistMatchServices (m\<lparr>matchLatestUpdateTime := now\<rparr>)"

definition addUndistriteMatches :: "int \<Rightarrow> int list \<Rightarrow> CSMatchManager \<Rightarrow> CSMatchManager" where
  "addUndistriteMatches now mids m =
     updateMatchesOrService now
       (m\<lparr>undistMatches := remdups_adj (sort (list_merge (undistMatches m) mids))\<rparr>)"

definition updateMatchService :: "int \<Rightarrow> MatchDisService \<Rightarrow> CSMatchManager \<Rightarrow> CSMatchManager" where
  "updateMatchService now key m =
     (let ty = (if om_find sid (sid key) (matchServices m) = None then Added else Update);
          kept = filter (\<lambda>c. sid (service c) \<noteq> sid key) (changedServices m)
      in updateMatchesOrService now
           (m\<lparr>changedServices := kept @ [\<lparr>ctype = ty, service = key, stamp = now\<rparr>]\<rparr>))"

definition removeMatchService :: "int \<Rightarrow> MatchDisService \<Rightarrow> CSMatchManager \<Rightarrow> CSMatchManager" where
  "removeMatchService now key m =
     (let same = filter (\<lambda>c. sid (service c) = sid key) (changedServices m);
          kept = filter (\<lambda>c. sid (service c) \<noteq> sid key) (changedServices m);
          requireAdded = (\<forall>c \<in> set same. ctype c \<noteq> Added)
      in updateMatchesOrService now
           (m\<lparr>changedServices :=
               (if requireAdded then kept @ [\<lparr>ctype = Removed, service = key, stamp = now\<rparr>]
                else kept)\<rparr>))"

section \<open>Applying them\<close>

definition checkDistMatchServices :: "int \<Rightarrow> CSMatchManager \<Rightarrow> bool" where
  "checkDistMatchServices now m = (now - matchLatestUpdateTime m \<ge> updateDuration)"

text \<open>Step 1: the matches of a removed service are collected and the service is erased.\<close>

fun removeServices :: "ChangedService list \<Rightarrow> service_map \<times> int list \<Rightarrow> service_map \<times> int list" where
  "removeServices [] (services, undistri) = (services, undistri)"
| "removeServices (c # cs) (services, undistri) =
     (if ctype c = Removed
      then removeServices cs
        (om_erase sid (sid (service c)) services,
         list_merge undistri (dist_of services (sid (service c))))
      else removeServices cs (services, undistri))"

text \<open>Step 2: the key of an updated service is replaced.\<close>

definition updateService :: "ChangedService \<Rightarrow> service_map \<Rightarrow> service_map" where
  "updateService c services =
     (if ctype c = Update
      then case om_find sid (sid (service c)) services of
        None \<Rightarrow> services
      | Some (k, mids) \<Rightarrow> om_insert sid (service c) mids (om_erase sid (sid (service c)) services)
      else services)"

text \<open>Step 3: what is left was added.\<close>

definition addService :: "ChangedService \<Rightarrow> service_map \<Rightarrow> service_map" where
  "addService c services =
     (case om_find sid (sid (service c)) services of
        None \<Rightarrow> om_assign sid (service c) [] services
      | Some (k, mids) \<Rightarrow> (if mids = [] then om_assign sid (service c) [] services else services))"

definition int_of_uint :: "int \<Rightarrow> int" where
  "int_of_uint u = (if u < 2 ^ 31 then u else u - 2 ^ 32)"

definition changedMap :: "int list \<Rightarrow> service_map \<Rightarrow> (int, int list) omap" where
  "changedMap changed services =
     fold (\<lambda>u. om_assign id u (dist_of services (int_of_uint u))) changed []"

text \<open>
  \<open>std::list::merge\<close> leaves its argument empty, so \<open>undistriMatches\<close> is empty when the end of
  the function asks whether matches are left.
\<close>

definition updateDistMatchServices :: "int \<Rightarrow> CSMatchManager \<Rightarrow> mm_result" where
  "updateDistMatchServices now m0 =
     (let m = stopTimerCheckDistMatchServices m0
      in if checkDistMatchServices now m
         then
           let (services1, undistri) = removeServices (changedServices m) (matchServices m, []);
               changed1 = filter (\<lambda>c. ctype c \<noteq> Removed) (changedServices m);
               undist1 = list_merge (undistMatches m) undistri;
               undistri1 = ([] :: int list);
               services2 = fold updateService changed1 services1;
               changed2 = filter (\<lambda>c. ctype c \<noteq> Update) changed1;
               services3 = fold addService changed2 services2
           in rbind (MatchDistribution_call services3 (matches m) undist1) (\<lambda>(services4, undist2, changed).
                let m1 = m\<lparr>matchServices := services4, undistMatches := undist2, changedServices := []\<rparr>;
                    m2 = (if undistri1 \<noteq> [] then startTimerCheckDistMatchServices m1 else m1)
                in Inr (m2, if changedMatchMapCB m2 then [ChangedMatchMap (changedMap changed services4)] else []))
         else Inr (startTimerCheckDistMatchServices m, []))"

section \<open>Checking what a match service runs\<close>

datatype CheckError = ErrorNo | ErrorMatchServerMore | ErrorMatchServerLess | ErrorNoMatch | ErrorReconnect

fun check_code :: "CheckError \<Rightarrow> int" where
  "check_code ErrorNo = 0"
| "check_code ErrorMatchServerMore = 1"
| "check_code ErrorMatchServerLess = 2"
| "check_code ErrorNoMatch = 3"
| "check_code ErrorReconnect = 4"

definition filterValidMatch :: "int list \<Rightarrow> int list" where
  "filterValidMatch mids = []"

definition checkServiceDistMap ::
    "int \<Rightarrow> MatchDisService \<Rightarrow> int list \<Rightarrow> CSMatchManager \<Rightarrow> CheckError \<times> int list \<times> CSMatchManager" where
  "checkServiceDistMap now key mids m =
     (case om_find sid (sid key) (matchServices m) of
        Some (k, distMids) \<Rightarrow>
          let dist' = sort distMids;
              mids' = sort mids;
              res1 = (if set_difference dist' mids' \<noteq> [] then ErrorMatchServerLess else ErrorNo);
              res2 = (if set_difference mids' dist' \<noteq> [] then ErrorMatchServerMore else res1)
          in (res2, mids', m\<lparr>matchServices := om_modify sid (sid key) (\<lambda>_. dist') (matchServices m)\<rparr>)
      | None \<Rightarrow>
          if mids \<noteq> []
          then (ErrorReconnect, mids,
                m\<lparr>matchServices := om_assign sid key mids (matchServices m),
                  undistMatches := fold removeAll mids (undistMatches m),
                  changedServices := filter (\<lambda>c. sid (service c) \<noteq> sid key) (changedServices m)\<rparr>)
          else (ErrorNoMatch, mids, updateMatchesOrService now m))"

section \<open>Cancelling, updating and creating matches\<close>

definition cancelMatch :: "int \<Rightarrow> int \<Rightarrow> CSMatchManager \<Rightarrow> (int \<times> CSMatchManager \<times> mm_effect list) result" where
  "cancelMatch i reason m =
     (case getMatch i m of
        None \<Rightarrow> Inr (kManager_MatchNotFound, m, [])
      | Some match \<Rightarrow>
          if sint (match_state match) > ENUM_STATE_READY
          then Inr (kManager_MatchCancel_StartedError, m, [])
          else
            let s = getService i m;
                finish = (\<lambda>m' es. Inr (kNoneError,
                  m'\<lparr>undistMatches := removeAll i (undistMatches m')\<rparr>, es @ [CancelMatchRQ i reason]))
            in if s > 0
               then case om_find sid s (matchServices m) of
                 None \<Rightarrow> finish m []
               | Some (k, mids) \<Rightarrow>
                   if changedMatchMapCB m
                   then finish (m\<lparr>matchServices := om_modify sid s (removeAll i) (matchServices m)\<rparr>)
                     [ChangedMatchMap [(uint_of s, removeAll i mids)]]
                   else Inl NullDeref
               else finish m [])"

definition updateMatch :: "int \<Rightarrow> dict \<Rightarrow> CSMatchManager \<Rightarrow> int \<times> CSMatchManager \<times> mm_effect list" where
  "updateMatch i properties m =
     (case getMatch i m of
        None \<Rightarrow> (kManager_MatchNotFound, m, [])
      | Some match \<Rightarrow>
          let matchproperties = fold (\<lambda>(k, v). om_assign id k v) properties (structConvertMap match);
              match' = mapConvertStruct matchproperties match;
              rq = fold (\<lambda>(k, v). om_insert id k v) properties []
          in (kNoneError, m\<lparr>matches := om_modify id i (\<lambda>_. match') (matches m)\<rparr>, [UpdateMatchRQ 0 rq]))"

definition createMatchValid :: "int \<Rightarrow> CPGMatchProfile \<Rightarrow> CSMatchManager \<Rightarrow> int" where
  "createMatchValid now match m =
     (if sint (start_time match) < now + 60 then kCreateMatch_ErrorTimeOut
      else if (\<exists>e \<in> set (matches m). start_time (snd e) = start_time match \<and>
                 match_type (snd e) = match_type match \<and> entryfee (snd e) = entryfee match)
      then kCreateMatch_ErrorHasExist
      else kNoneError)"

definition createMatch :: "int \<Rightarrow> CPGMatchProfile \<Rightarrow> int \<Rightarrow> CSMatchManager \<Rightarrow> int \<times> mm_effect list" where
  "createMatch now match promiseID m =
     (let code = createMatchValid now match m
      in if code \<noteq> kNoneError then (code, [])
         else (code, [CreateMatchRQ (structConvertMap match) promiseID]))"

definition createdMatches :: "int \<Rightarrow> CPGMatchProfile list \<Rightarrow> CSMatchManager \<Rightarrow> CSMatchManager" where
  "createdMatches now ms m =
     addUndistriteMatches now (map (sint \<circ> mid) ms)
       (m\<lparr>matches := fold (\<lambda>p. om_assign id (sint (mid p)) p) ms (matches m)\<rparr>)"

section \<open>Invariant\<close>

definition mm_ok :: "CSMatchManager \<Rightarrow> bool" where
  "mm_ok m \<longleftrightarrow> om_ok sid (matchServices m) \<and> om_ok id (matches m) \<and>
     distinct (map (sid \<circ> service) (changedServices m))"

text \<open>Every match the manager has a place for: with a service or waiting.\<close>

definition all_mids :: "CSMatchManager \<Rightarrow> int multiset" where
  "all_mids m = om_values (matchServices m) + mset (undistMatches m)"

lemma timer_simps [simp]:
  "matchServices (startTimerCheckDistMatchServices m) = matchServices m"
  "matches (startTimerCheckDistMatchServices m) = matches m"
  "changedServices (startTimerCheckDistMatchServices m) = changedServices m"
  "undistMatches (startTimerCheckDistMatchServices m) = undistMatches m"
  "matchLatestUpdateTime (startTimerCheckDistMatchServices m) = matchLatestUpdateTime m"
  "changedMatchMapCB (startTimerCheckDistMatchServices m) = changedMatchMapCB m"
  "timer (startTimerCheckDistMatchServices m)"
  "matchServices (stopTimerCheckDistMatchServices m) = matchServices m"
  "matches (stopTimerCheckDistMatchServices m) = matches m"
  "changedServices (stopTimerCheckDistMatchServices m) = changedServices m"
  "undistMatches (stopTimerCheckDistMatchServices m) = undistMatches m"
  "matchLatestUpdateTime (stopTimerCheckDistMatchServices m) = matchLatestUpdateTime m"
  "changedMatchMapCB (stopTimerCheckDistMatchServices m) = changedMatchMapCB m"
  "\<not> timer (stopTimerCheckDistMatchServices m)"
  by (simp_all add: startTimerCheckDistMatchServices_def stopTimerCheckDistMatchServices_def)

lemma updateMatchesOrService_simps [simp]:
  "matchServices (updateMatchesOrService now m) = matchServices m"
  "matches (updateMatchesOrService now m) = matches m"
  "changedServices (updateMatchesOrService now m) = changedServices m"
  "undistMatches (updateMatchesOrService now m) = undistMatches m"
  "matchLatestUpdateTime (updateMatchesOrService now m) = now"
  "changedMatchMapCB (updateMatchesOrService now m) = changedMatchMapCB m"
  "timer (updateMatchesOrService now m)"
  by (simp_all add: updateMatchesOrService_def)

lemma mm_keeps:
  "matchServices m' = matchServices m \<Longrightarrow> matches m' = matches m \<Longrightarrow>
     changedServices m' = changedServices m \<Longrightarrow> mm_ok m' = mm_ok m"
  by (simp add: mm_ok_def)

lemma getDistMatch_dist_of: "getDistMatch s m = dist_of (matchServices m) s"
  by (simp add: getDistMatch_def dist_of_def)

lemma erase_dist_of [conserve_simps]:
  assumes "om_ok sid services"
  shows "om_values (om_erase sid s services) + mset (dist_of services s) = om_values services"
  using om_values_erase [OF assms] om_erase_absent [of sid s services]
  by (cases "om_find sid s services") (auto simp: dist_of_def add.commute)

lemma removeServices_spec:
  "om_ok sid services \<Longrightarrow> removeServices cs (services, u) = (services', u') \<Longrightarrow>
     om_ok sid services' \<and> om_values services' + mset u' = om_values services + mset u"
proof (induction cs "(services, u)" arbitrary: services u rule: removeServices.induct)
  case (2 c cs services u)
  then show ?case
    using erase_dist_of [OF "2.prems"(1), of "sid (service c)"]
    by (auto simp: om_erase_ok ac_simps split: if_splits)
qed simp

lemma updateService_spec:
  assumes "om_ok sid services"
  shows "om_ok sid (updateService c services) \<and> om_values (updateService c services) = om_values services"
proof (cases "om_find sid (sid (service c)) services")
  case (Some e)
  have "om_find sid (sid (service c)) (om_erase sid (sid (service c)) services) = None"
    by (simp add: om_find_erase)
  then show ?thesis
    using Some assms om_values_erase [OF assms Some]
    by (cases e) (auto simp: updateService_def om_values_insert om_insert_ok om_erase_ok)
qed (simp add: updateService_def assms)

lemma om_values_assign_absent:
  assumes "om_ok sid services" and "om_find sid (sid k) services = None"
  shows "om_values (om_assign sid k v services) = mset v + om_values services"
proof -
  have ins: "om_ok sid (om_insert sid k v services)" "om_find sid (sid k) (om_insert sid k v services) = Some (k, v)"
    using assms by (simp_all add: om_insert_ok om_find_insert)
  show ?thesis
    using om_values_modify [OF ins, of "\<lambda>_. v"] assms(2) by (simp add: om_assign_def om_values_insert)
qed

lemma set_fold_removeAll: "set (fold removeAll xs ys) = set ys - set xs"
  by (induction xs arbitrary: ys) auto

lemma om_values_assign_empty:
  assumes "om_ok sid services" and "dist_of services (sid k) = []"
  shows "om_values (om_assign sid k [] services) = om_values services"
proof (cases "om_find sid (sid k) services")
  case None
  then show ?thesis
    using om_values_assign_absent [OF assms(1)] by simp
next
  case (Some e)
  have ins: "om_ok sid (om_insert sid k [] services)" "om_find sid (sid k) (om_insert sid k [] services) = Some e"
    using assms(1) Some by (simp_all add: om_insert_ok om_find_insert)
  have "set (om_insert sid k [] services) = set services"
    using om_insert_set [OF assms(1), of k "[]"] Some by simp
  then have "mset (om_insert sid k [] services) = mset services"
    using om_ok_distinct [OF ins(1)] om_ok_distinct [OF assms(1)]
    by (metis distinct_map set_eq_iff_mset_eq_distinct)
  then show ?thesis
    using om_values_modify [OF ins, of "\<lambda>_. []"] assms(2) Some
    by (simp add: om_assign_def om_values_def dist_of_def)
qed

lemma addService_spec:
  assumes "om_ok sid services"
  shows "om_ok sid (addService c services) \<and> om_values (addService c services) = om_values services"
  using om_values_assign_empty [OF assms, of "service c"] assms
  by (auto simp: addService_def om_assign_ok dist_of_def split: option.splits)

lemma fold_keeps_values:
  assumes "\<And>c m. om_ok sid m \<Longrightarrow> om_ok sid (f c m) \<and> om_values (f c m) = om_values m"
  shows "om_ok sid m \<Longrightarrow> om_ok sid (fold f cs m) \<and> om_values (fold f cs m) = om_values m"
  by (induction cs arbitrary: m) (simp_all add: assms)

lemma updateDist_spec:
  assumes "mm_ok m"
  shows "\<exists>m' es. updateDistMatchServices now m = Inr (m', es) \<and> mm_ok m' \<and> all_mids m' = all_mids m \<and>
    matches m' = matches m \<and> (checkDistMatchServices now m \<longrightarrow> changedServices m' = [] \<and> \<not> timer m')"
proof (cases "checkDistMatchServices now (stopTimerCheckDistMatchServices m)")
  case True
  obtain s1 u1 where rem: "removeServices (changedServices m) (matchServices m, []) = (s1, u1)"
    by fastforce
  have s1: "om_ok sid s1" "om_values s1 + mset u1 = om_values (matchServices m)"
    using removeServices_spec [OF _ rem] assms by (simp_all add: mm_ok_def)
  let ?c1 = "filter (\<lambda>c. ctype c \<noteq> Removed) (changedServices m)"
  let ?s2 = "fold updateService ?c1 s1"
  let ?s3 = "fold addService (filter (\<lambda>c. ctype c \<noteq> Update) ?c1) ?s2"
  have s2: "om_ok sid ?s2" "om_values ?s2 = om_values s1"
    using fold_keeps_values [of updateService, OF updateService_spec s1(1)] by simp_all
  have s3: "om_ok sid ?s3" "om_values ?s3 = om_values s1"
    using fold_keeps_values [of addService, OF addService_spec s2(1)] s2(2) by simp_all
  obtain s4 u4 c4 where dist: "MatchDistribution_call ?s3 (matches m) (list_merge (undistMatches m) u1) = Inr (s4, u4, c4)"
      "om_ok sid s4" "om_values s4 + mset u4 = om_values ?s3 + mset (list_merge (undistMatches m) u1)"
    using strategy_conserves [OF s3(1), of "matches m" "list_merge (undistMatches m) u1"] by blast
  let ?m' = "(stopTimerCheckDistMatchServices m)\<lparr>matchServices := s4, undistMatches := u4, changedServices := []\<rparr>"
  have "updateDistMatchServices now m =
      Inr (?m', if changedMatchMapCB m then [ChangedMatchMap (changedMap c4 s4)] else [])"
    using True dist(1) by (simp add: updateDistMatchServices_def Let_def rem)
  moreover have "mm_ok ?m'"
    using assms dist(2) by (simp add: mm_ok_def)
  moreover have "all_mids ?m' = all_mids m"
    using dist(3) s3(2) s1(2) by (simp add: all_mids_def ac_simps)
  ultimately show ?thesis
    by (intro exI [of _ ?m'] exI) simp
next
  case False
  then show ?thesis
    using assms by (simp add: updateDistMatchServices_def checkDistMatchServices_def mm_ok_def all_mids_def)
qed

section \<open>The manager as a machine\<close>

text \<open>
  The calls the kernel, the web interface, the database thread and the timers make, as steps.
  A run starts from the initialised manager.
\<close>

inductive mm_step :: "CSMatchManager \<Rightarrow> CSMatchManager \<Rightarrow> bool" where
  update: "mm_step m (updateMatchService now key m)"
| remove: "mm_step m (removeMatchService now key m)"
| undist: "mm_step m (addUndistriteMatches now mids m)"
| timer: "updateDistMatchServices now m = Inr (m', es) \<Longrightarrow> mm_step m m'"
| check: "checkServiceDistMap now key mids m = (r, mids', m') \<Longrightarrow> mm_step m m'"
| cancel: "cancelMatch i reason m = Inr (r, m', es) \<Longrightarrow> mm_step m m'"
| change: "updateMatch i props m = (r, m', es) \<Longrightarrow> mm_step m m'"
| created: "mm_step m (createdMatches now ps m)"

inductive mm_reachable :: "CSMatchManager \<Rightarrow> bool" where
  init: "om_ok id ms \<Longrightarrow> mm_reachable (setChangedMatchMapCB (mm_initialize ms (CSMatchManager_new now)))"
| step: "mm_reachable m \<Longrightarrow> mm_step m m' \<Longrightarrow> mm_reachable m'"

lemma updateMatchService_ok: "mm_ok m \<Longrightarrow> mm_ok (updateMatchService now key m)"
  by (auto simp: mm_ok_def updateMatchService_def Let_def distinct_map intro: inj_on_subset)

lemma removeMatchService_ok: "mm_ok m \<Longrightarrow> mm_ok (removeMatchService now key m)"
  by (auto simp: mm_ok_def removeMatchService_def Let_def distinct_map intro: inj_on_subset)

lemma addUndistriteMatches_ok: "mm_ok m \<Longrightarrow> mm_ok (addUndistriteMatches now mids m)"
  by (simp add: addUndistriteMatches_def mm_ok_def)

lemma checkServiceDistMap_ok:
  "mm_ok m \<Longrightarrow> checkServiceDistMap now key mids m = (r, mids', m') \<Longrightarrow> mm_ok m'"
  by (auto simp: mm_ok_def checkServiceDistMap_def Let_def om_assign_ok distinct_map
      intro: inj_on_subset split: option.splits if_splits)

lemma cancelMatch_ok: "mm_ok m \<Longrightarrow> cancelMatch i reason m = Inr (r, m', es) \<Longrightarrow> mm_ok m'"
  by (auto simp: mm_ok_def cancelMatch_def Let_def split: option.splits if_splits)

lemma updateMatch_ok: "mm_ok m \<Longrightarrow> updateMatch i props m = (r, m', es) \<Longrightarrow> mm_ok m'"
  by (auto simp: mm_ok_def updateMatch_def Let_def split: option.splits)

lemma fold_assign_ok: "om_ok id m \<Longrightarrow> om_ok id (fold (\<lambda>x. om_assign id (f x) (g x)) xs m)"
  by (induction xs arbitrary: m) (simp_all add: om_assign_ok)

lemma createdMatches_ok: "mm_ok m \<Longrightarrow> mm_ok (createdMatches now ps m)"
  unfolding createdMatches_def by (intro addUndistriteMatches_ok) (simp add: mm_ok_def fold_assign_ok)

lemma updateDist_ok:
  "mm_ok m \<Longrightarrow> updateDistMatchServices now m = Inr (m', es) \<Longrightarrow>
     mm_ok m' \<and> all_mids m' = all_mids m \<and> (checkDistMatchServices now m \<longrightarrow> \<not> timer m')"
  using updateDist_spec [of m now] by auto

lemma mm_step_ok: "mm_step m m' \<Longrightarrow> mm_ok m \<Longrightarrow> mm_ok m'"
  by (induction rule: mm_step.induct)
    (auto simp: updateMatchService_ok removeMatchService_ok addUndistriteMatches_ok createdMatches_ok
      intro: checkServiceDistMap_ok cancelMatch_ok updateMatch_ok dest: updateDist_ok)

lemma mm_reachable_ok: "mm_reachable m \<Longrightarrow> mm_ok m"
proof (induction rule: mm_reachable.induct)
  case (init ms now)
  then show ?case
    by (simp add: mm_ok_def setChangedMatchMapCB_def mm_initialize_def CSMatchManager_new_def)
qed (rule mm_step_ok)

text \<open>What \<open>std::find_if\<close> returns satisfies its predicate and is in the range.\<close>

lemma find_SomeD: "find P xs = Some x \<Longrightarrow> x \<in> set xs \<and> P x"
  by (induction xs) (auto split: if_splits)

section \<open>Which services are left\<close>

lemma sids_erase: "set (sids (om_erase sid s m)) = set (sids m) - {s}"
  by (auto simp: sids_def om_erase_def)

lemma sids_find_iff: "s \<in> set (sids m) \<longleftrightarrow> om_find sid s m \<noteq> None"
  using om_find_None_iff [of sid s m] by (auto simp: sids_def)

lemma sids_insert: "om_ok sid m \<Longrightarrow> set (sids (om_insert sid k v m)) = insert (sid k) (set (sids m))"
  using om_find_SomeD [of sid "sid k" m]
  by (cases "om_find sid (sid k) m") (force simp: sids_def om_insert_set)+

lemma removeServices_sids:
  "set (sids (fst (removeServices cs (m, u)))) =
     set (sids m) - (sid \<circ> service) ` set (filter (\<lambda>c. ctype c = Removed) cs)"
  by (induction cs "(m, u)" arbitrary: m u rule: removeServices.induct) (auto simp: sids_erase)

lemma updateService_sids:
  "om_ok sid m \<Longrightarrow> set (sids (updateService c m)) = set (sids m)"
  using sids_find_iff [of "sid (service c)" m]
  by (cases "om_find sid (sid (service c)) m") (auto simp: updateService_def sids_insert om_erase_ok sids_erase)

lemma addService_sids:
  "om_ok sid m \<Longrightarrow> set (sids (addService c m)) = insert (sid (service c)) (set (sids m))"
  using sids_find_iff [of "sid (service c)" m]
  by (cases "om_find sid (sid (service c)) m") (auto simp: addService_def om_assign_def sids_insert split: if_splits)

lemma fold_updateService_sids: "om_ok sid m \<Longrightarrow> set (sids (fold updateService cs m)) = set (sids m)"
  by (induction cs arbitrary: m) (simp_all add: updateService_sids updateService_spec)

lemma fold_addService_sids:
  "om_ok sid m \<Longrightarrow> set (sids (fold addService cs m)) = set (sids m) \<union> (sid \<circ> service) ` set cs"
  by (induction cs arbitrary: m) (auto simp: addService_sids addService_spec)

lemma updateDist_sids:
  assumes "mm_ok m" and "checkDistMatchServices now m" and "updateDistMatchServices now m = Inr (m', es)"
  shows "set (sids (matchServices m')) =
    set (sids (matchServices m)) - (sid \<circ> service) ` set (filter (\<lambda>c. ctype c = Removed) (changedServices m))
      \<union> (sid \<circ> service) ` set (filter (\<lambda>c. ctype c = Added) (changedServices m))"
proof -
  obtain s1 u1 where rem: "removeServices (changedServices m) (matchServices m, []) = (s1, u1)"
    by fastforce
  have s1: "om_ok sid s1"
    using removeServices_spec [OF _ rem] assms(1) by (simp add: mm_ok_def)
  let ?c1 = "filter (\<lambda>c. ctype c \<noteq> Removed) (changedServices m)"
  let ?s2 = "fold updateService ?c1 s1"
  let ?c2 = "filter (\<lambda>c. ctype c \<noteq> Update) ?c1"
  let ?s3 = "fold addService ?c2 ?s2"
  have s2: "om_ok sid ?s2"
    using fold_keeps_values [of updateService, OF updateService_spec s1] by simp
  have s3: "om_ok sid ?s3"
    using fold_keeps_values [of addService, OF addService_spec s2] by simp
  obtain s4 u4 c4 where dist: "MatchDistribution_call ?s3 (matches m) (list_merge (undistMatches m) u1) = Inr (s4, u4, c4)"
      "sids s4 = sids ?s3"
    using strategy_conserves [OF s3, of "matches m" "list_merge (undistMatches m) u1"] by blast
  have "checkDistMatchServices now (stopTimerCheckDistMatchServices m)"
    using assms(2) by (simp add: checkDistMatchServices_def)
  then have "matchServices m' = s4"
    using assms(3) dist(1) by (auto simp: updateDistMatchServices_def Let_def rem)
  then have "set (sids (matchServices m')) = set (sids s1) \<union> (sid \<circ> service) ` set ?c2"
    using dist(2) fold_updateService_sids [OF s1] fold_addService_sids [OF s2] by simp
  moreover have "?c2 = filter (\<lambda>c. ctype c = Added) (changedServices m)"
    by (simp, rule filter_cong) (auto intro: ChangedType.exhaust)
  moreover have "set (sids s1) = set (sids (matchServices m)) -
      (sid \<circ> service) ` set (filter (\<lambda>c. ctype c = Removed) (changedServices m))"
    using removeServices_sids [of "changedServices m" "matchServices m" "[]"] rem by simp
  ultimately show ?thesis
    by (simp only:)
qed

section \<open>Properties\<close>

text \<open>C11: In every state the manager can reach, each service has at most one pending change and
  occurs once in the service map, which is ordered, as is the map of matches.\<close>

theorem manager_state_invariant:
  assumes "mm_reachable m"
  shows "distinct (map (sid \<circ> service) (changedServices m)) \<and> distinct (sids (matchServices m)) \<and>
    om_ok sid (matchServices m) \<and> om_ok id (matches m)"
  using mm_reachable_ok [OF assms] om_ok_distinct by (auto simp: mm_ok_def sids_def)

definition sample_key :: "int \<Rightarrow> MatchDisService" where
  "sample_key s = \<lparr>sid = s, loaded = 0\<rparr>"

definition sample_manager :: CSMatchManager where
  "sample_manager = updateMatchService 1 (sample_key 1)
     (updateMatchService 0 (sample_key 0)
       (setChangedMatchMapCB (mm_initialize [] (CSMatchManager_new 0))))"

lemma sample_manager_reachable: "mm_reachable sample_manager"
  unfolding sample_manager_def
  by (rule mm_reachable.step [OF mm_reachable.step [OF mm_reachable.init mm_step.update] mm_step.update]) simp

theorem manager_state_invariant_witness:
  "distinct (map (sid \<circ> service) (changedServices sample_manager)) \<and> length (changedServices sample_manager) = 2"
  using manager_state_invariant [OF sample_manager_reachable]
  by (simp add: sample_manager_def updateMatchService_def Let_def sample_key_def
      setChangedMatchMapCB_def mm_initialize_def CSMatchManager_new_def)

text \<open>C5: The redistribution never fails and never loses or doubles a match, whatever services
  came and went; once due, it leaves exactly the services that were not removed, with those
  that were added, and no pending change.\<close>

theorem redistribution_loses_no_match:
  assumes "mm_reachable m"
  shows "\<exists>m' es. updateDistMatchServices now m = Inr (m', es) \<and> all_mids m' = all_mids m \<and>
    matches m' = matches m \<and>
    (checkDistMatchServices now m \<longrightarrow> changedServices m' = [] \<and>
      set (sids (matchServices m')) =
        set (sids (matchServices m)) - (sid \<circ> service) ` set (filter (\<lambda>c. ctype c = Removed) (changedServices m))
          \<union> (sid \<circ> service) ` set (filter (\<lambda>c. ctype c = Added) (changedServices m)))"
  using updateDist_spec [OF mm_reachable_ok [OF assms], of now]
    updateDist_sids [OF mm_reachable_ok [OF assms], of now] by blast

lemma sample_manager_simps:
  "matchServices sample_manager = []" "matches sample_manager = []" "undistMatches sample_manager = []"
  "matchLatestUpdateTime sample_manager = 1"
  "changedServices sample_manager =
     [\<lparr>ctype = Added, service = sample_key 0, stamp = 0\<rparr>, \<lparr>ctype = Added, service = sample_key 1, stamp = 1\<rparr>]"
  by (simp_all add: sample_manager_def updateMatchService_def Let_def sample_key_def
      setChangedMatchMapCB_def mm_initialize_def CSMatchManager_new_def)

theorem redistribution_loses_no_match_witness:
  "\<exists>m' es. updateDistMatchServices 30 sample_manager = Inr (m', es) \<and> all_mids m' = {#} \<and>
    changedServices m' = [] \<and> set (sids (matchServices m')) = {0, 1}"
proof -
  obtain m' es where m': "updateDistMatchServices 30 sample_manager = Inr (m', es)" "all_mids m' = all_mids sample_manager"
      "checkDistMatchServices 30 sample_manager \<longrightarrow> changedServices m' = [] \<and>
      set (sids (matchServices m')) =
        set (sids (matchServices sample_manager)) - (sid \<circ> service) ` set (filter (\<lambda>c. ctype c = Removed) (changedServices sample_manager))
          \<union> (sid \<circ> service) ` set (filter (\<lambda>c. ctype c = Added) (changedServices sample_manager))"
    using redistribution_loses_no_match [OF sample_manager_reachable, of 30] by blast
  have "(sid \<circ> service) ` set (filter (\<lambda>c. ctype c = Added) (changedServices sample_manager)) = {0, 1}"
    by (auto simp: sample_manager_simps sample_key_def)
  then show ?thesis
    using m' by (simp add: sample_manager_simps all_mids_def checkDistMatchServices_def updateDuration_def sids_def)
qed

text \<open>A service that connects and is lost again before the redistribution leaves no trace in
  the pending changes, which then neither add it nor free any match.\<close>

theorem lost_newcomer_leaves_no_change:
  assumes "om_find sid (sid key) (matchServices m) = None" and "sid key' = sid key"
  shows "changedServices (removeMatchService now' key' (updateMatchService now key m)) =
    filter (\<lambda>c. sid (service c) \<noteq> sid key) (changedServices m)"
  using assms by (simp add: updateMatchService_def removeMatchService_def Let_def)

theorem lost_newcomer_leaves_no_change_witness:
  "changedServices (removeMatchService 7 (sample_key 3) (updateMatchService 5 (sample_key 3) sample_manager)) =
    changedServices sample_manager"
  using lost_newcomer_leaves_no_change [of "sample_key 3" sample_manager "sample_key 3" 7 5]
  by (simp add: sample_manager_simps sample_key_def)

text \<open>The check of a known service compares the matches it reports with those it was given,
  as multisets: no error exactly when they are equal, \<open>Less\<close> exactly when it lacks some and has
  no extra one, \<open>More\<close> exactly when it reports one it was not given.\<close>

theorem check_reports_the_difference:
  assumes "om_find sid (sid key) (matchServices m) = Some (k, dist)"
    and "checkServiceDistMap now key mids m = (r, mids', m')"
  shows "(r = ErrorNo \<longleftrightarrow> mset mids = mset dist) \<and>
    (r = ErrorMatchServerLess \<longleftrightarrow> mset mids \<subset># mset dist) \<and>
    (r = ErrorMatchServerMore \<longleftrightarrow> \<not> mset mids \<subseteq># mset dist) \<and>
    mset mids' = mset mids"
proof -
  have "set_difference (sort dist) (sort mids) = [] \<longleftrightarrow> mset dist \<subseteq># mset mids"
      "set_difference (sort mids) (sort dist) = [] \<longleftrightarrow> mset mids \<subseteq># mset dist"
    by (simp_all add: set_difference_empty_iff)
  then show ?thesis
    using assms by (auto simp: checkServiceDistMap_def Let_def subset_mset.less_le split: if_splits)
qed

theorem check_reports_the_difference_witness:
  "fst (checkServiceDistMap 0 (sample_key 1) [4, 3]
     (sample_manager\<lparr>matchServices := [(sample_key 1, [3, 4])]\<rparr>)) = ErrorNo"
proof -
  let ?m = "sample_manager\<lparr>matchServices := [(sample_key 1, [3, 4])]\<rparr>"
  obtain r mids' m' where r: "checkServiceDistMap 0 (sample_key 1) [4, 3] ?m = (r, mids', m')"
    by (rule prod_cases3)
  have "om_find sid (sid (sample_key 1)) (matchServices ?m) = Some (sample_key 1, [3, 4])"
    by simp
  then show ?thesis
    using check_reports_the_difference [OF _ r] r by (simp add: add_mset_commute)
qed

text \<open>Cancelling a match that waits or runs on a service with a positive id, and that has one
  place only, takes it out of that place, tells the kernel the new list of the service, and
  queues the request for the database.\<close>

theorem cancel_removes_the_match:
  assumes "mm_ok m" and "changedMatchMapCB m" and "getMatch i m = Some p"
    and "sint (match_state p) \<le> ENUM_STATE_READY"
    and "count (all_mids m) i = 1" and "i \<in> set (undistMatches m) \<or> getService i m > 0"
  shows "\<exists>m' es. cancelMatch i reason m = Inr (kNoneError, m', es @ [CancelMatchRQ i reason]) \<and>
    i \<notin># all_mids m' \<and> (getService i m > 0 \<longrightarrow>
      es = [ChangedMatchMap [(uint_of (getService i m), removeAll i (getDistMatch (getService i m) m))]])"
proof (cases "i \<in> set (undistMatches m)")
  case True
  then have "0 < count (mset (undistMatches m)) i"
    by simp
  then have "i \<notin># om_values (matchServices m)"
    using assms(5) unfolding all_mids_def not_in_iff count_union by linarith
  then show ?thesis
    using True assms(3,4) by (simp add: cancelMatch_def Let_def getService_def all_mids_def)
next
  case False
  then obtain e where e: "e \<in> set (matchServices m)" "i \<in> set (snd e)" "getService i m = sid (fst e)"
    using assms(6) by (auto simp: getService_def split: option.splits dest!: find_SomeD)
  have found: "om_find sid (sid (fst e)) (matchServices m) = Some e"
    using e(1) assms(1) om_find_iff [of sid "matchServices m"] by (simp add: mm_ok_def)
  let ?s = "om_modify sid (sid (fst e)) (removeAll i) (matchServices m)"
  have "count (om_values ?s) i + count (mset (snd e)) i = count (om_values (matchServices m)) i"
    using arg_cong [OF om_values_modify [OF _ found, of "removeAll i"], of "\<lambda>M. count M i"] assms(1)
    by (simp add: mm_ok_def)
  moreover have "0 < count (mset (snd e)) i"
    using e(2) by simp
  ultimately have "i \<notin># om_values ?s"
    using assms(5) unfolding all_mids_def not_in_iff count_union by linarith
  then show ?thesis
    using False assms(2-4,6) e(3) found
    by (cases e) (simp add: cancelMatch_def Let_def all_mids_def getDistMatch_def)
qed

definition running_on :: "int \<Rightarrow> CSMatchManager" where
  "running_on s = \<lparr>matchServices = [(\<lparr>sid = s, loaded = 1\<rparr>, [5])], matches = [(5, CPGMatchProfile_new\<lparr>mid := 5\<rparr>)],
     changedServices = [], undistMatches = [], timer = False, matchLatestUpdateTime = 0, changedMatchMapCB = True\<rparr>"

lemma running_on_simps:
  "mm_ok (running_on s)" "changedMatchMapCB (running_on s)"
  "getMatch 5 (running_on s) = Some (CPGMatchProfile_new\<lparr>mid := 5\<rparr>)"
  "sint (match_state (CPGMatchProfile_new\<lparr>mid := 5\<rparr>)) \<le> ENUM_STATE_READY"
  "all_mids (running_on s) = {#5#}" "getService 5 (running_on s) = s" "getDistMatch s (running_on s) = [5]"
  "matchServices (running_on s) = [(\<lparr>sid = s, loaded = 1\<rparr>, [5])]"
  by (simp_all add: running_on_def mm_ok_def om_ok_def getMatch_def om_lookup_def CPGMatchProfile_new_def
      mm_constants all_mids_def getService_def getDistMatch_def)

theorem cancel_removes_the_match_witness:
  "\<exists>m'. cancelMatch 5 2 (running_on 1) =
     Inr (kNoneError, m', [ChangedMatchMap [(1, [])], CancelMatchRQ 5 2]) \<and> 5 \<notin># all_mids m'"
  using cancel_removes_the_match [OF running_on_simps(1-3) [of 1] running_on_simps(4), of 2]
  by (auto simp: running_on_simps uint_of_def)

text \<open>A match that runs on the service with id 0 (the id of the first session) is reported as
  cancelled, but it stays with that service and nobody is told.\<close>

theorem cancel_ignores_service_0:
  assumes "getMatch i m = Some p" and "sint (match_state p) \<le> ENUM_STATE_READY" and "getService i m = 0"
  shows "\<exists>m'. cancelMatch i reason m = Inr (kNoneError, m', [CancelMatchRQ i reason]) \<and>
    matchServices m' = matchServices m \<and> getService i m' = 0 \<and> getMatch i m' = Some p"
  using assms
  by (auto simp: cancelMatch_def Let_def getService_def getMatch_def find_Some_iff removeAll_id
      split: if_splits option.splits)

theorem cancel_ignores_service_0_witness:
  "\<exists>m'. cancelMatch 5 2 (running_on 0) = Inr (kNoneError, m', [CancelMatchRQ 5 2]) \<and> getService 5 m' = 0"
  using cancel_ignores_service_0 [OF running_on_simps(3) [of 0] running_on_simps(4), of 2] by (auto simp: running_on_simps)

text \<open>When a due redistribution leaves matches waiting, the check timer is not started again:
  they wait until some other event comes.\<close>

theorem waiting_matches_are_not_retried:
  assumes "mm_reachable m" and "checkDistMatchServices now m"
    and "updateDistMatchServices now m = Inr (m', es)"
  shows "\<not> timer m'"
  using updateDist_ok [OF mm_reachable_ok [OF assms(1)] assms(3)] assms(2) by blast

definition lone_manager :: CSMatchManager where
  "lone_manager = setChangedMatchMapCB (mm_initialize [(5, CPGMatchProfile_new\<lparr>mid := 5\<rparr>)] (CSMatchManager_new 0))"

lemma lone_manager_reachable: "mm_reachable lone_manager"
  unfolding lone_manager_def by (rule mm_reachable.init) (simp add: om_ok_def)

theorem waiting_matches_are_not_retried_witness:
  "\<exists>m' es. updateDistMatchServices 25 lone_manager = Inr (m', es) \<and> undistMatches m' = [5] \<and> \<not> timer m'"
proof -
  have due: "checkDistMatchServices 25 lone_manager"
    by (simp add: checkDistMatchServices_def lone_manager_def setChangedMatchMapCB_def mm_initialize_def
        CSMatchManager_new_def updateDuration_def)
  have "\<exists>m' es. updateDistMatchServices 25 lone_manager = Inr (m', es) \<and> undistMatches m' = [5]"
    by (simp add: updateDistMatchServices_def Let_def stopTimerCheckDistMatchServices_def
        checkDistMatchServices_def lone_manager_def setChangedMatchMapCB_def mm_initialize_def
        CSMatchManager_new_def updateDuration_def MatchDistribution_call_def)
  then show ?thesis
    using waiting_matches_are_not_retried [OF lone_manager_reachable due] by blast
qed

text \<open>A service the manager does not know and that reports a match is taken over with it, also
  when another service runs that match already: the match then has one more place.\<close>

theorem reconnect_assigns_twice:
  assumes "om_ok sid (matchServices m)" and "om_find sid (sid key) (matchServices m) = None"
    and "i \<in> set mids" and "checkServiceDistMap now key mids m = (r, mids', m')"
  shows "r = ErrorReconnect \<and> i \<in> set (getDistMatch (sid key) m') \<and>
    om_values (matchServices m') = om_values (matchServices m) + mset mids \<and>
    i \<notin> set (undistMatches m')"
proof -
  have "om_values (om_assign sid key mids (matchServices m)) = om_values (matchServices m) + mset mids"
    using om_values_assign_absent [OF assms(1,2)] by (simp add: add.commute)
  moreover have "dist_of (om_assign sid key mids (matchServices m)) (sid key) = mids"
    by (simp add: dist_of_def om_find_assign [OF assms(1)] assms(2))
  ultimately show ?thesis
    using assms(2-4)
    by (auto simp: checkServiceDistMap_def getDistMatch_dist_of set_fold_removeAll split: if_splits)
qed

theorem reconnect_assigns_twice_witness:
  "\<exists>r mids' m'. checkServiceDistMap 0 \<lparr>sid = 9, loaded = 1\<rparr> [5] (running_on 1) = (r, mids', m') \<and>
     om_values (matchServices m') = {#5, 5#}"
proof -
  obtain r mids' m' where r: "checkServiceDistMap 0 \<lparr>sid = 9, loaded = 1\<rparr> [5] (running_on 1) = (r, mids', m')"
    by (rule prod_cases3)
  have "om_ok sid (matchServices (running_on 1))"
      "om_find sid (sid \<lparr>sid = 9, loaded = 1\<rparr>) (matchServices (running_on 1)) = None"
    by (simp_all add: running_on_simps om_ok_def)
  then show ?thesis
    using reconnect_assigns_twice [OF _ _ _ r, of 5] r by (simp add: running_on_simps)
qed

end
