(* ===== verification/SQLConnector.thy ===== *)
theory SQLConnector
  imports MatchProfile
begin

text \<open>
  SQLConnector.cpp: the connection to the database and the cursor over a result. The MySQL
  client library is a parameter: \<open>init_ok\<close> (whether \<open>mysql_init\<close> returns a handle),
  \<open>connect_ok\<close> (whether \<open>mysql_real_connect\<close> accepts an address) and \<open>query\<close>, which runs a
  statement on the database and gives the error code and the stored result set, \<open>None\<close> for a
  statement that has none. A result set is the names of its columns and its rows; a column is
  \<open>None\<close> where the row has NULL.
\<close>

type_synonym result_set = "string list \<times> string option list list"

type_synonym 'd query = "string \<Rightarrow> 'd \<Rightarrow> (int \<times> result_set option) \<times> 'd"

record SQLConnector =
  mysql :: bool
  myResult :: "string option list list"
  totalFields :: nat
  totalRows :: nat
  fieldVec :: "string list"
  fieldsValue :: dict
  ip_conn :: string
  username :: string
  password :: string
  dbname :: string
  port_conn :: int

type_synonym address = "string \<times> string \<times> string \<times> string \<times> int"

definition SQLConnector_new :: SQLConnector where
  "SQLConnector_new = \<lparr>mysql = False, myResult = [], totalFields = 0, totalRows = 0, fieldVec = [],
     fieldsValue = [], ip_conn = [], username = [], password = [], dbname = [], port_conn = 3306\<rparr>"

definition sql_clear :: "SQLConnector \<Rightarrow> SQLConnector" where
  "sql_clear c = c\<lparr>mysql := False, myResult := []\<rparr>"

text \<open>\<open>connectDB\<close> remembers the address for \<open>reConnect\<close>; its line for the database name reads
  \<open>dbname_ = dbname_\<close>.\<close>

definition connectDB ::
    "bool \<Rightarrow> (address \<Rightarrow> bool) \<Rightarrow> string \<Rightarrow> string \<Rightarrow> string \<Rightarrow> string \<Rightarrow> int \<Rightarrow> SQLConnector \<Rightarrow> bool \<times> SQLConnector" where
  "connectDB init_ok connect_ok db user pwd ip port c0 =
     (let c = sql_clear c0
      in if \<not> init_ok then (False, c)
         else let c1 = c\<lparr>mysql := True\<rparr>
           in if \<not> connect_ok (ip, user, pwd, db, port) then (False, c1)
              else (True, c1\<lparr>ip_conn := ip, username := user, password := pwd, dbname := dbname c1, port_conn := port\<rparr>))"

definition reConnect :: "bool \<Rightarrow> (address \<Rightarrow> bool) \<Rightarrow> SQLConnector \<Rightarrow> bool \<times> SQLConnector" where
  "reConnect init_ok connect_ok c =
     (if \<not> init_ok then (False, c\<lparr>mysql := False\<rparr>)
      else (connect_ok (ip_conn c, username c, password c, dbname c, port_conn c), c\<lparr>mysql := True\<rparr>))"

section \<open>The cursor\<close>

fun first_row :: "string list \<Rightarrow> string option list \<Rightarrow> string list \<times> dict \<Rightarrow> string list \<times> dict" where
  "first_row (f # fs) (Some v # row) (vec, d) = first_row fs row (vec @ [f], om_assign id f v d)"
| "first_row (f # fs) (None # row) (vec, d) = first_row fs row (vec, d)"
| "first_row _ _ (vec, d) = (vec, d)"

definition queryFields :: "string list \<Rightarrow> SQLConnector \<Rightarrow> SQLConnector" where
  "queryFields names c =
     (case myResult c of
        [] \<Rightarrow> c\<lparr>fieldVec := [], fieldsValue := []\<rparr>
      | row # rows \<Rightarrow>
          let (vec, d) = first_row names row ([], [])
          in c\<lparr>myResult := rows, fieldVec := vec, fieldsValue := d\<rparr>)"

text \<open>The columns of the following rows are numbered by \<open>fieldVec\<close>, not by the result set.\<close>

fun next_row :: "string list \<Rightarrow> string option list \<Rightarrow> dict \<Rightarrow> dict" where
  "next_row (f # fs) (Some v # row) d = next_row fs row (om_assign id f v d)"
| "next_row (f # fs) (None # row) d = next_row fs row d"
| "next_row _ _ d = d"

definition queryNext :: "SQLConnector \<Rightarrow> SQLConnector" where
  "queryNext c =
     (case myResult c of
        [] \<Rightarrow> c\<lparr>fieldsValue := []\<rparr>
      | row # rows \<Rightarrow> c\<lparr>myResult := rows, fieldsValue := next_row (fieldVec c) row []\<rparr>)"

definition closeQuery :: "SQLConnector \<Rightarrow> SQLConnector" where
  "closeQuery c = c\<lparr>fieldsValue := []\<rparr>"

definition fieldData_int :: "string \<Rightarrow> int32_w \<Rightarrow> SQLConnector \<Rightarrow> int32_w" where
  "fieldData_int f old c = (case om_lookup id (fieldsValue c) f of None \<Rightarrow> old | Some v \<Rightarrow> atoi v)"

definition fieldData_string :: "string \<Rightarrow> string \<Rightarrow> SQLConnector \<Rightarrow> string" where
  "fieldData_string f old c = (case om_lookup id (fieldsValue c) f of None \<Rightarrow> old | Some v \<Rightarrow> v)"

text \<open>The 32-bit variants store the same bits; the 64-bit ones read with \<open>atoll\<close>.\<close>

definition fieldData_long :: "string \<Rightarrow> size_w \<Rightarrow> SQLConnector \<Rightarrow> size_w" where
  "fieldData_long f old c = (case om_lookup id (fieldsValue c) f of None \<Rightarrow> old | Some v \<Rightarrow> word_of_int (strtol v))"

lemma fieldData_long_read:
  "om_lookup id (fieldsValue c) f = Some (to_string (sint w)) \<Longrightarrow> fieldData_long f old c = (w :: size_w)"
  using sint_ge [of w] sint_lt [of w] by (simp add: fieldData_long_def strtol_to_string clamp_long_id)

section \<open>Results the library holds\<close>

text \<open>A text with several statements has one result after the other. \<open>pending\<close> is what the library
  still holds of them, the current one first, \<open>None\<close> for a statement without a result; \<open>held\<close> is the
  current one if the connector has taken it already. The two loops of \<open>clearResult\<close> give the results they
  free, in order.\<close>

fun clear_while :: "'r option list \<Rightarrow> 'r list" where
  "clear_while (cur # r # rest) = (case r of Some x \<Rightarrow> [x] | None \<Rightarrow> []) @ clear_while (r # rest)"
| "clear_while pending = []"

fun clearResult :: "'r option \<Rightarrow> 'r option list \<Rightarrow> 'r list" where
  "clearResult (Some x) pending = x # clear_while pending"
| "clearResult None (Some x # rest) = x # clear_while (Some x # rest)"
| "clearResult None pending = clear_while pending"

lemma clear_while_frees: "clear_while (cur # rest) = List.map_filter id rest"
  by (induction rest arbitrary: cur) (auto simp: map_filter_simps split: option.splits)

lemma every_result_is_freed_once:
  "held = None \<or> pending = held # rest \<Longrightarrow> clearResult held pending = List.map_filter id pending"
  by (cases "(held, pending)" rule: clearResult.cases) (auto simp: clear_while_frees map_filter_simps)

section \<open>Queries\<close>

fun contains_text :: "string \<Rightarrow> string \<Rightarrow> bool" where
  "contains_text pat [] = (pat = [])"
| "contains_text pat (c # cs) = (take (length pat) (c # cs) = pat \<or> contains_text pat cs)"

text \<open>
  A statement with the text SELECT in it, wherever it stands, is taken for a query; the result
  set of one that is none is a null pointer.
\<close>

definition execQuery ::
    "bool \<Rightarrow> (address \<Rightarrow> bool) \<Rightarrow> 'd query \<Rightarrow> string \<Rightarrow> SQLConnector \<times> 'd \<Rightarrow> (int \<times> SQLConnector \<times> 'd) result" where
  "execQuery init_ok connect_ok query data cd =
     (case cd of (c0, d) \<Rightarrow>
      if data = [] then Inr (- 1, c0, d)
      else
        let (connected, c) = (if mysql c0 then (True, c0) else reConnect init_ok connect_ok c0)
        in if \<not> connected then Inr (- 1, c, d)
           else
             let ((ret, res), d') = query data d; c1 = c\<lparr>myResult := []\<rparr>
             in if ret \<noteq> 0 then Inr (- 1, c1, d')
                else if contains_text ''SELECT'' data \<or> contains_text ''select'' data
                then case res of
                  None \<Rightarrow> Inl NullDeref
                | Some (names, rows) \<Rightarrow>
                    Inr (ret, queryFields names (c1\<lparr>myResult := rows, totalFields := length names,
                      totalRows := length rows\<rparr>), d')
                else Inr (ret, c1, d'))"

section \<open>Reading rows\<close>

text \<open>What a row says: the columns that are not NULL.\<close>

definition row_values :: "string list \<Rightarrow> string option list \<Rightarrow> string \<rightharpoonup> string" where
  "row_values names row f = (case map_of (zip names row) f of Some (Some v) \<Rightarrow> Some v | _ \<Rightarrow> None)"

lemma next_row_lookup:
  "om_ok id d \<Longrightarrow> distinct names \<Longrightarrow> length row = length names \<Longrightarrow> (\<forall>f \<in> set names. om_lookup id d f = None) \<Longrightarrow>
     om_ok id (next_row names row d) \<and>
     om_lookup id (next_row names row d) = (\<lambda>f. case map_of (zip names row) f of Some (Some v) \<Rightarrow> Some v
        | _ \<Rightarrow> om_lookup id d f)"
proof (induction names row d rule: next_row.induct)
  case (1 f fs v row d)
  have assign: "om_lookup id (om_assign id f v d) = (om_lookup id d)(f \<mapsto> v)" "om_ok id (om_assign id f v d)"
    by (rule im.lookup_store [OF "1.prems"(1)], rule im.store_ok [OF "1.prems"(1)])
  have f: "map_of (zip fs row) f = None"
    using "1.prems"(2) by (auto simp: map_of_eq_None_iff dest: set_zip_leftD)
  have "\<forall>g \<in> set fs. om_lookup id (om_assign id f v d) g = None"
    using "1.prems"(2,4) assign(1) by (auto simp del: id_apply)
  moreover have "distinct fs" "length row = length fs"
    using "1.prems"(2,3) by simp_all
  ultimately have IH: "om_ok id (next_row fs row (om_assign id f v d))"
      "om_lookup id (next_row fs row (om_assign id f v d)) = (\<lambda>g. case map_of (zip fs row) g of
         Some (Some v) \<Rightarrow> Some v | _ \<Rightarrow> ((om_lookup id d)(f \<mapsto> v)) g)"
    using "1.IH" [OF assign(2)] unfolding assign(1) by blast+
  have "om_lookup id (next_row fs row (om_assign id f v d)) g =
      (case map_of (zip (f # fs) (Some v # row)) g of Some (Some v) \<Rightarrow> Some v | _ \<Rightarrow> om_lookup id d g)" for g
    unfolding IH(2) using f by (cases "g = f") (simp_all cong: option.case_cong)
  then show ?case
    using IH(1) by (simp only: next_row.simps)
next
  case (2 f fs row d)
  moreover have "map_of (zip fs row) f = None"
    using "2.prems"(2) by (auto simp: map_of_eq_None_iff dest: set_zip_leftD)
  ultimately show ?case
    by (auto simp: fun_eq_iff simp del: id_apply split: option.splits dest: set_zip_leftD)
qed simp_all

lemma next_row_values:
  assumes "distinct names" and "length row = length names"
  shows "om_lookup id (next_row names row []) = row_values names row"
  using next_row_lookup [of "[]" names row] assms
  by (simp add: row_values_def fun_eq_iff om_lookup_Nil cong: option.case_cong)

lemma next_row_take: "next_row names (take (length names) row) d = next_row names row d"
  by (induction names row d rule: next_row.induct) auto

text \<open>Without a NULL in the first row, \<open>fieldVec\<close> is the list of all columns.\<close>

lemma first_row_full:
  "length vs = length names \<Longrightarrow> fst (first_row names (map Some vs) (vec, d)) = vec @ names"
  by (induction names "map Some vs" "(vec, d)" arbitrary: vs vec d rule: first_row.induct) auto

lemma first_row_next_row: "snd (first_row names row (vec, d)) = next_row names row d"
  by (induction names row "(vec, d)" arbitrary: vec d rule: first_row.induct) auto

fun nexts :: "nat \<Rightarrow> SQLConnector \<Rightarrow> SQLConnector" where
  "nexts 0 c = c"
| "nexts (Suc n) c = nexts n (queryNext c)"

lemma nexts_row:
  "n < length (myResult c) \<Longrightarrow> fieldsValue (nexts (Suc n) c) = next_row (fieldVec c) (myResult c ! n) []"
proof (induction n arbitrary: c)
  case 0
  then show ?case
    by (cases "myResult c") (simp_all add: queryNext_def)
next
  case (Suc n)
  then obtain row rows where r: "myResult c = row # rows"
    by (cases "myResult c") auto
  have "n < length (myResult (queryNext c))" "fieldVec (queryNext c) = fieldVec c"
      "myResult (queryNext c) ! n = myResult c ! Suc n"
    using Suc.prems r by (simp_all add: queryNext_def)
  then show ?case
    using Suc.IH [of "queryNext c"] by simp
qed

section \<open>Properties\<close>

text \<open>Over a result whose first row has no NULL, the cursor shows each row: after the query
  and \<open>n\<close> calls of \<open>queryNext\<close>, \<open>fieldsValue\<close> holds exactly the columns of row \<open>n\<close> that are
  not NULL.\<close>

theorem cursor_reads_every_row:
  assumes "distinct names" and "length vs = length names" and "\<forall>row \<in> set rows. length row = length names"
    and "n \<le> length rows"
  shows "om_lookup id (fieldsValue (nexts n (queryFields names (c\<lparr>myResult := map Some vs # rows\<rparr>)))) =
    row_values names ((map Some vs # rows) ! n)"
proof -
  let ?c = "queryFields names (c\<lparr>myResult := map Some vs # rows\<rparr>)"
  obtain vec d where fr: "first_row names (map Some vs) ([], []) = (vec, d)"
    by fastforce
  have vec: "vec = names" and d: "d = next_row names (map Some vs) []"
    using first_row_full [OF assms(2), of "[]" "[]"] first_row_next_row [of names "map Some vs" "[]" "[]"] fr
    by simp_all
  show ?thesis
  proof (cases n)
    case 0
    then show ?thesis
      using next_row_values [OF assms(1), of "map Some vs"] assms(2) by (simp add: queryFields_def fr d)
  next
    case (Suc k)
    then have k: "k < length rows"
      using assms(4) by simp
    have "fieldsValue (nexts n ?c) = next_row names (rows ! k) []"
      using nexts_row [of k ?c] k Suc by (simp add: queryFields_def fr vec)
    then show ?thesis
      using next_row_values [OF assms(1), of "rows ! k"] assms(3) k Suc by simp
  qed
qed

theorem cursor_reads_every_row_witness:
  "om_lookup id (fieldsValue (nexts 1 (queryFields [''mid'', ''name'']
     (SQLConnector_new\<lparr>myResult := map Some [''7'', ''a''] # [[Some ''8'', None]]\<rparr>)))) ''mid'' = Some ''8''"
  using cursor_reads_every_row [of "[''mid'', ''name'']" "[''7'', ''a'']" "[[Some ''8'', None]]" 1 SQLConnector_new]
  by (simp add: row_values_def)

text \<open>A NULL in the first row shifts the columns of all following rows: the name of the next
  column is given the value of the column that was NULL.\<close>

theorem null_in_first_row_shifts_columns:
  assumes "distinct names" and "length vs = length names" and "length row = Suc (length names)"
  shows "om_lookup id (fieldsValue (queryNext (queryFields (f # names)
      (c\<lparr>myResult := (None # map Some vs) # row # rows\<rparr>)))) = row_values names (butlast row)"
proof -
  obtain vec d where fr: "first_row names (map Some vs) ([], []) = (vec, d)"
    by fastforce
  then have "vec = names"
    using first_row_full [OF assms(2), of "[]" "[]"] by simp
  then show ?thesis
    using next_row_values [OF assms(1), of "butlast row"] next_row_take [of names row] assms(3)
    by (simp add: queryFields_def queryNext_def fr butlast_conv_take)
qed

theorem null_in_first_row_shifts_columns_witness:
  "om_lookup id (fieldsValue (queryNext (queryFields [''bankid'', ''mid'']
      (SQLConnector_new\<lparr>myResult := (None # map Some [''7'']) # [Some ''3'', Some ''8''] # []\<rparr>)))) ''mid'' = Some ''3''"
  using null_in_first_row_shifts_columns [where names = "[''mid'']" and vs = "[''7'']" and
      row = "[Some ''3'', Some ''8'']" and f = "''bankid''" and c = SQLConnector_new and rows = "[]"]
  by (simp add: row_values_def)

end
