(* ===== verification/MatchFactory.thy ===== *)
theory MatchFactory
  imports SQLConnector CSMatchManager
begin

text \<open>
  CPGMatchCreateFactory.cpp, which creates matches and stores them in the database, and the
  database side of the match manager, CSMatchManager+AsyncDBHandler.cpp. The JSON of the match
  configuration is a parameter: a match is given with its fields already read. The database is
  the parameter of SQLConnector; \<open>exec\<close> below is \<open>execQuery\<close> with its library arguments.
\<close>

type_synonym 'd exec = "string \<Rightarrow> SQLConnector \<times> 'd \<Rightarrow> (int \<times> SQLConnector \<times> 'd) result"

definition INVALID_MID :: int32_w where
  "INVALID_MID = - 1"

definition query_mid_sql :: "CPGMatchProfile \<Rightarrow> string" where
  "query_mid_sql p =
     ''SELECT mid FROM match_infos WHERE '' @ '' start_time='' @ int_text (start_time p) @
     '' AND match_type='' @ int_text (match_type p) @ '' limit 1;''"

definition queryMatchMid :: "'d exec \<Rightarrow> CPGMatchProfile \<Rightarrow> SQLConnector \<times> 'd \<Rightarrow> (int32_w \<times> SQLConnector \<times> 'd) result" where
  "queryMatchMid exec p cd =
     rbind (exec (query_mid_sql p) cd) (\<lambda>(ret, c, d).
       if ret \<noteq> 0 then Inr (INVALID_MID, c, d)
       else if totalRows c = 1 then Inr (fieldData_int ''mid'' INVALID_MID c, c, d)
       else Inr (INVALID_MID, c, d))"

text \<open>The two column lists of the INSERT, separated by commas but for the last.\<close>

fun column_list :: "dict \<Rightarrow> string \<times> string" where
  "column_list [] = ([], [])"
| "column_list [(k, v)] = (k, [CHR 0x27] @ v @ [CHR 0x27])"
| "column_list ((k, v) # rest) =
     (let (ks, vs) = column_list rest
      in (k @ '','' @ ks, [CHR 0x27] @ v @ [CHR 0x27] @ '','' @ vs))"

definition insert_sql :: "CPGMatchProfile \<Rightarrow> string" where
  "insert_sql p =
     (let (ks, vs) = column_list (structConvertMap p)
      in ''INSERT INTO match_infos ( '' @ ks @ '' ) '' @ '' VALUES ( '' @ vs @ '' ); '')"

definition createAndStoreMatch :: "'d exec \<Rightarrow> CPGMatchProfile \<Rightarrow> SQLConnector \<times> 'd \<Rightarrow> (int32_w \<times> SQLConnector \<times> 'd) result" where
  "createAndStoreMatch exec p cd =
     rbind (exec (insert_sql p) cd) (\<lambda>(ret, c, d). queryMatchMid exec p (c, d))"

definition checkValidMatch :: "'d exec \<Rightarrow> CPGMatchProfile \<Rightarrow> SQLConnector \<times> 'd \<Rightarrow> ((bool \<times> int32_w) \<times> SQLConnector \<times> 'd) result" where
  "checkValidMatch exec p cd =
     rbind (queryMatchMid exec p cd) (\<lambda>(i, c, d). Inr ((i = INVALID_MID, i), c, d))"

definition checkValidAndStore :: "'d exec \<Rightarrow> CPGMatchProfile \<Rightarrow> SQLConnector \<times> 'd \<Rightarrow> ((bool \<times> int32_w) \<times> SQLConnector \<times> 'd) result" where
  "checkValidAndStore exec p cd =
     rbind (queryMatchMid exec p cd) (\<lambda>(i, c, d).
       rbind (if i = INVALID_MID
              then rbind (createAndStoreMatch exec p (c, d)) (\<lambda>(i', c', d'). Inr (True, i', c', d'))
              else Inr (False, i, c, d)) (\<lambda>(res, i1, c1, d1).
         if i1 = INVALID_MID
         then rbind (queryMatchMid exec p (c1, d1)) (\<lambda>(i2, c2, d2). Inr ((res, i2), c2, d2))
         else Inr ((res, i1), c1, d1)))"

definition factory_createMatch :: "'d exec \<Rightarrow> CPGMatchProfile \<Rightarrow> SQLConnector \<times> 'd \<Rightarrow> (CPGMatchProfile option \<times> SQLConnector \<times> 'd) result" where
  "factory_createMatch exec p cd =
     rbind (checkValidAndStore exec p cd) (\<lambda>((res, i), c, d).
       Inr (if res then Some (p\<lparr>mid := i\<rparr>) else None, c, d))"

text \<open>
  The profile \<open>createMatch(json)\<close> builds from the fields it reads: it starts at the first blind
  level, and an entry pool of 0 is the whole entry fee.
\<close>

definition config_profile :: "CPGMatchProfile \<Rightarrow> CPGMatchProfile" where
  "config_profile js =
     (let p = CPGMatchProfile_new\<lparr>
        start_time := start_time js, name := name js, start_condition := start_condition js,
        min_players_amount := min_players_amount js, max_players_amount := max_players_amount js,
        first_blind_level := first_blind_level js, entryfee := entryfee js,
        operator_time := operator_time js, init_chips_amount := init_chips_amount js,
        increase_blind_time := increase_blind_time js, reward_type := reward_type js,
        entry_pool := entry_pool js, reward_coin := reward_coin js, bonusid := bonusid js,
        guarantee_person := guarantee_person js, match_type := match_type js,
        stop_condition := stop_condition js, delay_join_level := delay_join_level js,
        finish_condition := finish_condition js, finish_param := finish_param js,
        current_blind_level := first_blind_level js\<rparr>
      in if entry_pool p = 0 then p\<lparr>entry_pool := entryfee p\<rparr> else p)"

definition createMatch_json :: "'d exec \<Rightarrow> CPGMatchProfile \<Rightarrow> SQLConnector \<times> 'd \<Rightarrow> (CPGMatchProfile option \<times> SQLConnector \<times> 'd) result" where
  "createMatch_json exec js cd = factory_createMatch exec (config_profile js) cd"

fun loadFromFile :: "'d exec \<Rightarrow> CPGMatchProfile list \<Rightarrow> SQLConnector \<times> 'd \<Rightarrow> (CPGMatchProfile list \<times> SQLConnector \<times> 'd) result" where
  "loadFromFile exec [] cd = Inr ([], cd)"
| "loadFromFile exec (js # rest) cd =
     rbind (createMatch_json exec js cd) (\<lambda>(p, cd1).
       rbind (loadFromFile exec rest cd1) (\<lambda>(ps, cd2).
         Inr (case p of None \<Rightarrow> ps | Some q \<Rightarrow> q # ps, cd2)))"

definition load_sql :: "int \<Rightarrow> string" where
  "load_sql now =
     ''SELECT * FROM match_infos WHERE '' @ ''start_time > '' @ to_string now @ '' AND '' @
     '' match_state < '' @ to_string 6 @ '' ;''"

fun read_rows :: "nat \<Rightarrow> SQLConnector \<Rightarrow> CPGMatchProfile list \<times> SQLConnector" where
  "read_rows 0 c = ([], c)"
| "read_rows (Suc n) c =
     (let p = mapConvertStruct (fieldsValue c) CPGMatchProfile_new;
          (ps, c') = read_rows n (queryNext c)
      in (p # ps, c'))"

definition loadFromDB :: "'d exec \<Rightarrow> int \<Rightarrow> SQLConnector \<times> 'd \<Rightarrow> (CPGMatchProfile list \<times> SQLConnector \<times> 'd) result" where
  "loadFromDB exec now cd =
     rbind (exec (load_sql now) cd) (\<lambda>(ret, c, d).
       if ret \<noteq> 0 then Inr ([], c, d)
       else let (ps, c') = read_rows (totalRows c) c in Inr (ps, c', d))"

definition factory_initialize ::
    "'d exec \<Rightarrow> int \<Rightarrow> CPGMatchProfile list \<Rightarrow> SQLConnector \<times> 'd \<Rightarrow> ((int, CPGMatchProfile) omap \<times> SQLConnector \<times> 'd) result" where
  "factory_initialize exec now config cd =
     rbind (loadFromDB exec now cd) (\<lambda>(old, cd1).
       rbind (loadFromFile exec config cd1) (\<lambda>(new, cd2).
         Inr (fold (\<lambda>p. om_assign id (sint (mid p)) p) (old @ new) [], cd2)))"

section \<open>The database thread\<close>

text \<open>The statement a request of the manager turns into, and the created match it reports back.\<close>

definition cancel_sql :: "int \<Rightarrow> int \<Rightarrow> string" where
  "cancel_sql now i =
     ''UPDATE match_infos SET '' @ '' end_time='' @ to_string now @ '' , '' @ ''match_state'' @ ''='' @
     to_string ENUM_STATE_CANCEL @ '' WHERE mid='' @ to_string i"

fun assignments :: "dict \<Rightarrow> string" where
  "assignments [] = []"
| "assignments [(k, v)] = k @ ''='' @ [CHR 0x27] @ v @ [CHR 0x27]"
| "assignments ((k, v) # rest) = k @ ''='' @ [CHR 0x27] @ v @ [CHR 0x27] @ '', '' @ assignments rest"

definition update_sql :: "int \<Rightarrow> dict \<Rightarrow> string" where
  "update_sql i props = ''UPDATE match_infos SET '' @ assignments props @ '' WHERE mid='' @ to_string i"

definition create_match_db :: "'d exec \<Rightarrow> dict \<Rightarrow> SQLConnector \<times> 'd \<Rightarrow> (CPGMatchProfile \<times> SQLConnector \<times> 'd) result" where
  "create_match_db exec props cd =
     (let p = mapConvertStruct (fold (\<lambda>(k, v). om_assign id k v) props []) CPGMatchProfile_new
      in rbind (createAndStoreMatch exec p cd) (\<lambda>(i, cd'). Inr (p\<lparr>mid := i\<rparr>, cd')))"

fun dbAsyncHandler ::
    "'d exec \<Rightarrow> int \<Rightarrow> mm_effect \<Rightarrow> SQLConnector \<times> 'd \<Rightarrow> (CPGMatchProfile list \<times> SQLConnector \<times> 'd) result" where
  "dbAsyncHandler exec now (CancelMatchRQ i reason) cd =
     rbind (exec (cancel_sql now i) cd) (\<lambda>(_, cd'). Inr ([], cd'))"
| "dbAsyncHandler exec now (UpdateMatchRQ i props) cd =
     rbind (exec (update_sql i props) cd) (\<lambda>(_, cd'). Inr ([], cd'))"
| "dbAsyncHandler exec now (CreateMatchRQ props pid) cd =
     rbind (create_match_db exec props cd) (\<lambda>(p, cd'). Inr ([p], cd'))"
| "dbAsyncHandler exec now (ChangedMatchMap _) cd = Inr ([], cd)"

section \<open>Properties\<close>

lemma fold_assign_keyed:
  "om_ok id m \<Longrightarrow> \<forall>e \<in> set m. fst e = f (snd e) \<Longrightarrow>
     om_ok id (fold (\<lambda>p. om_assign id (f p) p) ps m) \<and>
     (\<forall>e \<in> set (fold (\<lambda>p. om_assign id (f p) p) ps m). fst e = f (snd e))"
proof (induction ps arbitrary: m)
  case (Cons p ps)
  have ok: "om_ok id (om_assign id (f p) p m)"
    using Cons.prems(1) by (rule om_assign_ok)
  have "fst e = f (snd e)" if "e \<in> set (om_assign id (f p) p m)" for e
  proof -
    have "om_find id (fst e) (om_assign id (f p) p m) = Some e"
      using that om_find_iff [OF ok] by simp
    then have found: "(if fst e = f p then Some (case om_find id (fst e) m of None \<Rightarrow> (f p, p) | Some e \<Rightarrow> (fst e, p))
        else om_find id (fst e) m) = Some e"
      by (simp only: om_find_assign_id [OF Cons.prems(1)])
    show ?thesis
    proof (cases "fst e = f p")
      case True
      then have "snd e = p"
        using found by (cases "om_find id (fst e) m") auto
      then show ?thesis
        using True by simp
    next
      case False
      then have "e \<in> set m"
        using found om_find_SomeD [of id "fst e" m e] by simp
      then show ?thesis
        using Cons.prems(2) by blast
    qed
  qed
  then show ?case
    using Cons.IH [OF ok] by (simp del: id_apply)
qed simp

text \<open>The matches the factory hands to the manager at start are an ordered map in which every
  profile is stored under its own mid, whatever the database and the configuration say.\<close>

theorem factory_matches_keyed_by_mid:
  assumes "factory_initialize exec now config cd = Inr (ms, cd')"
  shows "om_ok id ms \<and> (\<forall>e \<in> set ms. fst e = sint (mid (snd e)))"
proof -
  obtain ps where "ms = fold (\<lambda>p. om_assign id (sint (mid p)) p) ps []"
    using assms by (auto simp: factory_initialize_def simp del: fold_append)
  then show ?thesis
    using fold_assign_keyed [of "[]" "\<lambda>p. sint (mid p)" ps] by simp
qed

text \<open>A database that knows one match and accepts every statement.\<close>

definition one_match_db :: "unit query" where
  "one_match_db stmt d =
     ((0, if take 6 stmt = ''SELECT'' then Some ([''mid'', ''match_state''], [[Some ''5'', Some ''1'']]) else None), d)"

definition sample_exec :: "unit exec" where
  "sample_exec = execQuery True (\<lambda>_. True) one_match_db"

lemma sample_initialize:
  "(case factory_initialize sample_exec 0 [] (SQLConnector_new\<lparr>mysql := True\<rparr>, ()) of
     Inl _ \<Rightarrow> [] | Inr (ms, _) \<Rightarrow> map fst ms) = [5]"
  by code_simp

theorem factory_matches_keyed_by_mid_witness:
  "\<exists>ms cd'. factory_initialize sample_exec 0 [] (SQLConnector_new\<lparr>mysql := True\<rparr>, ()) = Inr (ms, cd') \<and>
     map fst ms = [5] \<and> map (sint \<circ> mid \<circ> snd) ms = [5]"
proof -
  obtain ms cd' where ms: "factory_initialize sample_exec 0 [] (SQLConnector_new\<lparr>mysql := True\<rparr>, ()) = Inr (ms, cd')"
      "map fst ms = [5]"
    using sample_initialize by (auto split: sum.splits prod.splits)
  then show ?thesis
    using factory_matches_keyed_by_mid [OF ms(1)]
    by (intro exI [of _ ms] exI [of _ cd']) auto
qed

text \<open>The request that changing a match queues for the database names no match: whichever match
  is changed, the statement that runs updates the row with mid 0.\<close>

theorem update_statement_names_mid_0:
  assumes "getMatch i m = Some p"
  shows "\<exists>m' props'. updateMatch i props m = (kNoneError, m', [UpdateMatchRQ 0 props']) \<and>
    dbAsyncHandler exec now (UpdateMatchRQ 0 props') cd =
      rbind (exec (''UPDATE match_infos SET '' @ assignments props' @ '' WHERE mid=0'') cd) (\<lambda>(_, cd'). Inr ([], cd'))"
  using assms by (simp add: updateMatch_def Let_def update_sql_def to_string_0)

theorem update_statement_names_mid_0_witness:
  "\<exists>m' props'. updateMatch 5 [(''entryfee'', ''9'')] (running_on 1) = (kNoneError, m', [UpdateMatchRQ 0 props']) \<and>
    dbAsyncHandler sample_exec 0 (UpdateMatchRQ 0 props') (SQLConnector_new, ()) =
      rbind (sample_exec (''UPDATE match_infos SET '' @ assignments props' @ '' WHERE mid=0'') (SQLConnector_new, ()))
        (\<lambda>(_, cd'). Inr ([], cd'))"
  by (rule update_statement_names_mid_0) (rule running_on_simps)

end
