(* ===== verification/ServerMessages.thy ===== *)
theory ServerMessages
  imports Prelude NetPacket "HOL-Library.AList"
begin

text \<open>
  What the servers say to each other. A protocol buffer message is a value of a datatype with the
  fields of its definition (CPGServer.proto, CPGClientServer.proto); a handler is given the
  parsed message, \<open>None\<close> when \<open>parseProtoMsg\<close> fails. The calls a handler makes to its session
  manager are the commands it returns, in order: a message to one session, to the session with
  a uuid, or to all sessions of a type, with the message id and the \<open>extraID\<close> of the header; or
  a packet that is passed on unread.

  An \<open>unordered_map\<close> is an association list in the order in which it is iterated; nothing that
  is proved depends on where the library puts a new entry.
\<close>

section \<open>Constants\<close>

definition ServerType_Client :: int where "ServerType_Client = 0"
definition ServerType_GateServer :: int where "ServerType_GateServer = 1"
definition ServerType_LoginServer :: int where "ServerType_LoginServer = 2"
definition ServerType_MatchServer :: int where "ServerType_MatchServer = 3"
definition ServerType_BalanceServer :: int where "ServerType_BalanceServer = 4"
definition ServerType_CentralServer :: int where "ServerType_CentralServer = 5"

lemmas server_types = ServerType_Client_def ServerType_GateServer_def ServerType_LoginServer_def
  ServerType_MatchServer_def ServerType_BalanceServer_def ServerType_CentralServer_def

definition kServerRegistRQ :: int where "kServerRegistRQ = 5001"
definition kServerRegistRS :: int where "kServerRegistRS = 5002"
definition kCheckMatchDistributeRQ :: int where "kCheckMatchDistributeRQ = 5003"
definition kCheckMatchDistributeRS :: int where "kCheckMatchDistributeRS = 5004"
definition kServerNewServicesNotify :: int where "kServerNewServicesNotify = 5005"
definition kServerAllMatchDistributeNotify :: int where "kServerAllMatchDistributeNotify = 5006"
definition kServerMatchDistributeNotify :: int where "kServerMatchDistributeNotify = 5007"
definition kClientLoginRQ :: int where "kClientLoginRQ = 10001"
definition kClientLoginRS :: int where "kClientLoginRS = 10002"
definition kMatchListRQ :: int where "kMatchListRQ = 11001"
definition kMatchListRS :: int where "kMatchListRS = 11001"
definition kJoinMatchRQ :: int where "kJoinMatchRQ = 15001"
definition kJoinMatchRS :: int where "kJoinMatchRS = 15002"
definition kUnjoinMatchRQ :: int where "kUnjoinMatchRQ = 15003"
definition kUnjoinMatchRS :: int where "kUnjoinMatchRS = 15004"
definition kClientConnectRQ :: int where "kClientConnectRQ = 17001"
definition kClientConnectRS :: int where "kClientConnectRS = 17002"
definition kHeartBeatRQ :: int where "kHeartBeatRQ = 20101"
definition kHeartBeatRS :: int where "kHeartBeatRS = 20102"

lemmas message_ids = kServerRegistRQ_def kServerRegistRS_def kCheckMatchDistributeRQ_def
  kCheckMatchDistributeRS_def kServerNewServicesNotify_def kServerAllMatchDistributeNotify_def
  kServerMatchDistributeNotify_def kClientLoginRQ_def kClientLoginRS_def kMatchListRQ_def
  kMatchListRS_def kJoinMatchRQ_def kJoinMatchRS_def kUnjoinMatchRQ_def kUnjoinMatchRS_def
  kClientConnectRQ_def kClientConnectRS_def kHeartBeatRQ_def kHeartBeatRS_def

definition INVALID_LID :: int where "INVALID_LID = - 1"

section \<open>Messages\<close>

record ConnServer =
  cs_type :: int
  cs_port :: int
  cs_sid :: int
  cs_ip :: string

record ServerRegisterRQ =
  rq_sid :: int
  rq_type :: int
  rq_connectTypes :: "int list"
  rq_listeners :: "ConnServer list"

record MatchBriefInfo =
  b_mid :: int
  b_time :: int
  b_totalPlayer :: int
  b_remainedPlayer :: int
  b_state :: int
  b_curLevel :: int
  b_entryfee :: int

datatype message =
    RegisterRS int int "ConnServer list"
  | RegisterRQ ServerRegisterRQ
  | NewConnServiceNotify "ConnServer list"
  | ConnectRS int int string
  | ServiceMatchDistibuteNotify int "int list"
  | ServerAllMatchDistributeNotify "(int \<times> int list) list"
  | CheckMatchDistributeRQ int int "int list"
  | CheckMatchDistributeRS int int int "int list"
  | MatchListRS int int "MatchBriefInfo list"
  | JoinMatchRS int int int int int
  | UnjoinMatchRS int int int int int
  | LoginRS int
  | JoinMatchRQ int int int
  | UnjoinMatchRQ int int int
  | MatchListRQ int
  | LoginRQ int string
  | ConnectRQ int

text \<open>A session, as the kernels see it: its uuid is its identity, its type and logic id are read.\<close>

record session_ref =
  ref_uuid :: int
  ref_type :: int
  ref_logicID :: int

datatype dest = ToSession int | ToUuid int | ToType int

datatype command =
    Send dest int message int
  | Forward dest PacketHeader "byte list"
  | SetLogicID int int
  | UnenableRetry int

end
