(* ===== verification/CSKernel.thy ===== *)
theory CSKernel
  imports ServerMessages CSMatchManager
begin

text \<open>
  CSKernel.cpp: the register of the servers of the cluster, and the sessions of the central
  server that feed it (BalanceSession, GateSession, MatchSession and LoginSession). The state
  holds the register and the match manager.

  The register maps an id to a shared pointer. Reading an absent key with \<open>[]\<close> stores a null
  pointer there, so an entry is an option; calling through a null entry is \<open>Inl NullDeref\<close>.
\<close>

record Listener =
  l_type :: int
  l_port :: int
  l_ip :: string

record ServerInfo =
  si_type :: int
  si_sid :: int
  si_connectTimes :: int
  si_lastHeartTimes :: int
  si_loaded :: int
  si_listeners :: "Listener list"
  si_connectTypes :: "int list"

definition ServerInfo_new :: ServerInfo where
  "ServerInfo_new = \<lparr>si_type = 0, si_sid = 0, si_connectTimes = 0, si_lastHeartTimes = 0,
     si_loaded = 0, si_listeners = [], si_connectTypes = []\<rparr>"

type_synonym register = "(int \<times> ServerInfo option) list"

record CSKernel =
  servers :: register
  matchManager :: CSMatchManager

type_synonym cs_result = "(CSKernel \<times> command list) result"

section \<open>Register\<close>

definition CENTRAL_SID :: int where
  "CENTRAL_SID = 100000000"

definition central_info :: "int \<Rightarrow> Listener list \<Rightarrow> ServerInfo" where
  "central_info now listens = ServerInfo_new\<lparr>si_type := ServerType_CentralServer, si_sid := CENTRAL_SID,
     si_connectTimes := now, si_listeners := map (\<lambda>l. l\<lparr>l_type := l_type l mod 256\<rparr>) listens\<rparr>"

text \<open>\<open>start\<close>: listeners and connectors are opened by the session manager; the register gets the
  central server itself, and the match manager its callback.\<close>

definition cs_start :: "int \<Rightarrow> Listener list \<Rightarrow> CSKernel \<Rightarrow> CSKernel" where
  "cs_start now listens k =
     k\<lparr>matchManager := setChangedMatchMapCB (matchManager k),
       servers := AList.update CENTRAL_SID (Some (central_info now listens)) (servers k)\<rparr>"

definition cs_sessionFactory :: "int \<Rightarrow> int option" where
  "cs_sessionFactory t =
     (if t = ServerType_GateServer then Some ServerType_GateServer
      else if t = ServerType_LoginServer then Some ServerType_LoginServer
      else if t = ServerType_MatchServer then Some ServerType_MatchServer
      else if t = ServerType_BalanceServer then Some ServerType_BalanceServer
      else None)"

definition cs_getService :: "int \<Rightarrow> CSKernel \<Rightarrow> ServerInfo option \<times> CSKernel" where
  "cs_getService s k = (case map_of (servers k) (uint_of s) of
     None \<Rightarrow> (Some ServerInfo_new, k\<lparr>servers := AList.update (uint_of s) (Some ServerInfo_new) (servers k)\<rparr>)
   | Some info \<Rightarrow> (info, k))"

definition removeService :: "int \<Rightarrow> int \<Rightarrow> CSKernel \<Rightarrow> CSKernel result" where
  "removeService now s k = (case map_of (servers k) (uint_of s) of
     None \<Rightarrow> Inr k
   | Some None \<Rightarrow> Inl NullDeref
   | Some (Some info) \<Rightarrow>
       let k1 = (if si_type info = ServerType_MatchServer
                 then k\<lparr>matchManager := removeMatchService now
                   \<lparr>sid = si_sid info, loaded = si_loaded info\<rparr> (matchManager k)\<rparr>
                 else k)
       in Inr (k1\<lparr>servers := AList.delete (uint_of s) (servers k1)\<rparr>))"

section \<open>Registration\<close>

text \<open>The servers of a type, with the listeners meant for the session's type.\<close>

fun conn_servers :: "int \<Rightarrow> int \<Rightarrow> register \<Rightarrow> ConnServer list result" where
  "conn_servers t st [] = Inr []"
| "conn_servers t st ((_, None) # rest) = Inl NullDeref"
| "conn_servers t st ((_, Some info) # rest) =
     rbind (conn_servers t st rest) (\<lambda>cs.
       Inr ((if si_type info = t
             then map (\<lambda>l. \<lparr>cs_type = t, cs_port = l_port l, cs_sid = si_sid info, cs_ip = l_ip l\<rparr>)
                    (filter (\<lambda>l. l_type l = st) (si_listeners info))
             else []) @ cs))"

fun conn_all :: "int list \<Rightarrow> int \<Rightarrow> register \<Rightarrow> ConnServer list result" where
  "conn_all [] st reg = Inr []"
| "conn_all (t # ts) st reg =
     rbind (conn_servers t st reg) (\<lambda>cs. rbind (conn_all ts st reg) (\<lambda>cs'. Inr (cs @ cs')))"

definition serverRegistRS :: "session_ref \<Rightarrow> ServerInfo \<Rightarrow> register \<Rightarrow> command list result" where
  "serverRegistRS session info reg =
     rbind (conn_all (si_connectTypes info) (ref_type session) reg) (\<lambda>conns.
       Inr (Send (ToSession (ref_uuid session)) kServerRegistRS (RegisterRS 0 (si_sid info) conns) 0 #
         map (\<lambda>l. Send (ToType (l_type l)) kServerNewServicesNotify
           (NewConnServiceNotify [\<lparr>cs_type = si_type info, cs_port = l_port l, cs_sid = si_sid info, cs_ip = l_ip l\<rparr>]) 0)
           (si_listeners info)))"

definition sendAllDistributeMatchInfos :: "dest \<Rightarrow> CSKernel \<Rightarrow> command list" where
  "sendAllDistributeMatchInfos d k =
     [Send d kServerAllMatchDistributeNotify
        (ServerAllMatchDistributeNotify (map (\<lambda>(key, mids). (sid key, mids)) (getAllMatchServices (matchManager k)))) 0]"

definition new_info :: "session_ref \<Rightarrow> ServerRegisterRQ \<Rightarrow> ServerInfo" where
  "new_info session rq = ServerInfo_new\<lparr>si_sid := ref_uuid session,
     si_listeners := map (\<lambda>l. \<lparr>l_type = cs_type l mod 256, l_port = cs_port l mod 65536, l_ip = cs_ip l\<rparr>) (rq_listeners rq),
     si_connectTypes := rq_connectTypes rq\<rparr>"

text \<open>
  \<open>rq.sid() >= servers_.size()\<close> compares as unsigned: a negative id is larger than any size.
  The third test, \<open>servers_[rq.sid()] == nullptr\<close>, stores a null entry for an absent key.
\<close>

definition lookup_registered :: "int \<Rightarrow> register \<Rightarrow> ServerInfo option \<times> register" where
  "lookup_registered s reg =
     (if s = INVALID_LID \<or> s < 0 \<or> int (length reg) \<le> s then (None, reg)
      else case map_of reg s of
        None \<Rightarrow> (None, AList.update s None reg)
      | Some info \<Rightarrow> (info, reg))"

definition serverRegistRQ :: "int \<Rightarrow> session_ref \<Rightarrow> ServerRegisterRQ option \<Rightarrow> CSKernel \<Rightarrow> cs_result" where
  "serverRegistRQ now session rq k = (case rq of
     None \<Rightarrow> Inr (k, [Send (ToSession (ref_uuid session)) kServerRegistRS (RegisterRS (- 1) 0 []) 0])
   | Some r \<Rightarrow>
       let (old, reg1) = lookup_registered (rq_sid r) (servers k);
           info0 = (case old of None \<Rightarrow> new_info session r | Some i \<Rightarrow> i);
           key = (case old of None \<Rightarrow> uint_of (ref_uuid session) | Some i \<Rightarrow> rq_sid r);
           set_id = (case old of None \<Rightarrow> [SetLogicID (ref_uuid session) (ref_uuid session)] | Some i \<Rightarrow> []);
           info = info0\<lparr>si_type := ref_type session, si_connectTimes := uint_of (si_connectTimes info0 + 1),
             si_lastHeartTimes := uint_of now\<rparr>;
           reg2 = AList.update key (Some info) reg1;
           k2 = k\<lparr>servers := reg2\<rparr>
       in rbind (serverRegistRS session info reg2) (\<lambda>cmds.
            let k3 = (if ref_type session = ServerType_MatchServer
                      then k2\<lparr>matchManager := updateMatchService now
                        \<lparr>sid = si_sid info, loaded = si_loaded info\<rparr> (matchManager k2)\<rparr>
                      else k2)
            in Inr (k3, set_id @ cmds @
                 (if ref_type session = ServerType_GateServer
                  then sendAllDistributeMatchInfos (ToSession (ref_uuid session)) k3 else []))))"

section \<open>Requests\<close>

fun smallest_gate :: "register \<Rightarrow> int \<Rightarrow> ServerInfo option \<Rightarrow> ServerInfo option result" where
  "smallest_gate [] least best = Inr best"
| "smallest_gate ((_, None) # rest) least best = Inl NullDeref"
| "smallest_gate ((_, Some info) # rest) least best =
     (if si_type info = ServerType_GateServer \<and> least > si_loaded info
      then smallest_gate rest (si_loaded info) (Some info)
      else smallest_gate rest least best)"

definition INT_MAX :: int where
  "INT_MAX = 2 ^ 31 - 1"

definition requestBestGateServer :: "session_ref \<Rightarrow> message option \<Rightarrow> int \<Rightarrow> CSKernel \<Rightarrow> cs_result" where
  "requestBestGateServer session rq extra k =
     rbind (case rq of
        None \<Rightarrow> Inr (ConnectRS (- 1) 0 [])
      | Some _ \<Rightarrow> rbind (smallest_gate (servers k) INT_MAX None) (\<lambda>best.
          Inr (case best of
             None \<Rightarrow> ConnectRS (- 1) 0 []
           | Some info \<Rightarrow> (case find (\<lambda>l. l_type l = ServerType_Client) (si_listeners info) of
               None \<Rightarrow> ConnectRS 0 0 []
             | Some l \<Rightarrow> ConnectRS 0 (l_port l) (l_ip l)))))
       (\<lambda>rs. Inr (k, [Send (ToSession (ref_uuid session)) kClientConnectRS rs extra]))"

fun distribute_each :: "(int, int list) omap \<Rightarrow> CSKernel \<Rightarrow> cs_result" where
  "distribute_each [] k = Inr (k, [])"
| "distribute_each ((s, mids) # rest) k =
     (case cs_getService s k of
        (None, k1) \<Rightarrow> Inl NullDeref
      | (Some info, k1) \<Rightarrow>
          rbind (distribute_each rest k1) (\<lambda>(k2, cmds).
            Inr (k2, Send (ToUuid (si_sid info)) kServerMatchDistributeNotify
              (ServiceMatchDistibuteNotify s mids) 0 # cmds)))"

definition distributeMatch :: "(int, int list) omap \<Rightarrow> CSKernel \<Rightarrow> cs_result" where
  "distributeMatch updateMap k =
     rbind (distribute_each updateMap k) (\<lambda>(k1, cmds).
       Inr (k1, cmds @ sendAllDistributeMatchInfos (ToType ServerType_GateServer) k1))"

text \<open>The reply carries the matches of the request, and only for the code \<open>More\<close>.\<close>

definition checkMatchDistributeRQ :: "int \<Rightarrow> session_ref \<Rightarrow> int list option \<Rightarrow> CSKernel \<Rightarrow> cs_result" where
  "checkMatchDistributeRQ now session rq k = (case rq of
     None \<Rightarrow> Inr (k, [])
   | Some mids \<Rightarrow>
       let lid = ref_logicID session;
           key = \<lparr>sid = lid, loaded = evaluate lid mids\<rparr>;
           (res, mids', mm) = checkServiceDistMap now key mids (matchManager k);
           out = (if res = ErrorMatchServerMore \<or> res = ErrorMatchServerMore then mids' else [])
       in Inr (k\<lparr>matchManager := mm\<rparr>,
            [Send (ToSession (ref_uuid session)) kCheckMatchDistributeRS
               (CheckMatchDistributeRS lid (ref_type session) (check_code res) out) lid]))"

definition brief_info :: "CPGMatchProfile \<Rightarrow> MatchBriefInfo" where
  "brief_info p = \<lparr>b_mid = sint (mid p), b_time = sint (start_time p),
     b_totalPlayer = sint (total_player_amount p), b_remainedPlayer = sint (remained_player_amount p),
     b_state = sint (match_state p), b_curLevel = sint (current_blind_level p), b_entryfee = sint (entryfee p)\<rparr>"

definition matchListRQ :: "session_ref \<Rightarrow> int option \<Rightarrow> int \<Rightarrow> CSKernel \<Rightarrow> cs_result" where
  "matchListRQ session rq extra k = (case rq of
     None \<Rightarrow> Inr (k, [Send (ToSession (ref_uuid session)) kMatchListRS (MatchListRS 0 0 []) extra])
   | Some uid \<Rightarrow> Inr (k, [Send (ToSession (ref_uuid session)) kMatchListRS
       (MatchListRS 0 uid (map brief_info (matchList (matchManager k)))) extra]))"

section \<open>Sessions\<close>

text \<open>
  What arrives at the central server: the message id, the parsed body (\<open>None\<close> when the handler
  of that id cannot parse it), and the \<open>extraID\<close> of the header. Each session type handles the
  ids of its own switch and ignores all others.
\<close>

datatype cs_body = BRegister ServerRegisterRQ | BConnect message | BMatchList int | BCheck "int list"

definition as_register :: "cs_body option \<Rightarrow> ServerRegisterRQ option" where
  "as_register b = (case b of Some (BRegister r) \<Rightarrow> Some r | _ \<Rightarrow> None)"

definition as_connect :: "cs_body option \<Rightarrow> message option" where
  "as_connect b = (case b of Some (BConnect r) \<Rightarrow> Some r | _ \<Rightarrow> None)"

definition as_matchList :: "cs_body option \<Rightarrow> int option" where
  "as_matchList b = (case b of Some (BMatchList u) \<Rightarrow> Some u | _ \<Rightarrow> None)"

definition as_check :: "cs_body option \<Rightarrow> int list option" where
  "as_check b = (case b of Some (BCheck ms) \<Rightarrow> Some ms | _ \<Rightarrow> None)"

definition BalanceSession_handlerMsg :: "int \<Rightarrow> session_ref \<Rightarrow> int \<Rightarrow> cs_body option \<Rightarrow> int \<Rightarrow> CSKernel \<Rightarrow> cs_result" where
  "BalanceSession_handlerMsg now session ty body extra k =
     (if ty = kServerRegistRQ then serverRegistRQ now session (as_register body) k
      else if ty = kClientConnectRQ then requestBestGateServer session (as_connect body) extra k
      else Inr (k, []))"

definition CSGateSession_handlerMsg :: "int \<Rightarrow> session_ref \<Rightarrow> int \<Rightarrow> cs_body option \<Rightarrow> int \<Rightarrow> CSKernel \<Rightarrow> cs_result" where
  "CSGateSession_handlerMsg now session ty body extra k =
     (if ty = kServerRegistRQ then serverRegistRQ now session (as_register body) k
      else if ty = kMatchListRQ then matchListRQ session (as_matchList body) extra k
      else Inr (k, []))"

definition MatchSession_handlerMsg :: "int \<Rightarrow> session_ref \<Rightarrow> int \<Rightarrow> cs_body option \<Rightarrow> int \<Rightarrow> CSKernel \<Rightarrow> cs_result" where
  "MatchSession_handlerMsg now session ty body extra k =
     (if ty = kServerRegistRQ then serverRegistRQ now session (as_register body) k
      else if ty = kCheckMatchDistributeRQ then checkMatchDistributeRQ now session (as_check body) k
      else Inr (k, []))"

definition LoginSession_handlerMsg :: "int \<Rightarrow> session_ref \<Rightarrow> int \<Rightarrow> cs_body option \<Rightarrow> int \<Rightarrow> CSKernel \<Rightarrow> cs_result" where
  "LoginSession_handlerMsg now session ty body extra k =
     (if ty = kServerRegistRQ then serverRegistRQ now session (as_register body) k
      else Inr (k, []))"

definition cs_onClose :: "int \<Rightarrow> session_ref \<Rightarrow> CSKernel \<Rightarrow> CSKernel result" where
  "cs_onClose now session k = removeService now (ref_logicID session) k"

section \<open>The register\<close>

text \<open>No null entries, every id once.\<close>

definition reg_ok :: "register \<Rightarrow> bool" where
  "reg_ok reg \<longleftrightarrow> distinct (map fst reg) \<and> None \<notin> snd ` set reg"

definition infos :: "register \<Rightarrow> ServerInfo list" where
  "infos reg = [i. (_, Some i) \<leftarrow> reg]"

definition gates :: "register \<Rightarrow> ServerInfo list" where
  "gates reg = filter (\<lambda>i. si_type i = ServerType_GateServer) (infos reg)"

lemma infos_simps [simp]:
  "infos [] = []" "infos ((k, Some i) # reg) = i # infos reg" "infos ((k, None) # reg) = infos reg"
  by (simp_all add: infos_def)

lemma gates_simps [simp]:
  "gates [] = []"
  "gates ((k, Some i) # reg) = (if si_type i = ServerType_GateServer then i # gates reg else gates reg)"
  "gates ((k, None) # reg) = gates reg"
  by (simp_all add: gates_def)

lemma smallest_gate_spec:
  "None \<notin> snd ` set reg \<Longrightarrow>
     \<exists>r. smallest_gate reg least best = Inr r \<and>
       ((r = best \<and> (\<forall>i \<in> set (gates reg). least \<le> si_loaded i)) \<or>
        (\<exists>i. r = Some i \<and> i \<in> set (gates reg) \<and> si_loaded i < least \<and>
           (\<forall>j \<in> set (gates reg). si_loaded i \<le> si_loaded j)))"
proof (induction reg least best rule: smallest_gate.induct)
  case (3 k info rest least best)
  then show ?case
  proof (cases "si_type info = ServerType_GateServer \<and> si_loaded info < least")
    case True
    then obtain r where "smallest_gate rest (si_loaded info) (Some info) = Inr r"
      "(r = Some info \<and> (\<forall>i \<in> set (gates rest). si_loaded info \<le> si_loaded i)) \<or>
        (\<exists>i. r = Some i \<and> i \<in> set (gates rest) \<and> si_loaded i < si_loaded info \<and>
           (\<forall>j \<in> set (gates rest). si_loaded i \<le> si_loaded j))"
      using 3 by auto
    then show ?thesis
      using True by fastforce
  next
    case False
    then obtain r where "smallest_gate rest least best = Inr r"
      "(r = best \<and> (\<forall>i \<in> set (gates rest). least \<le> si_loaded i)) \<or>
        (\<exists>i. r = Some i \<and> i \<in> set (gates rest) \<and> si_loaded i < least \<and>
           (\<forall>j \<in> set (gates rest). si_loaded i \<le> si_loaded j))"
      using 3 by auto
    then show ?thesis
      using False by force
  qed
qed simp_all

lemma set_update_snd: "set (AList.update k v al) \<subseteq> insert (k, v) (set al)"
  by (induction al) auto

lemma reg_ok_update: "reg_ok reg \<Longrightarrow> reg_ok (AList.update s (Some info) reg)"
  using set_update_snd [of s "Some info" reg] by (force simp: reg_ok_def distinct_update)

lemma smallest_gate_null: "None \<in> snd ` set reg \<Longrightarrow> smallest_gate reg least best = Inl NullDeref"
  by (induction reg least best rule: smallest_gate.induct) auto

lemma conn_servers_null: "None \<in> snd ` set reg \<Longrightarrow> conn_servers t st reg = Inl NullDeref"
  by (induction t st reg rule: conn_servers.induct) auto

text \<open>The addresses of type \<open>t\<close> that listen for servers of type \<open>st\<close>.\<close>

lemma conn_servers_ok:
  "None \<notin> snd ` set reg \<Longrightarrow> conn_servers t st reg =
     Inr [\<lparr>cs_type = t, cs_port = l_port l, cs_sid = si_sid i, cs_ip = l_ip l\<rparr>.
       i \<leftarrow> filter (\<lambda>i. si_type i = t) (infos reg), l \<leftarrow> filter (\<lambda>l. l_type l = st) (si_listeners i)]"
  by (induction t st reg rule: conn_servers.induct) auto

lemma conn_all_ok:
  "None \<notin> snd ` set reg \<Longrightarrow> \<exists>cs. conn_all ts st reg = Inr cs \<and>
     set cs = {\<lparr>cs_type = si_type i, cs_port = l_port l, cs_sid = si_sid i, cs_ip = l_ip l\<rparr> | i l.
       i \<in> set (infos reg) \<and> si_type i \<in> set ts \<and> l \<in> set (si_listeners i) \<and> l_type l = st}"
proof (induction ts)
  case (Cons t ts)
  then obtain cs where cs: "conn_all ts st reg = Inr cs"
     "set cs = {\<lparr>cs_type = si_type i, cs_port = l_port l, cs_sid = si_sid i, cs_ip = l_ip l\<rparr> | i l.
       i \<in> set (infos reg) \<and> si_type i \<in> set ts \<and> l \<in> set (si_listeners i) \<and> l_type l = st}"
    by blast
  show ?case
    using conn_servers_ok [OF Cons.prems, of t st] cs by (auto simp: cs(2))
qed simp

section \<open>Properties\<close>

definition gate_info :: "int \<Rightarrow> int \<Rightarrow> ServerInfo" where
  "gate_info s load = ServerInfo_new\<lparr>si_type := ServerType_GateServer, si_sid := s, si_loaded := load,
     si_listeners := [\<lparr>l_type = ServerType_Client, l_port = 9000 + s, l_ip = ''10.0.0.1''\<rparr>]\<rparr>"

definition sample_kernel :: CSKernel where
  "sample_kernel = \<lparr>servers = [(1, Some (gate_info 1 7)), (2, Some (gate_info 2 3))], matchManager = CSMatchManager_new 0\<rparr>"

definition sample_ref :: "int \<Rightarrow> int \<Rightarrow> session_ref" where
  "sample_ref u t = \<lparr>ref_uuid = u, ref_type = t, ref_logicID = u\<rparr>"

lemma requestBestGate_spec:
  assumes "reg_ok (servers k)" and "\<forall>i \<in> set (gates (servers k)). si_loaded i < INT_MAX"
  shows "\<exists>rs. requestBestGateServer session (Some rq) extra k =
      Inr (k, [Send (ToSession (ref_uuid session)) kClientConnectRS rs extra]) \<and>
    (gates (servers k) = [] \<longleftrightarrow> rs = ConnectRS (- 1) 0 []) \<and>
    (gates (servers k) \<noteq> [] \<longrightarrow> (\<exists>i \<in> set (gates (servers k)).
       (\<forall>j \<in> set (gates (servers k)). si_loaded i \<le> si_loaded j) \<and>
       rs = (case find (\<lambda>l. l_type l = ServerType_Client) (si_listeners i) of
         None \<Rightarrow> ConnectRS 0 0 [] | Some l \<Rightarrow> ConnectRS 0 (l_port l) (l_ip l))))"
proof -
  obtain r where r: "smallest_gate (servers k) INT_MAX None = Inr r"
      "(r = None \<and> (\<forall>i \<in> set (gates (servers k)). INT_MAX \<le> si_loaded i)) \<or>
        (\<exists>i. r = Some i \<and> i \<in> set (gates (servers k)) \<and> si_loaded i < INT_MAX \<and>
           (\<forall>j \<in> set (gates (servers k)). si_loaded i \<le> si_loaded j))"
    using smallest_gate_spec [of "servers k" INT_MAX None] assms(1) unfolding reg_ok_def by blast
  from r(2) show ?thesis
  proof
    assume none: "r = None \<and> (\<forall>i \<in> set (gates (servers k)). INT_MAX \<le> si_loaded i)"
    then have "gates (servers k) = []"
      using assms(2) by (metis linorder_not_le list.set_intros(1) neq_Nil_conv)
    then show ?thesis
      using none r(1) by (simp add: requestBestGateServer_def)
  next
    assume "\<exists>i. r = Some i \<and> i \<in> set (gates (servers k)) \<and> si_loaded i < INT_MAX \<and>
       (\<forall>j \<in> set (gates (servers k)). si_loaded i \<le> si_loaded j)"
    then obtain i where i: "r = Some i" "i \<in> set (gates (servers k))"
        "\<forall>j \<in> set (gates (servers k)). si_loaded i \<le> si_loaded j"
      by blast
    then have ne: "gates (servers k) \<noteq> []"
      by auto
    let ?rs = "case find (\<lambda>l. l_type l = ServerType_Client) (si_listeners i) of
       None \<Rightarrow> ConnectRS 0 0 [] | Some l \<Rightarrow> ConnectRS 0 (l_port l) (l_ip l)"
    have "?rs \<noteq> ConnectRS (- 1) 0 []"
      by (simp split: option.splits)
    then show ?thesis
      using r(1) i ne by (intro exI [of _ ?rs]) (auto simp: requestBestGateServer_def)
  qed
qed

text \<open>A client that asks for a gate server gets the address of a registered gate server with
  the smallest load, in whatever order the register is iterated, and the result -1 exactly when
  there is none; the reply goes to the asking session with the \<open>extraID\<close> of the request.\<close>

theorem best_gate_is_least_loaded:
  assumes "reg_ok (servers k)" and "\<forall>i \<in> set (gates (servers k)). si_loaded i < INT_MAX"
  shows "\<exists>rs. requestBestGateServer session (Some rq) extra k =
      Inr (k, [Send (ToSession (ref_uuid session)) kClientConnectRS rs extra]) \<and>
    (gates (servers k) = [] \<longleftrightarrow> rs = ConnectRS (- 1) 0 []) \<and>
    (gates (servers k) \<noteq> [] \<longrightarrow> (\<exists>i \<in> set (gates (servers k)).
       (\<forall>j \<in> set (gates (servers k)). si_loaded i \<le> si_loaded j) \<and>
       rs = (case find (\<lambda>l. l_type l = ServerType_Client) (si_listeners i) of
         None \<Rightarrow> ConnectRS 0 0 [] | Some l \<Rightarrow> ConnectRS 0 (l_port l) (l_ip l))))"
  by (rule requestBestGate_spec [OF assms])

theorem best_gate_is_least_loaded_witness:
  "requestBestGateServer (sample_ref 3 4) (Some (ConnectRQ 0)) 8 sample_kernel =
     Inr (sample_kernel, [Send (ToSession 3) kClientConnectRS (ConnectRS 0 9002 ''10.0.0.1'') 8])"
proof -
  have "reg_ok (servers sample_kernel)"
      "\<forall>i \<in> set (gates (servers sample_kernel)). si_loaded i < INT_MAX"
      "gates (servers sample_kernel) = [gate_info 1 7, gate_info 2 3]"
    by (simp_all add: sample_kernel_def reg_ok_def gate_info_def INT_MAX_def ServerInfo_new_def)
  then show ?thesis
    using best_gate_is_least_loaded [of sample_kernel "sample_ref 3 4" "ConnectRQ 0" 8]
    by (auto simp: gate_info_def ServerInfo_new_def sample_ref_def)
qed

text \<open>C31: A server that registers for the first time is entered under the uuid of its session and
  told that id, with exactly the addresses of the registered servers of the types it asked for
  that listen for its own type; the reply is followed by one announcement of each of its
  listeners to the servers of the type it listens for.\<close>

theorem registration_reply:
  assumes "reg_ok (servers k)" and "rq_sid r = INVALID_LID"
  shows "\<exists>k' conns rest. serverRegistRQ now session (Some r) k =
      Inr (k', [SetLogicID (ref_uuid session) (ref_uuid session),
        Send (ToSession (ref_uuid session)) kServerRegistRS (RegisterRS 0 (ref_uuid session) conns) 0] @
        map (\<lambda>l. Send (ToType (cs_type l mod 256)) kServerNewServicesNotify
          (NewConnServiceNotify [\<lparr>cs_type = ref_type session, cs_port = cs_port l mod 65536,
             cs_sid = ref_uuid session, cs_ip = cs_ip l\<rparr>]) 0) (rq_listeners r) @ rest) \<and>
    reg_ok (servers k') \<and> (rest \<noteq> [] \<longrightarrow> ref_type session = ServerType_GateServer) \<and>
    (\<exists>info. map_of (servers k') (uint_of (ref_uuid session)) = Some (Some info) \<and> si_sid info = ref_uuid session) \<and>
    set conns = {\<lparr>cs_type = si_type i, cs_port = l_port l, cs_sid = si_sid i, cs_ip = l_ip l\<rparr> | i l.
       i \<in> set (infos (servers k')) \<and> si_type i \<in> set (rq_connectTypes r) \<and> l \<in> set (si_listeners i) \<and>
       l_type l = ref_type session}"
proof -
  let ?info = "(new_info session r)\<lparr>si_type := ref_type session, si_connectTimes := uint_of 1, si_lastHeartTimes := uint_of now\<rparr>"
  let ?reg = "AList.update (uint_of (ref_uuid session)) (Some ?info) (servers k)"
  have reg: "reg_ok ?reg"
    using assms(1) by (rule reg_ok_update)
  obtain conns where conns: "conn_all (rq_connectTypes r) (ref_type session) ?reg = Inr conns"
     "set conns = {\<lparr>cs_type = si_type i, cs_port = l_port l, cs_sid = si_sid i, cs_ip = l_ip l\<rparr> | i l.
       i \<in> set (infos ?reg) \<and> si_type i \<in> set (rq_connectTypes r) \<and> l \<in> set (si_listeners i) \<and> l_type l = ref_type session}"
    using conn_all_ok [of ?reg "rq_connectTypes r" "ref_type session"] reg unfolding reg_ok_def by blast
  let ?k1 = "k\<lparr>servers := ?reg\<rparr>"
  let ?k' = "if ref_type session = ServerType_MatchServer
    then ?k1\<lparr>matchManager := updateMatchService now \<lparr>sid = ref_uuid session, loaded = 0\<rparr> (matchManager k)\<rparr> else ?k1"
  have look: "lookup_registered (rq_sid r) (servers k) = (None, servers k)"
    using assms(2) by (simp add: lookup_registered_def)
  have regs: "servers ?k' = ?reg"
    by simp
  have call: "serverRegistRQ now session (Some r) k =
      Inr (?k', [SetLogicID (ref_uuid session) (ref_uuid session),
        Send (ToSession (ref_uuid session)) kServerRegistRS (RegisterRS 0 (ref_uuid session) conns) 0] @
        map (\<lambda>l. Send (ToType (cs_type l mod 256)) kServerNewServicesNotify
          (NewConnServiceNotify [\<lparr>cs_type = ref_type session, cs_port = cs_port l mod 65536,
             cs_sid = ref_uuid session, cs_ip = cs_ip l\<rparr>]) 0) (rq_listeners r) @
        (if ref_type session = ServerType_GateServer
         then sendAllDistributeMatchInfos (ToSession (ref_uuid session)) ?k' else []))"
    using conns(1) look
    by (simp add: serverRegistRQ_def serverRegistRS_def Let_def new_info_def ServerInfo_new_def comp_def)
  have entry: "\<exists>info. map_of (servers ?k') (uint_of (ref_uuid session)) = Some (Some info) \<and> si_sid info = ref_uuid session"
    unfolding regs by (simp add: update_conv' new_info_def)
  have reg': "reg_ok (servers ?k')"
    unfolding regs by (rule reg)
  show ?thesis
    by (rule exI [of _ ?k'], rule exI [of _ conns], rule exI, intro conjI, rule call, rule reg', simp,
        rule entry, unfold regs, rule conns(2))
qed

theorem registration_reply_witness:
  "\<exists>k' conns rest. serverRegistRQ 5 (sample_ref 3 2) (Some \<lparr>rq_sid = INVALID_LID, rq_type = 3,
      rq_connectTypes = [1], rq_listeners = []\<rparr>) sample_kernel =
    Inr (k', [SetLogicID 3 3, Send (ToSession 3) kServerRegistRS (RegisterRS 0 3 conns) 0] @ rest)"
proof -
  have "reg_ok (servers sample_kernel)"
    by (simp add: sample_kernel_def reg_ok_def)
  from registration_reply [OF this, of "\<lparr>rq_sid = INVALID_LID, rq_type = 3, rq_connectTypes = [1], rq_listeners = []\<rparr>"
      5 "sample_ref 3 2"]
  show ?thesis
    by (auto simp: sample_ref_def)
qed



text \<open>The new match list of a service that the register does not have (any more) is sent to the
  session with uuid 0, whoever that is.\<close>

theorem unknown_service_list_goes_to_session_0:
  assumes "map_of (servers k) (uint_of s) = None"
  shows "\<exists>k' cmds. distributeMatch [(s, mids)] k =
    Inr (k', Send (ToUuid 0) kServerMatchDistributeNotify (ServiceMatchDistibuteNotify s mids) 0 # cmds) \<and>
    map_of (servers k') (uint_of s) = Some (Some ServerInfo_new)"
  using assms by (simp add: distributeMatch_def cs_getService_def ServerInfo_new_def update_conv')

theorem unknown_service_list_goes_to_session_0_witness:
  "\<exists>k' cmds. distributeMatch [(7, [4])] sample_kernel =
    Inr (k', Send (ToUuid 0) kServerMatchDistributeNotify (ServiceMatchDistibuteNotify 7 [4]) 0 # cmds)"
  using unknown_service_list_goes_to_session_0 [of sample_kernel 7 "[4]"]
  by (auto simp: sample_kernel_def uint_of_def)

end
