(* ===== verification/ServiceKernel.thy ===== *)
theory ServiceKernel
  imports ServerMessages
begin

text \<open>
  ServiceKernel.cpp: the connections a server has opened to other servers, by the uuid of the
  session. The kernels of the gate, match, login and balance servers derive from it; their states
  extend its record, and the virtual functions they override are parameters: \<open>connect\<close> opens a
  session for a type (\<open>connectService\<close>), \<open>upd\<close> is \<open>updateServiceConnect\<close>.
\<close>

datatype ServiceState = kConnect | kUpdate | kClose

record ServiceConfig =
  sc_type :: int
  sc_port :: int
  sc_sid :: int
  sc_ip :: string
  sc_session :: "session_ref option"

record ServiceKernel =
  connectServices :: "(int \<times> ServiceConfig) list"

text \<open>Shared pointers to sessions are equal when they point to the same session.\<close>

definition same_session :: "session_ref option \<Rightarrow> session_ref \<Rightarrow> bool" where
  "same_session p s = (case p of None \<Rightarrow> False | Some q \<Rightarrow> ref_uuid q = ref_uuid s)"

definition same_service :: "ServiceConfig \<Rightarrow> ServiceConfig \<Rightarrow> bool" where
  "same_service c d \<longleftrightarrow> sc_type c = sc_type d \<and> sc_port c = sc_port d \<and> sc_ip c = sc_ip d"

definition checkConnectService :: "ServiceConfig \<Rightarrow> 'a ServiceKernel_scheme \<Rightarrow> int" where
  "checkConnectService config k =
     (case find (\<lambda>e. same_service (snd e) config) (connectServices k) of None \<Rightarrow> - 1 | Some e \<Rightarrow> fst e)"

definition connectServiceSession :: "int \<Rightarrow> 'a ServiceKernel_scheme \<Rightarrow> session_ref option" where
  "connectServiceSession s k =
     (case find (\<lambda>e. sc_sid (snd e) = s) (connectServices k) of None \<Rightarrow> None | Some e \<Rightarrow> sc_session (snd e))"

definition connectSession :: "int \<Rightarrow> 'a ServiceKernel_scheme \<Rightarrow> session_ref option" where
  "connectSession u k = (case map_of (connectServices k) u of None \<Rightarrow> None | Some c \<Rightarrow> sc_session c)"

definition addNewConnect ::
    "(session_ref \<Rightarrow> ServiceState \<Rightarrow> 'a ServiceKernel_scheme \<Rightarrow> 'a ServiceKernel_scheme) \<Rightarrow>
     (int \<Rightarrow> session_ref option) \<Rightarrow> int \<Rightarrow> int \<Rightarrow> int \<Rightarrow> string \<Rightarrow>
     'a ServiceKernel_scheme \<Rightarrow> ('a ServiceKernel_scheme \<times> command list) result" where
  "addNewConnect upd connect t port s ip k =
     (let config = \<lparr>sc_type = t, sc_port = port, sc_sid = s, sc_ip = ip, sc_session = None\<rparr>;
          u = checkConnectService config k
      in if u = - 1 \<or> s = - 1
         then case connect t of
           None \<Rightarrow> Inl NullDeref
         | Some session \<Rightarrow>
             Inr (upd session kConnect (k\<lparr>connectServices :=
               AList.update (ref_uuid session) (config\<lparr>sc_session := Some session\<rparr>) (connectServices k)\<rparr>), [])
         else case map_of (connectServices k) u of
           None \<Rightarrow> Inl NullDeref
         | Some old \<Rightarrow> (case sc_session old of
             None \<Rightarrow> Inl NullDeref
           | Some session \<Rightarrow>
               let session' = session\<lparr>ref_logicID := s\<rparr>
               in Inr (upd session' kUpdate (k\<lparr>connectServices :=
                    AList.update u (old\<lparr>sc_sid := s, sc_session := Some session'\<rparr>) (connectServices k)\<rparr>),
                    [SetLogicID (ref_uuid session) s])))"

definition removeServiceSession ::
    "(session_ref \<Rightarrow> ServiceState \<Rightarrow> 'a ServiceKernel_scheme \<Rightarrow> 'a ServiceKernel_scheme) \<Rightarrow> int \<Rightarrow>
     'a ServiceKernel_scheme \<Rightarrow> 'a ServiceKernel_scheme result" where
  "removeServiceSession upd u k = (case map_of (connectServices k) u of
     None \<Rightarrow> Inr k
   | Some c \<Rightarrow> (case sc_session c of
       None \<Rightarrow> Inl NullDeref
     | Some session \<Rightarrow>
         let k1 = upd session kClose k
         in Inr (k1\<lparr>connectServices := AList.delete u (connectServices k1)\<rparr>)))"

text \<open>
  \<open>netInitializer\<close>: the listeners are opened by the session manager; every configured connection
  is made with an unknown id. \<open>addNewConnect\<close> takes its type as \<open>short\<close> and its port as
  \<open>unsigned short\<close>. \<open>connect n\<close> opens the \<open>n\<close>-th session.
\<close>

definition short_of :: "int \<Rightarrow> int" where
  "short_of t = sint (word_of_int t :: int16_w)"

definition ushort_of :: "int \<Rightarrow> int" where
  "ushort_of p = p mod 2 ^ 16"

fun connect_all ::
    "(session_ref \<Rightarrow> ServiceState \<Rightarrow> 'a ServiceKernel_scheme \<Rightarrow> 'a ServiceKernel_scheme) \<Rightarrow>
     (nat \<Rightarrow> int \<Rightarrow> session_ref option) \<Rightarrow> ConnServer list \<Rightarrow> nat \<Rightarrow>
     'a ServiceKernel_scheme \<Rightarrow> ('a ServiceKernel_scheme \<times> command list) result" where
  "connect_all upd connect [] n k = Inr (k, [])"
| "connect_all upd connect (c # cs) n k =
     rbind (addNewConnect upd (connect n) (short_of (cs_type c)) (ushort_of (cs_port c)) (cs_sid c) (cs_ip c) k)
       (\<lambda>(k1, cmds1). rbind (connect_all upd connect cs (Suc n) k1) (\<lambda>(k2, cmds2). Inr (k2, cmds1 @ cmds2)))"

definition netInitializer where
  "netInitializer upd connect connectInfos k =
     connect_all upd connect (map (\<lambda>c. c\<lparr>cs_sid := INVALID_LID\<rparr>) connectInfos) 0 k"

section \<open>Invariant\<close>

text \<open>Every connection is stored once, under the uuid of its own session.\<close>

definition sk_ok :: "'a ServiceKernel_scheme \<Rightarrow> bool" where
  "sk_ok k \<longleftrightarrow> distinct (map fst (connectServices k)) \<and>
     (\<forall>e \<in> set (connectServices k). fst e \<noteq> - 1 \<and> (\<exists>session. sc_session (snd e) = Some session \<and> ref_uuid session = fst e))"

text \<open>What an override of \<open>updateServiceConnect\<close> must leave alone.\<close>

locale service_callback =
  fixes upd :: "session_ref \<Rightarrow> ServiceState \<Rightarrow> 'a ServiceKernel_scheme \<Rightarrow> 'a ServiceKernel_scheme"
  assumes upd_keeps: "connectServices (upd session st k) = connectServices k"
begin

lemma set_update_entry: "e \<in> set (AList.update u c al) \<Longrightarrow> e = (u, c) \<or> e \<in> set al"
  by (induction al) (auto split: if_splits)

lemma upd_ok: "sk_ok (upd session st k) = sk_ok k"
  by (simp add: sk_ok_def upd_keeps)

lemma update_ok:
  assumes "sk_ok k" and "sc_session c = Some session" and "ref_uuid session = u" and "u \<noteq> - 1"
  shows "sk_ok (k\<lparr>connectServices := AList.update u c (connectServices k)\<rparr>)"
proof -
  have "fst e \<noteq> - 1 \<and> (\<exists>session. sc_session (snd e) = Some session \<and> ref_uuid session = fst e)"
    if "e \<in> set (AList.update u c (connectServices k))" for e
    using set_update_entry [OF that] assms unfolding sk_ok_def by auto
  then show ?thesis
    using assms(1) by (simp add: sk_ok_def distinct_update)
qed

lemma find_entry:
  assumes "sk_ok k" and "find P (connectServices k) = Some e"
  shows "map_of (connectServices k) (fst e) = Some (snd e)" "P e" "fst e \<noteq> - 1"
    "\<exists>session. sc_session (snd e) = Some session \<and> ref_uuid session = fst e"
proof -
  have "e \<in> set (connectServices k)" "P e"
    using assms(2) by (auto simp: find_Some_iff)
  then show "map_of (connectServices k) (fst e) = Some (snd e)" "P e" "fst e \<noteq> - 1"
    "\<exists>session. sc_session (snd e) = Some session \<and> ref_uuid session = fst e"
    using assms(1) by (auto simp: sk_ok_def)
qed

lemma add_ok:
  assumes ok: "sk_ok k" and conn: "\<exists>session. connect t = Some session \<and> ref_uuid session \<noteq> - 1"
  shows "\<exists>k' cmds. addNewConnect upd connect t port s ip k = Inr (k', cmds) \<and> sk_ok k'"
proof -
  let ?config = "\<lparr>sc_type = t, sc_port = port, sc_sid = s, sc_ip = ip, sc_session = None\<rparr>"
  show ?thesis
  proof (cases "checkConnectService ?config k = - 1 \<or> s = - 1")
    case True
    obtain session where session: "connect t = Some session" "ref_uuid session \<noteq> - 1"
      using conn by blast
    then show ?thesis
      using True update_ok [OF ok, of "?config\<lparr>sc_session := Some session\<rparr>" session]
      by (simp add: addNewConnect_def Let_def upd_ok)
  next
    case False
    then obtain e where e: "find (\<lambda>e. same_service (snd e) ?config) (connectServices k) = Some e"
      by (auto simp: checkConnectService_def split: option.splits)
    obtain session where session: "sc_session (snd e) = Some session" "ref_uuid session = fst e"
      using find_entry(4) [OF ok e] by blast
    have "sk_ok (k\<lparr>connectServices := AList.update (fst e)
        ((snd e)\<lparr>sc_sid := s, sc_session := Some (session\<lparr>ref_logicID := s\<rparr>)\<rparr>) (connectServices k)\<rparr>)"
      using update_ok [OF ok, of _ "session\<lparr>ref_logicID := s\<rparr>" "fst e"] find_entry(3) [OF ok e] session(2) by simp
    then show ?thesis
      using False e find_entry(1) [OF ok e] session
      by (simp add: addNewConnect_def Let_def checkConnectService_def upd_ok)
  qed
qed

lemma connect_all_ok:
  assumes "sk_ok k" and "\<forall>n t. \<exists>session. connect n t = Some session \<and> ref_uuid session \<noteq> - 1"
  shows "\<exists>k' cmds. connect_all upd connect cs n k = Inr (k', cmds) \<and> sk_ok k'"
  using assms(1)
proof (induction cs arbitrary: n k)
  case (Cons c cs)
  obtain k1 cmds1 where k1: "addNewConnect upd (connect n) (short_of (cs_type c)) (ushort_of (cs_port c)) (cs_sid c)
      (cs_ip c) k = Inr (k1, cmds1)" "sk_ok k1"
    using add_ok [OF Cons.prems, of "connect n" "short_of (cs_type c)" "ushort_of (cs_port c)" "cs_sid c" "cs_ip c"] assms(2)
    by auto
  then show ?case
    using Cons.IH [OF k1(2), of "Suc n"] by auto
qed simp

text \<open>A service that is connected already is not connected again: it gets its new id.\<close>

lemma add_known:
  assumes ok: "sk_ok k" and s: "s \<noteq> - 1"
    and e: "find (\<lambda>e. sc_type (snd e) = t \<and> sc_port (snd e) = port \<and> sc_ip (snd e) = ip) (connectServices k) = Some e"
  shows "\<exists>k' session. addNewConnect upd connect t port s ip k = Inr (k', [SetLogicID (fst e) s]) \<and> sk_ok k' \<and>
    map fst (connectServices k') = map fst (connectServices k) \<and>
    connectSession (fst e) k' = Some session \<and> ref_logicID session = s \<and> ref_uuid session = fst e"
proof -
  let ?config = "\<lparr>sc_type = t, sc_port = port, sc_sid = s, sc_ip = ip, sc_session = None\<rparr>"
  have e': "find (\<lambda>e. same_service (snd e) ?config) (connectServices k) = Some e"
    using e by (simp add: same_service_def)
  obtain session where session: "sc_session (snd e) = Some session" "ref_uuid session = fst e"
    using find_entry(4) [OF ok e'] by blast
  let ?c = "(snd e)\<lparr>sc_sid := s, sc_session := Some (session\<lparr>ref_logicID := s\<rparr>)\<rparr>"
  let ?k = "k\<lparr>connectServices := AList.update (fst e) ?c (connectServices k)\<rparr>"
  have "sk_ok ?k"
    using update_ok [OF ok, of ?c "session\<lparr>ref_logicID := s\<rparr>" "fst e"] find_entry(3) [OF ok e'] session(2) by simp
  moreover have "fst e \<in> set (map fst (connectServices k))"
    using find_entry(1) [OF ok e'] by (force dest: map_of_SomeD)
  ultimately show ?thesis
    using s e' find_entry(1,3) [OF ok e'] session
    by (simp add: addNewConnect_def Let_def checkConnectService_def upd_ok upd_keeps update_keys
        connectSession_def update_conv')
qed

end

end
