(* ===== verification/ServerConfig.thy ===== *)
theory ServerConfig
  imports Prelude
begin

text \<open>
  The configuration of the servers: ServerNetConfig.h and ServerConfigManager.cpp. The file is read
  by the JSON library; the model starts from its content with every field converted to the type
  the code asks for (a missing field makes the library throw, as does a missing file). What a
  process connects to is computed from the listeners of the services it names.
\<close>

record ServerNetInfo =
  ni_type :: int
  ni_port :: int
  ni_ip :: string

record ConfigInfo =
  ci_ip :: string
  ci_connectTypes :: "int list"
  ci_listenInfos :: "ServerNetInfo list"
  ci_connectInfos :: "ServerNetInfo list"

record ServerNetConfig =
  nc_type :: int
  nc_name :: string
  nc_infos :: "ConfigInfo list"

record ServerConfigManager =
  cfg_services :: "ServerNetConfig list"
  cfg_config :: ServerNetConfig
  cfg_type :: int

section \<open>Loading\<close>

record json_info =
  j_ip :: string
  j_listen :: "(int \<times> int) list"
  j_connect :: "int list option"

record json_service =
  j_name :: string
  j_type :: int
  j_info :: "json_info list"

definition convertListen :: "int \<times> int \<Rightarrow> ServerNetInfo" where
  "convertListen listen = \<lparr>ni_type = fst listen, ni_port = snd listen, ni_ip = []\<rparr>"

definition convertInfo :: "json_info \<Rightarrow> ConfigInfo" where
  "convertInfo info =
     \<lparr>ci_ip = j_ip info, ci_connectTypes = (case j_connect info of None \<Rightarrow> [] | Some ts \<Rightarrow> ts),
      ci_listenInfos = map (\<lambda>l. (convertListen l)\<lparr>ni_ip := j_ip info\<rparr>) (j_listen info), ci_connectInfos = []\<rparr>"

definition cfg_load :: "json_service list \<Rightarrow> ServerNetConfig list" where
  "cfg_load services = map (\<lambda>s. \<lparr>nc_type = j_type s, nc_name = j_name s, nc_infos = map convertInfo (j_info s)\<rparr>) services"

section \<open>Queries\<close>

definition configForType :: "int \<Rightarrow> ServerNetConfig list \<Rightarrow> ServerNetConfig option" where
  "configForType t services = find (\<lambda>s. nc_type s = t) services"

definition listenInfo :: "ConfigInfo \<Rightarrow> int \<Rightarrow> ServerNetInfo option" where
  "listenInfo info t = find (\<lambda>l. ni_type l = t) (ci_listenInfos info)"

fun connect_targets :: "int \<Rightarrow> int \<Rightarrow> ConfigInfo list \<Rightarrow> ServerNetInfo list" where
  "connect_targets config_type thisType [] = []"
| "connect_targets config_type thisType (info # rest) =
     (case listenInfo info thisType of
        Some l \<Rightarrow> l\<lparr>ni_type := config_type\<rparr> # connect_targets config_type thisType rest
      | None \<Rightarrow> connect_targets config_type thisType rest)"

definition connectInfos :: "int \<Rightarrow> int \<Rightarrow> ServerNetConfig list \<Rightarrow> ServerNetInfo list" where
  "connectInfos connectType thisType services =
     (case configForType connectType services of
        None \<Rightarrow> []
      | Some config \<Rightarrow> connect_targets (nc_type config) thisType (nc_infos config))"

text \<open>The loop over the processes of the services, which writes to the services it reads.\<close>

definition connect_process :: "int \<Rightarrow> ServerNetConfig list \<Rightarrow> ConfigInfo \<Rightarrow> ConfigInfo" where
  "connect_process t services info =
     info\<lparr>ci_connectInfos := ci_connectInfos info @ concat (map (\<lambda>c. connectInfos c t services) (ci_connectTypes info))\<rparr>"

definition parse_process :: "nat \<Rightarrow> nat \<Rightarrow> ServerNetConfig list \<Rightarrow> ServerNetConfig list" where
  "parse_process i j services =
     (let s = services ! i
      in services[i := s\<lparr>nc_infos := (nc_infos s)[j := connect_process (nc_type s) services (nc_infos s ! j)]\<rparr>])"

definition parse_service :: "nat \<Rightarrow> ServerNetConfig list \<Rightarrow> ServerNetConfig list" where
  "parse_service i services = fold (parse_process i) [0..<length (nc_infos (services ! i))] services"

definition parseConnectors :: "ServerNetConfig list \<Rightarrow> ServerNetConfig list" where
  "parseConnectors services = fold parse_service [0..<length services] services"

definition ServerConfigManager_new :: "json_service list \<Rightarrow> ServerConfigManager" where
  "ServerConfigManager_new js =
     \<lparr>cfg_services = parseConnectors (cfg_load js), cfg_config = \<lparr>nc_type = 0, nc_name = [], nc_infos = []\<rparr>, cfg_type = 0\<rparr>"

definition cfg_setType :: "int \<Rightarrow> ServerConfigManager \<Rightarrow> ServerConfigManager result" where
  "cfg_setType t m = (case configForType t (cfg_services m) of
     None \<Rightarrow> Inl AssertFailed
   | Some c \<Rightarrow> Inr (m\<lparr>cfg_type := t, cfg_config := c\<rparr>))"

definition cfg_uuid :: "ConfigInfo \<Rightarrow> string" where
  "cfg_uuid info = ci_ip info"

section \<open>The loop computes a map\<close>

lemma fold_update_map:
  assumes "\<And>j ys. j < length xs \<Longrightarrow> length ys = length xs \<Longrightarrow> ys ! j = xs ! j \<Longrightarrow> P ys \<Longrightarrow>
      g j ys = ys[j := f (xs ! j)] \<and> P (ys[j := f (xs ! j)])"
    and "n \<le> length xs" and "P xs"
  shows "fold g [0..<n] xs = map f (take n xs) @ drop n xs \<and> P (map f (take n xs) @ drop n xs)"
  using assms(2)
proof (induction n)
  case 0
  then show ?case
    using assms(3) by simp
next
  case (Suc n)
  let ?ys = "map f (take n xs) @ drop n xs"
  have IH: "fold g [0..<n] xs = ?ys" "P ?ys"
    using Suc by simp_all
  have "?ys ! n = xs ! n"
    using Suc.prems by (simp add: nth_append)
  then have "g n ?ys = ?ys[n := f (xs ! n)]" "P (?ys[n := f (xs ! n)])"
    using Suc.prems assms(1) [of n ?ys] IH(2) by simp_all
  moreover have "?ys[n := f (xs ! n)] = map f (take (Suc n) xs) @ drop (Suc n) xs"
    using Suc.prems by (simp add: list_update_append take_Suc_conv_app_nth Cons_nth_drop_Suc [symmetric])
  ultimately show ?case
    using IH by simp
qed

text \<open>What \<open>connectInfos\<close> reads of the services.\<close>

definition view :: "ServerNetConfig list \<Rightarrow> (int \<times> ServerNetInfo list list) list" where
  "view services = map (\<lambda>s. (nc_type s, map ci_listenInfos (nc_infos s))) services"

lemma connect_targets_view:
  "map ci_listenInfos infos = map ci_listenInfos infos' \<Longrightarrow> connect_targets c t infos = connect_targets c t infos'"
proof (induction infos arbitrary: infos')
  case (Cons info infos)
  then obtain info' rest where "infos' = info' # rest" "ci_listenInfos info' = ci_listenInfos info"
      "map ci_listenInfos infos = map ci_listenInfos rest"
    by (cases infos') auto
  then show ?case
    using Cons.IH [of rest] by (simp add: listenInfo_def split: option.splits)
qed simp

lemma connectInfos_view: "view services = view services' \<Longrightarrow> connectInfos c t services = connectInfos c t services'"
proof (induction services arbitrary: services')
  case (Cons s services)
  then obtain s' rest where s': "services' = s' # rest" "nc_type s' = nc_type s"
      "map ci_listenInfos (nc_infos s) = map ci_listenInfos (nc_infos s')" "view services = view rest"
    by (cases services') (auto simp: view_def)
  show ?case
  proof (cases "nc_type s = c")
    case True
    then show ?thesis
      using s' connect_targets_view [OF s'(3), of c t] by (simp add: connectInfos_def configForType_def)
  next
    case False
    then show ?thesis
      using s' Cons.IH [OF s'(4)] by (simp add: connectInfos_def configForType_def)
  qed
qed (simp add: view_def)

lemma connect_process_view: "view services = view services' \<Longrightarrow> connect_process t services = connect_process t services'"
  by (rule ext) (simp add: connect_process_def connectInfos_view [of services services'])

lemma view_update:
  assumes "i < length services" and "nc_type s = nc_type (services ! i)"
    and "map ci_listenInfos (nc_infos s) = map ci_listenInfos (nc_infos (services ! i))"
  shows "view (services[i := s]) = view services"
proof -
  have "(nc_type s, map ci_listenInfos (nc_infos s)) = view services ! i"
    using assms by (simp add: view_def)
  then show ?thesis
    by (simp add: view_def map_update)
qed

definition connected_service :: "ServerNetConfig list \<Rightarrow> ServerNetConfig \<Rightarrow> ServerNetConfig" where
  "connected_service services s = s\<lparr>nc_infos := map (connect_process (nc_type s) services) (nc_infos s)\<rparr>"

lemma parse_process_prefix:
  assumes i: "i < length services" and n: "n \<le> length (nc_infos (services ! i))"
  defines "s \<equiv> services ! i" and "F \<equiv> connect_process (nc_type (services ! i)) services"
  shows "fold (parse_process i) [0..<n] services =
    services[i := s\<lparr>nc_infos := map F (take n (nc_infos s)) @ drop n (nc_infos s)\<rparr>]"
  using n
proof (induction n)
  case 0
  then show ?case
    by (simp add: s_def)
next
  case (Suc n)
  let ?infos = "map F (take n (nc_infos s)) @ drop n (nc_infos s)"
  let ?services = "services[i := s\<lparr>nc_infos := ?infos\<rparr>]"
  have len: "n < length (nc_infos s)"
    using Suc.prems by (simp add: s_def)
  have "ci_listenInfos (F x) = ci_listenInfos x" for x
    by (simp add: F_def connect_process_def)
  then have "map ci_listenInfos ?infos = map ci_listenInfos (take n (nc_infos s) @ drop n (nc_infos s))"
    by (simp only: map_append map_map comp_def)
  then have "map ci_listenInfos ?infos = map ci_listenInfos (nc_infos s)"
    by (simp only: append_take_drop_id)
  then have view: "view ?services = view services"
    using i by (intro view_update) (simp_all del: append_take_drop_id map_append add: s_def)
  have F: "connect_process (nc_type s) ?services = F"
    using connect_process_view [OF view, of "nc_type s"] by (simp only: F_def s_def)
  have nth: "?infos ! n = nc_infos s ! n"
    using len by (simp add: nth_append)
  have "fold (parse_process i) [0..<Suc n] services = parse_process i n ?services"
    using Suc by simp
  also have "\<dots> = services[i := s\<lparr>nc_infos := ?infos[n := F (nc_infos s ! n)]\<rparr>]"
    using i F nth by (simp add: parse_process_def Let_def)
  also have "?infos[n := F (nc_infos s ! n)] = map F (take (Suc n) (nc_infos s)) @ drop (Suc n) (nc_infos s)"
    using len by (simp add: list_update_append take_Suc_conv_app_nth Cons_nth_drop_Suc [symmetric])
  finally show ?case .
qed

lemma parse_service_eq:
  "i < length services \<Longrightarrow> parse_service i services = services[i := connected_service services (services ! i)]"
  using parse_process_prefix [of i services "length (nc_infos (services ! i))"]
  by (simp add: parse_service_def connected_service_def)

lemma parseConnectors_eq: "parseConnectors services = map (connected_service services) services"
proof -
  have "parse_service j ys = ys[j := connected_service services (services ! j)] \<and>
      view (ys[j := connected_service services (services ! j)]) = view services"
    if "j < length services" "length ys = length services" "ys ! j = services ! j" "view ys = view services" for j ys
  proof -
    have "connected_service ys (ys ! j) = connected_service services (services ! j)"
      using that(3) connect_process_view [OF that(4)] by (simp add: connected_service_def)
    moreover have "view (ys[j := connected_service services (services ! j)]) = view ys"
      using that(1-3) by (intro view_update) (simp_all add: connected_service_def connect_process_def comp_def)
    moreover have "parse_service j ys = ys[j := connected_service ys (ys ! j)]"
      using that(1,2) by (intro parse_service_eq) simp
    ultimately show ?thesis
      using that(4) by argo
  qed
  from fold_update_map [where P = "\<lambda>ys. view ys = view services" and g = parse_service and n = "length services" and xs = services
      and f = "connected_service services", OF this]
  have "fold parse_service [0..<length services] services =
      map (connected_service services) (take (length services) services) @ drop (length services) services"
    by blast
  then show ?thesis
    by (simp add: parseConnectors_def)
qed

section \<open>Properties\<close>

lemma connect_targets_set:
  "set (connect_targets c t infos) = {l\<lparr>ni_type := c\<rparr> | l info. info \<in> set infos \<and> listenInfo info t = Some l}"
  by (induction infos) (auto split: option.splits)

text \<open>The processes connect to exactly the listeners meant for them: after loading, a process of a
  service has a connection to an address if and only if some process of the first configured
  service of a type it names listens there for its own type (and the listener is the first such
  one of that process). The connection carries the type of the service it leads to.\<close>

lemma configForType_type: "configForType t services = Some target \<Longrightarrow> nc_type target = t"
  by (auto simp: configForType_def find_Some_iff)

lemma connectInfos_iff:
  "c \<in> set (connectInfos t u services) \<longleftrightarrow>
    (\<exists>target peer l. configForType t services = Some target \<and> peer \<in> set (nc_infos target) \<and>
       find (\<lambda>l. ni_type l = u) (ci_listenInfos peer) = Some l \<and> c = l\<lparr>ni_type := t\<rparr>)"
proof (cases "configForType t services")
  case None
  then show ?thesis
    by (simp add: connectInfos_def)
next
  case (Some target)
  then have "connectInfos t u services = connect_targets t u (nc_infos target)"
    using configForType_type [OF Some] by (simp add: connectInfos_def)
  then show ?thesis
    using Some by (auto simp: connect_targets_set listenInfo_def)
qed

text \<open>C33: The processes connect to exactly the listeners meant for them: after loading, process \<open>j\<close> of
  service \<open>i\<close> keeps its listeners and has a connection to an address if and only if some process
  of the first configured service of a type it names listens there for its own type (and the
  listener is the first such one of that process). The connection carries the type of the service
  it leads to.\<close>

theorem connections_match_listeners:
  assumes i: "i < length (cfg_load js)" and j: "j < length (nc_infos (cfg_load js ! i))"
  defines "u \<equiv> nc_type (cfg_load js ! i)" and "info \<equiv> nc_infos (cfg_load js ! i) ! j"
    and "loaded \<equiv> nc_infos (cfg_services (ServerConfigManager_new js) ! i) ! j"
  shows "ci_listenInfos loaded = ci_listenInfos info \<and>
    (c \<in> set (ci_connectInfos loaded) \<longleftrightarrow>
      (\<exists>t \<in> set (ci_connectTypes info). \<exists>target peer l. configForType t (cfg_load js) = Some target \<and>
         peer \<in> set (nc_infos target) \<and> find (\<lambda>l. ni_type l = u) (ci_listenInfos peer) = Some l \<and>
         c = l\<lparr>ni_type := t\<rparr>))"
proof (intro conjI)
  have loaded: "loaded = connect_process u (cfg_load js) info"
    using i j by (simp add: loaded_def ServerConfigManager_new_def parseConnectors_eq connected_service_def u_def info_def)
  then show "ci_listenInfos loaded = ci_listenInfos info"
    by (simp add: connect_process_def)
  have "info \<in> set (nc_infos (cfg_load js ! i))"
    using j by (simp add: info_def)
  then have "ci_connectInfos info = []"
    using i by (auto simp: cfg_load_def convertInfo_def)
  then have "set (ci_connectInfos loaded) = (\<Union>t \<in> set (ci_connectTypes info). set (connectInfos t u (cfg_load js)))"
    by (simp add: loaded connect_process_def)
  then show "c \<in> set (ci_connectInfos loaded) \<longleftrightarrow>
      (\<exists>t \<in> set (ci_connectTypes info). \<exists>target peer l. configForType t (cfg_load js) = Some target \<and>
         peer \<in> set (nc_infos target) \<and> find (\<lambda>l. ni_type l = u) (ci_listenInfos peer) = Some l \<and>
         c = l\<lparr>ni_type := t\<rparr>)"
    by (simp only: connectInfos_iff UN_iff)
qed

definition sample_config :: "json_service list" where
  "sample_config =
     [\<lparr>j_name = ''central'', j_type = 2, j_info = [\<lparr>j_ip = ''10.0.0.1'', j_listen = [(1, 7801), (3, 7803)], j_connect = None\<rparr>]\<rparr>,
      \<lparr>j_name = ''login'', j_type = 1, j_info = [\<lparr>j_ip = ''10.0.0.2'', j_listen = [(5, 7802)], j_connect = Some [2]\<rparr>]\<rparr>]"

theorem connections_match_listeners_witness:
  "\<lparr>ni_type = 2, ni_port = 7801, ni_ip = ''10.0.0.1''\<rparr>
     \<in> set (ci_connectInfos (nc_infos (cfg_services (ServerConfigManager_new sample_config) ! 1) ! 0))"
proof -
  let ?central = "cfg_load sample_config ! 0" and ?c = "\<lparr>ni_type = 2, ni_port = 7801, ni_ip = ''10.0.0.1''\<rparr> :: ServerNetInfo"
  have "configForType 2 (cfg_load sample_config) = Some ?central"
    "nc_infos ?central ! 0 \<in> set (nc_infos ?central)"
    "find (\<lambda>l. ni_type l = nc_type (cfg_load sample_config ! 1)) (ci_listenInfos (nc_infos ?central ! 0)) = Some (?c\<lparr>ni_type := 1\<rparr>)"
    "?c = (?c\<lparr>ni_type := 1\<rparr>)\<lparr>ni_type := 2\<rparr>"
    "2 \<in> set (ci_connectTypes (nc_infos (cfg_load sample_config ! 1) ! 0))"
    by (simp_all add: sample_config_def cfg_load_def configForType_def convertInfo_def convertListen_def)
  moreover have "1 < length (cfg_load sample_config)" "0 < length (nc_infos (cfg_load sample_config ! 1))"
    by (simp_all add: sample_config_def cfg_load_def)
  ultimately show ?thesis
    using connections_match_listeners [of 1 sample_config 0 ?c] by blast
qed

end
