(* ===== verification/CPGSession.thy ===== *)
theory CPGSession
  imports TCPSessionManager ServiceKernel ServerConfig
begin

text \<open>
  The session classes the servers derive theirs from: \<open>CPGServerSession\<close> (accepted connections)
  and \<open>CPGClientSession\<close> of CPGNetSession.cpp, \<open>CPGToCentralSession\<close> of CPGToCentralSession.cpp,
  and the checks for silent sessions of CSSessionManager.cpp and GSSessionManager.cpp.

  Each class runs the receive loop of \<open>PacketLoop\<close> with its own dispatch. What \<open>handlerMsg\<close> of
  the derived class does is a function on a state \<open>'k\<close> (its kernel); its boolean result is not
  looked at by the loop. \<open>now\<close> is \<open>time(NULL)\<close> and \<open>beat\<close> the encoding of \<open>BeatHeartRS\<close>.
\<close>

type_synonym 'k world = "TCPSession \<times> effect list \<times> 'k"
type_synonym 'k handler = "PacketHeader \<Rightarrow> byte list \<Rightarrow> 'k \<Rightarrow> 'k result"

section \<open>Accepted sessions\<close>

definition heartBeatRQ :: "int \<Rightarrow> (8 word \<Rightarrow> byte list) \<Rightarrow> TCPSession \<Rightarrow> session_result" where
  "heartBeatRQ now beat s =
     (let s1 = updateHeartBeat now s;
          rs = beat (session_type s1);
          header = \<lparr>ptype = word_of_int kHeartBeatRS, psize = of_nat (length rs), extraID = 0\<rparr>
      in rbind (addMore (header_bytes header) s1) (\<lambda>s2. send rs s2))"

definition server_dispatch :: "int \<Rightarrow> (8 word \<Rightarrow> byte list) \<Rightarrow> 'k handler \<Rightarrow> 'k world handler" where
  "server_dispatch now beat handlerMsg h body w = (case w of (s, es, k) \<Rightarrow>
     (if ptype h = word_of_int kHeartBeatRQ
      then rbind (heartBeatRQ now beat s) (\<lambda>(s', es'). Inr (s', es @ es', k))
      else rbind (handlerMsg h body k) (\<lambda>k'. Inr (s, es, k'))))"

text \<open>The loop works on the input buffer of the session itself.\<close>

definition run_callback :: "'k world handler \<Rightarrow> TCPSession \<Rightarrow> 'k \<Rightarrow> 'k world result option" where
  "run_callback dispatch s k = (case packetLoop dispatch (inputBuffer s) (s, [], k) of
     None \<Rightarrow> None
   | Some (Inl e) \<Rightarrow> Some (Inl e)
   | Some (Inr (b, s', es, k')) \<Rightarrow> Some (Inr (s'\<lparr>inputBuffer := b\<rparr>, es, k')))"

definition server_defaultMessageCallback ::
    "int \<Rightarrow> (8 word \<Rightarrow> byte list) \<Rightarrow> 'k handler \<Rightarrow> TCPSession \<Rightarrow> 'k \<Rightarrow> 'k world result option" where
  "server_defaultMessageCallback now beat handlerMsg = run_callback (server_dispatch now beat handlerMsg)"

section \<open>Opened sessions\<close>

definition client_dispatch :: "int \<Rightarrow> 'k handler \<Rightarrow> 'k world handler" where
  "client_dispatch now handlerMsg h body w = (case w of (s, es, k) \<Rightarrow>
     (if ptype h = word_of_int kHeartBeatRS then Inr (updateHeartBeat now s, es, k)
      else rbind (handlerMsg h body k) (\<lambda>k'. Inr (s, es, k'))))"

definition client_defaultMessageCallback :: "int \<Rightarrow> 'k handler \<Rightarrow> TCPSession \<Rightarrow> 'k \<Rightarrow> 'k world result option" where
  "client_defaultMessageCallback now handlerMsg = run_callback (client_dispatch now handlerMsg)"

section \<open>Sessions to the central server\<close>

text \<open>
  \<open>parseRS\<close> and \<open>parseNotify\<close> are the decoders of \<open>ServerRegisterRS\<close> (result, id, services)
  and \<open>NewConnServiceNotify\<close>; \<open>add\<close> is \<open>serviceKernel().addNewConnect\<close> on the kernel of the
  server. The logic ids it gives to other sessions are left to those sessions.
\<close>

definition newServicesNotify ::
    "(ConnServer \<Rightarrow> 'k \<Rightarrow> 'k result) \<Rightarrow> (byte list \<Rightarrow> ConnServer list option) \<Rightarrow> byte list \<Rightarrow> 'k \<Rightarrow> 'k result" where
  "newServicesNotify add parseNotify data k = (case parseNotify data of
     None \<Rightarrow> Inr k
   | Some conns \<Rightarrow> rfold add conns k)"

definition central_serverRegistRS ::
    "(ConnServer \<Rightarrow> 'k \<Rightarrow> 'k result) \<Rightarrow> (byte list \<Rightarrow> (int \<times> int32_w \<times> ConnServer list) option) \<Rightarrow>
     byte list \<Rightarrow> TCPSession \<Rightarrow> 'k \<Rightarrow> (TCPSession \<times> 'k) result" where
  "central_serverRegistRS add parseRS data s k = (case parseRS data of
     None \<Rightarrow> Inr (s, k)
   | Some (result, i, conns) \<Rightarrow>
       if result = 0 then rbind (rfold add conns k) (\<lambda>k'. Inr (session_setLogicID i s, k'))
       else Inr (s, k))"

definition central_dispatch ::
    "int \<Rightarrow> (ConnServer \<Rightarrow> 'k \<Rightarrow> 'k result) \<Rightarrow> (byte list \<Rightarrow> (int \<times> int32_w \<times> ConnServer list) option) \<Rightarrow>
     (byte list \<Rightarrow> ConnServer list option) \<Rightarrow> 'k handler \<Rightarrow> 'k world handler" where
  "central_dispatch now add parseRS parseNotify handlerMsg h body w = (case w of (s, es, k) \<Rightarrow>
     (if ptype h = word_of_int kServerRegistRS
      then rbind (central_serverRegistRS add parseRS body s k) (\<lambda>(s', k'). Inr (s', es, k'))
      else if ptype h = word_of_int kServerNewServicesNotify
      then rbind (newServicesNotify add parseNotify body k) (\<lambda>k'. Inr (s, es, k'))
      else if ptype h = word_of_int kHeartBeatRS then Inr (updateHeartBeat now s, es, k)
      else rbind (handlerMsg h body k) (\<lambda>k'. Inr (s, es, k'))))"

definition central_defaultMessageCallback where
  "central_defaultMessageCallback now add parseRS parseNotify handlerMsg =
     run_callback (central_dispatch now add parseRS parseNotify handlerMsg)"

section \<open>Registration data\<close>

text \<open>\<open>std::list::unique\<close> drops an element that matches the last one kept.\<close>

fun list_unique :: "('a \<Rightarrow> 'a \<Rightarrow> bool) \<Rightarrow> 'a list \<Rightarrow> 'a list" where
  "list_unique eq [] = []"
| "list_unique eq [x] = [x]"
| "list_unique eq (x # y # zs) = (if eq x y then list_unique eq (x # zs) else x # list_unique eq (y # zs))"

definition same_listen :: "ServerNetInfo \<Rightarrow> ServerNetInfo \<Rightarrow> bool" where
  "same_listen l r \<longleftrightarrow> ni_type l = ni_type r \<and> ni_ip l = ni_ip r \<and> ni_port l = ni_port r"

definition listenInfos :: "ConfigInfo list \<Rightarrow> ServerNetInfo list" where
  "listenInfos config = list_unique same_listen (concat (map ci_listenInfos config))"

definition connectTypes :: "ConfigInfo list \<Rightarrow> int list" where
  "connectTypes config = fold insort_insert (concat (map ci_connectTypes config)) []"

definition kServerHeartBeatDuration :: int where "kServerHeartBeatDuration = 5"
definition kServerHeartBeatOvertime :: int where "kServerHeartBeatOvertime = 11"
definition kClientHeartBeatDuration :: int where "kClientHeartBeatDuration = 9"
definition kClientHeartBeatOvertime :: int where "kClientHeartBeatOvertime = 20"

definition sendRegisterData :: "ConfigInfo list \<Rightarrow> session_ref \<Rightarrow> command list" where
  "sendRegisterData config session =
     [Send (ToSession (ref_uuid session)) kServerRegistRQ
        (RegisterRQ \<lparr>rq_sid = ref_logicID session, rq_type = ServerType_MatchServer,
           rq_connectTypes = connectTypes config,
           rq_listeners = map (\<lambda>l. \<lparr>cs_type = ni_type l, cs_port = ni_port l, cs_sid = 0, cs_ip = ni_ip l\<rparr>)
             (listenInfos config)\<rparr>) 0]"

section \<open>Silent sessions\<close>

text \<open>\<open>overtime\<close> is what the loop over all sessions collects; each of them is then closed.\<close>

definition overtime :: "(TCPSession \<Rightarrow> bool) \<Rightarrow> int \<Rightarrow> int \<Rightarrow> session_ptr option list \<Rightarrow> TCPSessionManager \<Rightarrow> session_ptr list result" where
  "overtime watched limit now ps m = rfold (\<lambda>p acc. case p of
     None \<Rightarrow> Inl NullDeref
   | Some q \<Rightarrow> (case heap m q of
       None \<Rightarrow> Inl NullDeref
     | Some s \<Rightarrow> Inr (if watched s \<and> now - heartBeat s > limit then acc @ [q] else acc))) ps []"

text \<open>\<open>forceClose\<close> ends with the close callback, which is \<open>removeSessionPtr\<close> of the manager.\<close>

definition close_session :: "nat \<Rightarrow> session_ptr \<Rightarrow> TCPSessionManager \<Rightarrow> manager_result" where
  "close_session M p m = rbind (on_session p forceClose m) (\<lambda>(m1, es1).
     if (p, CloseCallback) \<in> set es1
     then rbind (removeSessionPtr M p m1) (\<lambda>(m2, es2). Inr (m2, es1 @ es2))
     else Inr (m1, es1))"

fun close_all :: "nat \<Rightarrow> session_ptr list \<Rightarrow> TCPSessionManager \<Rightarrow> manager_result" where
  "close_all M [] m = Inr (m, [])"
| "close_all M (p # ps) m =
     rbind (close_session M p m) (\<lambda>(m1, es1). rbind (close_all M ps m1) (\<lambda>(m2, es2). Inr (m2, es1 @ es2)))"

definition cs_clientCheckOvertime :: "nat \<Rightarrow> int \<Rightarrow> TCPSessionManager \<Rightarrow> manager_result" where
  "cs_clientCheckOvertime M now m =
     rbind (overtime (\<lambda>s. True) kServerHeartBeatOvertime now (objects (sessionMap m)) m) (\<lambda>ps. close_all M ps m)"

definition gs_clientCheckOvertime :: "nat \<Rightarrow> int \<Rightarrow> TCPSessionManager \<Rightarrow> manager_result" where
  "gs_clientCheckOvertime M now m =
     rbind (overtime (\<lambda>s. session_type s = word_of_int ServerType_Client) kClientHeartBeatOvertime now
         (objects (sessionMap m)) m) (\<lambda>ps. close_all M ps m)"

section \<open>Heartbeats in a stream of packets\<close>

definition is_beat :: "PacketHeader \<times> byte list \<Rightarrow> bool" where
  "is_beat f \<longleftrightarrow> ptype (fst f) = word_of_int kHeartBeatRQ"

definition beat_reply :: "(8 word \<Rightarrow> byte list) \<Rightarrow> 8 word \<Rightarrow> byte list" where
  "beat_reply beat t = header_bytes \<lparr>ptype = word_of_int kHeartBeatRS, psize = of_nat (length (beat t)), extraID = 0\<rparr> @ beat t"

lemma updateHeartBeat_simps [simp]:
  "sess_ok (updateHeartBeat now s) = sess_ok s" "pending (updateHeartBeat now s) = pending s"
  "session_type (updateHeartBeat now s) = session_type s" "inputBuffer (updateHeartBeat now s) = inputBuffer s"
  "heartBeat (updateHeartBeat now s) = now"
  by (simp_all add: updateHeartBeat_def sess_ok_def pending_def session_type_def)

lemma send_keeps_more:
  "send bs s = Inr (s', es) \<Longrightarrow> stype s' = stype s \<and> inputBuffer s' = inputBuffer s \<and> heartBeat s' = heartBeat s"
  by (auto simp: send_def internalSend_def Let_def split: if_splits)

lemma addMore_keeps_more:
  "addMore bs s = Inr s' \<Longrightarrow> stype s' = stype s \<and> inputBuffer s' = inputBuffer s \<and> heartBeat s' = heartBeat s"
  by (auto simp: addMore_def)

lemma heartBeatRQ_spec:
  assumes "sess_ok s"
  shows "\<exists>s' es. heartBeatRQ now beat s = Inr (s', es) \<and> sess_ok s' \<and>
    pending s' = pending s @ beat_reply beat (session_type s) \<and> session_type s' = session_type s \<and>
    inputBuffer s' = inputBuffer s \<and> heartBeat s' = now"
proof -
  let ?s = "updateHeartBeat now s"
  let ?h = "\<lparr>ptype = word_of_int kHeartBeatRS, psize = of_nat (length (beat (session_type s))), extraID = 0\<rparr>"
  obtain s1 where s1: "addMore (header_bytes ?h) ?s = Inr s1" "sess_ok s1" "pending s1 = pending s @ header_bytes ?h"
    using addMore_spec [of ?s "header_bytes ?h"] assms by auto
  obtain s2 es where s2: "send (beat (session_type s)) s1 = Inr (s2, es)" "sess_ok s2"
      "pending s2 = pending s1 @ beat (session_type s)"
    using send_spec [OF s1(2)] by blast
  show ?thesis
    using s1 s2 addMore_keeps_more [OF s1(1)] send_keeps_more [OF s2(1)]
    by (simp add: heartBeatRQ_def Let_def beat_reply_def session_type_def updateHeartBeat_def)
qed

lemma run_server_dispatch:
  assumes "sess_ok s" and "run_handlers handlerMsg (filter (\<lambda>f. \<not> is_beat f) fs) k = Inr k'"
  shows "\<exists>s' es'. run_handlers (server_dispatch now beat handlerMsg) fs (s, es, k) = Inr (s', es', k') \<and>
    sess_ok s' \<and> session_type s' = session_type s \<and> inputBuffer s' = inputBuffer s \<and>
    pending s' = pending s @ concat (replicate (length (filter is_beat fs)) (beat_reply beat (session_type s))) \<and>
    heartBeat s' = (if filter is_beat fs = [] then heartBeat s else now)"
  using assms
proof (induction fs arbitrary: s es k)
  case (Cons f fs)
  show ?case
  proof (cases "is_beat f")
    case True
    obtain s1 es1 where s1: "heartBeatRQ now beat s = Inr (s1, es1)" "sess_ok s1"
        "pending s1 = pending s @ beat_reply beat (session_type s)" "session_type s1 = session_type s"
        "inputBuffer s1 = inputBuffer s" "heartBeat s1 = now"
      using heartBeatRQ_spec [OF Cons.prems(1)] by blast
    then show ?thesis
      using Cons.IH [OF s1(2), of k "es @ es1"] Cons.prems(2) True
      by (auto simp: server_dispatch_def is_beat_def)
  next
    case False
    then show ?thesis
      using Cons.IH [OF Cons.prems(1)] Cons.prems(2) by (auto simp: server_dispatch_def is_beat_def)
  qed
qed simp

section \<open>Closing silent sessions\<close>

text \<open>An accepted session in normal operation, stored under its own uuid.\<close>

definition served :: "nat \<Rightarrow> TCPSessionManager \<Rightarrow> session_ptr \<Rightarrow> bool" where
  "served M m p \<longleftrightarrow> (\<exists>s. heap m p = Some s \<and> \<not> client s \<and> state s = kConnected \<and> socket s \<and>
     closeCallback s \<and> slot (sessionMap m) (unat (uuid s)) = Some p)"

lemma close_session_spec:
  assumes ok: "pool_ok M (sessionMap m)" and sv: "served M m p"
  shows "\<exists>m' es s. close_session M p m = Inr (m', es) \<and> pool_ok M (sessionMap m') \<and>
    ran (slot (sessionMap m')) = ran (slot (sessionMap m)) - {p} \<and>
    heap m' = (heap m)(p \<mapsto> s) \<and> state s = kDisconnected \<and>
    (\<forall>q. q \<noteq> p \<and> served M m q \<longrightarrow> served M m' q)"
proof -
  obtain s where s: "heap m p = Some s" "\<not> client s" "state s = kConnected" "socket s" "closeCallback s"
      "slot (sessionMap m) (unat (uuid s)) = Some p"
    using sv by (auto simp: served_def)
  let ?s = "s\<lparr>state := kDisconnected, socket := False\<rparr>"
  let ?pool = "removeObject M (unat (uuid s)) (sessionMap m)"
  have pool: "pool_ok M ?pool" "slot ?pool = (slot (sessionMap m))(unat (uuid s) := None)"
    using oip.del_law [OF ok s(6)] by simp_all
  have inj: "i = j" if "slot (sessionMap m) i = Some x" "slot (sessionMap m) j = Some x" for i j x
    using ok that by (auto simp: pool_ok_def)
  have "ran (slot ?pool) = ran (slot (sessionMap m)) - {p}"
    unfolding pool(2) using s(6) inj by (intro ran_del_inj) auto
  moreover have "served M (m\<lparr>heap := (heap m)(p \<mapsto> ?s), sessionMap := ?pool\<rparr>) q" if q: "q \<noteq> p" "served M m q" for q
  proof -
    obtain t where "heap m q = Some t" "\<not> client t" "state t = kConnected" "socket t" "closeCallback t"
        "slot (sessionMap m) (unat (uuid t)) = Some q"
      using q(2) by (auto simp: served_def)
    moreover from this have "unat (uuid t) \<noteq> unat (uuid s)"
      using q(1) s(6) by auto
    ultimately show ?thesis
      using q(1) by (auto simp: served_def pool(2) intro!: exI [of _ t])
  qed
  ultimately show ?thesis
    using s pool(1)
    by (simp add: close_session_def on_session_def forceClose_def handClose_def connected_def removeSessionPtr_def
        removeSession_def) (auto intro!: exI [of _ ?s])
qed

lemma close_all_spec:
  assumes "pool_ok M (sessionMap m)" and "distinct ps" and "\<forall>p \<in> set ps. served M m p"
  shows "\<exists>m' es. close_all M ps m = Inr (m', es) \<and>
    ran (slot (sessionMap m')) = ran (slot (sessionMap m)) - set ps \<and>
    (\<forall>p. p \<notin> set ps \<longrightarrow> heap m' p = heap m p) \<and>
    (\<forall>p \<in> set ps. \<exists>s. heap m' p = Some s \<and> state s = kDisconnected)"
  using assms
proof (induction ps arbitrary: m)
  case (Cons p ps)
  obtain m1 es1 s where m1: "close_session M p m = Inr (m1, es1)" "pool_ok M (sessionMap m1)"
      "ran (slot (sessionMap m1)) = ran (slot (sessionMap m)) - {p}" "heap m1 = (heap m)(p \<mapsto> s)"
      "state s = kDisconnected" "\<forall>q. q \<noteq> p \<and> served M m q \<longrightarrow> served M m1 q"
    using close_session_spec [OF Cons.prems(1), of p] Cons.prems(3) by auto
  have "\<forall>q \<in> set ps. served M m1 q"
    using m1(6) Cons.prems(2,3) by auto
  from Cons.IH [OF m1(2) _ this] Cons.prems(2)
  obtain m2 es2 where m2: "close_all M ps m1 = Inr (m2, es2)"
      "ran (slot (sessionMap m2)) = ran (slot (sessionMap m1)) - set ps"
      "\<forall>q. q \<notin> set ps \<longrightarrow> heap m2 q = heap m1 q"
      "\<forall>q \<in> set ps. \<exists>s. heap m2 q = Some s \<and> state s = kDisconnected"
    by auto
  then show ?case
    using m1 Cons.prems(2) by auto
qed simp

lemma overtime_spec:
  assumes "\<forall>p \<in> set ps. heap m p \<noteq> None"
  shows "overtime watched limit now (map Some ps) m =
    Inr (filter (\<lambda>p. watched (the (heap m p)) \<and> now - heartBeat (the (heap m p)) > limit) ps)"
proof -
  have "rfold (\<lambda>p acc. case p of None \<Rightarrow> Inl NullDeref | Some q \<Rightarrow> (case heap m q of None \<Rightarrow> Inl NullDeref
      | Some s \<Rightarrow> Inr (if watched s \<and> now - heartBeat s > limit then acc @ [q] else acc))) (map Some ps) acc =
    Inr (acc @ filter (\<lambda>p. watched (the (heap m p)) \<and> now - heartBeat (the (heap m p)) > limit) ps)" for acc
    using assms by (induction ps arbitrary: acc) auto
  then show ?thesis
    by (simp add: overtime_def)
qed

lemma check_overtime_spec:
  assumes ok: "pool_ok M (sessionMap m)" and sv: "\<forall>p \<in> ran (slot (sessionMap m)). served M m p"
  shows "\<exists>m' es. rbind (overtime watched limit now (objects (sessionMap m)) m) (\<lambda>ps. close_all M ps m) = Inr (m', es) \<and>
    ran (slot (sessionMap m')) = {p \<in> ran (slot (sessionMap m)).
       \<not> (watched (the (heap m p)) \<and> now - heartBeat (the (heap m p)) > limit)} \<and>
    (\<forall>p \<in> ran (slot (sessionMap m')). heap m' p = heap m p) \<and>
    (\<forall>p \<in> ran (slot (sessionMap m)) - ran (slot (sessionMap m')). \<exists>s. heap m' p = Some s \<and> state s = kDisconnected)"
proof -
  have st: "distinct (stored (sessionMap m))" "set (stored (sessionMap m)) = ran (slot (sessionMap m))"
    using oip.elems_law [OF ok] by simp_all
  let ?ps = "filter (\<lambda>p. watched (the (heap m p)) \<and> now - heartBeat (the (heap m p)) > limit) (stored (sessionMap m))"
  have "heap m p \<noteq> None" if "p \<in> set (stored (sessionMap m))" for p
    using sv st(2) that by (auto simp: served_def)
  then have over: "overtime watched limit now (objects (sessionMap m)) m = Inr ?ps"
    using overtime_spec [of "stored (sessionMap m)"] by (simp add: objects_stored [OF ok])
  have "distinct ?ps" "\<forall>p \<in> set ?ps. served M m p"
    using st sv by simp_all
  from close_all_spec [OF ok this] obtain m' es where m': "close_all M ?ps m = Inr (m', es)"
      "ran (slot (sessionMap m')) = ran (slot (sessionMap m)) - set ?ps"
      "\<forall>p. p \<notin> set ?ps \<longrightarrow> heap m' p = heap m p"
      "\<forall>p \<in> set ?ps. \<exists>s. heap m' p = Some s \<and> state s = kDisconnected"
    by blast
  have "p \<in> set ?ps" if "p \<in> ran (slot (sessionMap m)) - ran (slot (sessionMap m'))" for p
    using that m'(2) by blast
  then show ?thesis
    using m' over st(2) by (intro exI [of _ m'] exI [of _ es]) auto
qed

section \<open>Properties\<close>

text \<open>C29: The callback of an accepted session, on a buffer of well-formed packets, always returns when
  the handler accepts every packet that is no heartbeat: those packets go to the handler, in
  order, and each heartbeat is answered with one reply and renews the session's time stamp.\<close>

theorem heartbeats_are_answered:
  assumes "sess_ok s" and "contents (inputBuffer s) = concat (map encode_frame fs) @ rest"
    and "list_all wf_frame fs" and "length (contents (inputBuffer s)) < 2 ^ 31" and "\<not> complete rest"
    and "run_handlers handlerMsg (filter (\<lambda>f. \<not> is_beat f) fs) k = Inr k'"
  shows "\<exists>s' es. server_defaultMessageCallback now beat handlerMsg s k = Some (Inr (s', es, k')) \<and>
    contents (inputBuffer s') = rest \<and>
    pending s' = pending s @ concat (replicate (length (filter is_beat fs)) (beat_reply beat (session_type s))) \<and>
    heartBeat s' = (if filter is_beat fs = [] then heartBeat s else now)"
proof -
  have b: "buf_ok (inputBuffer s)"
    using assms(1) by (simp add: sess_ok_def)
  obtain s1 es1 where s1: "run_handlers (server_dispatch now beat handlerMsg) fs (s, [], k) = Inr (s1, es1, k')"
      "pending s1 = pending s @ concat (replicate (length (filter is_beat fs)) (beat_reply beat (session_type s)))"
      "heartBeat s1 = (if filter is_beat fs = [] then heartBeat s else now)"
    using run_server_dispatch [OF assms(1,6), of now beat "[]"] by blast
  obtain b' where "packetLoop (server_dispatch now beat handlerMsg) (inputBuffer s) (s, [], k) =
      Some (Inr (b', s1, es1, k'))" "contents b' = rest"
    using packetLoop_frames [OF b assms(2-5), of "server_dispatch now beat handlerMsg" "(s, [], k)"] s1(1) by auto
  then show ?thesis
    using s1(2,3) by (simp add: server_defaultMessageCallback_def run_callback_def pending_def)
qed

definition beat_frame :: "PacketHeader \<times> byte list" where
  "beat_frame = (\<lparr>ptype = 20101, psize = 0, extraID = 0\<rparr>, [])"

definition beaten_session :: TCPSession where
  "beaten_session = (TCPSession_socket 0)\<lparr>state := kConnected,
     inputBuffer := sample_buffer (encode_frame beat_frame @ encode_frame sample_frame)\<rparr>"

theorem heartbeats_are_answered_witness:
  "\<exists>s' es. server_defaultMessageCallback 5 (\<lambda>t. [8, t]) (\<lambda>h body k. Inr (k @ [ptype h])) beaten_session [] =
     Some (Inr (s', es, [10001])) \<and> contents (inputBuffer s') = [] \<and>
     pending s' = beat_reply (\<lambda>t. [8, t]) 0 \<and> heartBeat s' = 5"
proof -
  have ok: "sess_ok beaten_session"
    using sample_session_ok by (simp add: beaten_session_def sess_ok_def)
  have beats: "is_beat beat_frame" "\<not> is_beat sample_frame"
    by (simp_all add: is_beat_def beat_frame_def sample_frame_def kHeartBeatRQ_def)
  have "wf_frame beat_frame" "length (encode_frame beat_frame) = 12"
    by (simp_all add: beat_frame_def wf_frame_def encode_frame_def kPacketHeaderSize_def)
  moreover have "pending beaten_session = []" "session_type beaten_session = 0"
    using TCPSession_new_ok(2) by (simp_all add: beaten_session_def pending_def TCPSession_socket_def
        session_type_def) (simp add: TCPSession_new_def)
  moreover have "inputBuffer beaten_session = sample_buffer (encode_frame beat_frame @ encode_frame sample_frame)"
    by (simp add: beaten_session_def)
  moreover have "run_handlers (\<lambda>h body k. Inr (k @ [ptype h])) [sample_frame] [] = Inr [10001]"
    by (simp add: sample_frame_def)
  ultimately show ?thesis
    using heartbeats_are_answered [OF ok, of "[beat_frame, sample_frame]" "[]" "\<lambda>h body k. Inr (k @ [ptype h])"
        "[]" "[10001]" 5 "\<lambda>t. [8, t]"] beats
    by (simp add: short_not_complete kPacketHeaderSize_def del: run_handlers.simps)
qed


definition beaten_sessions :: TCPSessionManager where
  "beaten_sessions = \<lparr>listeners = [], sessionMap = fst (addObject 3 (Some 7) (ObjectIndexPool_new 3)),
     heap = [7 \<mapsto> (TCPSession_socket 0)\<lparr>state := kConnected, closeCallback := True, uuid := 0\<rparr>]\<rparr>"

lemma beaten_sessions_ok:
  "pool_ok 3 (sessionMap beaten_sessions) \<and> (\<forall>q \<in> ran (slot (sessionMap beaten_sessions)). served 3 beaten_sessions q) \<and>
   ran (slot (sessionMap beaten_sessions)) = {7} \<and> heartBeat (the (heap beaten_sessions 7)) = 0"
proof -
  obtain pool i where add: "addObject 3 (Some (7::nat)) (ObjectIndexPool_new 3) = (pool, i)"
    by (cases "addObject 3 (Some (7::nat)) (ObjectIndexPool_new 3)") auto
  have room: "has_room 3 (ObjectIndexPool_new 3)"
    by (simp add: has_room_def ObjectIndexPool_new_def)
  have "i = 0" "slot pool = [0 \<mapsto> 7]"
    using addObject_room [OF pool_ok_new room add] by (simp_all add: ObjectIndexPool_new_def fun_eq_iff slot_def)
  moreover have "pool_ok 3 pool"
    using addObject_ok [OF pool_ok_new room _ add] by simp
  moreover have "sessionMap beaten_sessions = pool"
      "heap beaten_sessions 7 = Some ((TCPSession_socket 0)\<lparr>state := kConnected, closeCallback := True, uuid := 0\<rparr>)"
    by (simp_all add: beaten_sessions_def add)
  ultimately show ?thesis
    by (auto simp: served_def TCPSession_socket_def TCPSession_new_def)
qed


end
