(* ===== verification/GateServer.thy ===== *)
theory GateServer
  imports CPGSession StdContainers
begin

text \<open>
  The gate server: GSKernel.cpp with its sessions (ClientSession.cpp, G2CSession.cpp,
  G2LSession.cpp, G2MSession.cpp). It passes the packets of clients on to the central, match and
  login servers without reading them, with the uuid of the client's session as \<open>extraID\<close>, and
  the replies back to that uuid. Which match server a packet for a match goes to is decided by
  \<open>matchesServices\<close>, which the notifications of the central server fill.
\<close>

record GSKernel = ServiceKernel +
  matchesServices :: "(int \<times> session_ref) list"
  matchesDistriMaps :: "(int, int list) omap"
  loginSession :: "session_ref option"
  centralSession :: "session_ref option"

definition GSKernel_new :: GSKernel where
  "GSKernel_new = \<lparr>connectServices = [], matchesServices = [], matchesDistriMaps = [],
     loginSession = None, centralSession = None\<rparr>"

definition gs_sessionFactory :: "int \<Rightarrow> int option" where
  "gs_sessionFactory t = (if t = ServerType_Client then Some ServerType_Client else None)"

text \<open>The class of the session a connector of a type gets.\<close>

definition gs_createConnectorSession :: "int \<Rightarrow> string" where
  "gs_createConnectorSession t =
     (if t = ServerType_CentralServer then ''G2CSession''
      else if t = ServerType_MatchServer then ''G2MSession''
      else if t = ServerType_LoginServer then ''G2LSession''
      else ''ClientSession'')"

definition removeConnectMatchService :: "session_ref \<Rightarrow> GSKernel \<Rightarrow> GSKernel" where
  "removeConnectMatchService session k =
     (let k1 = (if ref_type session = ServerType_MatchServer
                then k\<lparr>matchesServices := filter (\<lambda>e. ref_uuid (snd e) \<noteq> ref_uuid session) (matchesServices k)\<rparr>
                else k)
      in if same_session (loginSession k1) session then k1\<lparr>loginSession := None\<rparr>
         else if same_session (centralSession k1) session then k1\<lparr>centralSession := None\<rparr>
         else k1)"

definition matchServiceSession :: "int \<Rightarrow> GSKernel \<Rightarrow> session_ref option" where
  "matchServiceSession i k = map_of (matchesServices k) i"

definition gs_updateServiceConnect :: "session_ref \<Rightarrow> ServiceState \<Rightarrow> GSKernel \<Rightarrow> GSKernel" where
  "gs_updateServiceConnect session st k =
     (if st = kClose then removeConnectMatchService session k
      else if ref_type session = ServerType_LoginServer then k\<lparr>loginSession := Some session\<rparr>
      else if ref_type session = ServerType_CentralServer then k\<lparr>centralSession := Some session\<rparr>
      else k)"

section \<open>Match routes\<close>

definition match_distr :: "(int \<times> int list) list \<Rightarrow> (int, int list) omap" where
  "match_distr services = fold (\<lambda>(s, mids). om_assign id s mids) services []"

fun route_all :: "(int, int list) omap \<Rightarrow> GSKernel \<Rightarrow> GSKernel" where
  "route_all [] k = k"
| "route_all ((s, mids) # rest) k =
     (case connectServiceSession s k of
        None \<Rightarrow> route_all rest k
      | Some session \<Rightarrow>
          route_all rest (k\<lparr>matchesServices := fold (\<lambda>i. AList.update i session) mids (matchesServices k)\<rparr>))"

definition gs_distibuteMatchesNotify :: "(int \<times> int list) list option \<Rightarrow> GSKernel \<Rightarrow> GSKernel" where
  "gs_distibuteMatchesNotify notify k = (case notify of
     None \<Rightarrow> k
   | Some services \<Rightarrow> (route_all (match_distr services) k)\<lparr>matchesDistriMaps := match_distr services\<rparr>)"

section \<open>Passing packets on\<close>

definition gs_transToLS :: "byte list \<Rightarrow> PacketHeader \<Rightarrow> GSKernel \<Rightarrow> command list" where
  "gs_transToLS body h k = (case loginSession k of
     Some s \<Rightarrow> [Forward (ToSession (ref_uuid s)) h body] | None \<Rightarrow> [])"

definition gs_transToCS :: "byte list \<Rightarrow> PacketHeader \<Rightarrow> GSKernel \<Rightarrow> command list" where
  "gs_transToCS body h k = (case centralSession k of
     Some s \<Rightarrow> [Forward (ToSession (ref_uuid s)) h body] | None \<Rightarrow> [])"

definition gs_transToMS :: "byte list \<Rightarrow> PacketHeader \<Rightarrow> int \<Rightarrow> GSKernel \<Rightarrow> command list" where
  "gs_transToMS body h i k =
     (if matchesServices k \<noteq> []
      then case matchServiceSession i k of
        Some s \<Rightarrow> [Forward (ToSession (ref_uuid s)) h body]
      | None \<Rightarrow> []
      else [])"

definition gs_transToClient :: "byte list \<Rightarrow> PacketHeader \<Rightarrow> command list" where
  "gs_transToClient body h = [Forward (ToUuid (sint (extraID h))) h body]"

definition in_range :: "int \<Rightarrow> int \<Rightarrow> PacketHeader \<Rightarrow> bool" where
  "in_range lo hi h = (lo \<le> sint (ptype h) \<and> sint (ptype h) \<le> hi)"

definition CGSession_handlerMsg :: "int32_w \<Rightarrow> byte list \<Rightarrow> PacketHeader \<Rightarrow> GSKernel \<Rightarrow> command list" where
  "CGSession_handlerMsg u body h k =
     (if in_range 10000 16000 h
      then let netHeader = h\<lparr>extraID := u\<rparr>
        in if in_range 11000 12000 h then gs_transToCS body netHeader k
           else if in_range 15000 16000 h then gs_transToMS body netHeader (sint (extraID h)) k
           else if in_range 10000 10500 h then gs_transToLS body netHeader k
           else []
      else [])"

definition CGSession_loginRQ :: "int32_w \<Rightarrow> byte list \<Rightarrow> int32_w \<Rightarrow> GSKernel \<Rightarrow> command list" where
  "CGSession_loginRQ u body len k =
     gs_transToLS body \<lparr>ptype = word_of_int kClientLoginRQ, psize = len, extraID = u\<rparr> k"

definition G2CSession_handlerMsg :: "(int \<times> int list) list option \<Rightarrow> byte list \<Rightarrow> PacketHeader \<Rightarrow> GSKernel \<Rightarrow> GSKernel \<times> command list" where
  "G2CSession_handlerMsg notify body h k =
     (if in_range 11000 12000 h then (k, gs_transToClient body h)
      else if sint (ptype h) = kServerAllMatchDistributeNotify then (gs_distibuteMatchesNotify notify k, [])
      else (k, []))"

definition G2LSession_handlerMsg :: "byte list \<Rightarrow> PacketHeader \<Rightarrow> command list" where
  "G2LSession_handlerMsg body h = (if in_range 10000 10500 h then gs_transToClient body h else [])"

definition G2MSession_handlerMsg :: "byte list \<Rightarrow> PacketHeader \<Rightarrow> command list" where
  "G2MSession_handlerMsg body h = (if in_range 15000 16000 h then gs_transToClient body h else [])"

definition G2LSession_loginRS :: "byte list \<Rightarrow> PacketHeader \<Rightarrow> command list" where
  "G2LSession_loginRS body h = [Forward (ToUuid (sint (extraID h))) h body]"

definition G2CSession_sendInitData :: "ConfigInfo list \<Rightarrow> session_ref \<Rightarrow> command list" where
  "G2CSession_sendInitData config session = sendRegisterData config session"

text \<open>The same for the sessions to the login and to the match servers.\<close>

definition gs_service_onClose :: "session_ref \<Rightarrow> GSKernel \<Rightarrow> (GSKernel \<times> command list) result" where
  "gs_service_onClose session k =
     rbind (removeServiceSession gs_updateServiceConnect (ref_uuid session) k) (\<lambda>k'.
       Inr (k', [UnenableRetry (ref_uuid session)]))"

section \<open>The kernel as a service kernel\<close>

interpretation gs: service_callback gs_updateServiceConnect
  by unfold_locales (simp add: gs_updateServiceConnect_def removeConnectMatchService_def Let_def)

section \<open>Routes\<close>

definition route :: "GSKernel \<Rightarrow> int \<Rightarrow> session_ref option" where
  "route k i = map_of (matchesServices k) i"

lemma map_of_fold_update:
  "map_of (fold (\<lambda>i. AList.update i s) mids al) i = (if i \<in> set mids then Some s else map_of al i)"
  by (induction mids arbitrary: al) (auto simp: update_conv')

lemma route_all_keeps [simp]: "connectServices (route_all m k) = connectServices k"
  by (induction m k rule: route_all.induct) (auto split: option.splits)

lemma connectServiceSession_cong:
  "connectServices k = connectServices k' \<Longrightarrow> connectServiceSession s k = connectServiceSession s k'"
  by (simp add: connectServiceSession_def)

text \<open>The last service that lists a match and is connected gets its route.\<close>

fun last_route :: "(int \<Rightarrow> session_ref option) \<Rightarrow> int \<Rightarrow> (int, int list) omap \<Rightarrow> session_ref option \<Rightarrow> session_ref option" where
  "last_route c i [] r = r"
| "last_route c i ((s, mids) # rest) r =
     last_route c i rest (if i \<in> set mids \<and> c s \<noteq> None then c s else r)"

lemma route_all_route:
  "route (route_all m k) i = last_route (\<lambda>s. connectServiceSession s k) i m (route k i)"
proof (induction m k rule: route_all.induct)
  case (2 s mids rest k)
  show ?case
  proof (cases "connectServiceSession s k")
    case None
    then show ?thesis
      using 2 by simp
  next
    case (Some session)
    let ?k = "k\<lparr>matchesServices := fold (\<lambda>i. AList.update i session) mids (matchesServices k)\<rparr>"
    have "(\<lambda>q. connectServiceSession q ?k) = (\<lambda>q. connectServiceSession q k)"
      by (intro ext connectServiceSession_cong) simp
    moreover have "route ?k i = (if i \<in> set mids then Some session else route k i)"
      by (simp add: route_def map_of_fold_update)
    ultimately show ?thesis
      using 2(2) [OF Some] Some by simp
  qed
qed simp

lemma last_route_other:
  "\<forall>e \<in> set m. i \<in> set (snd e) \<longrightarrow> c (fst e) = None \<Longrightarrow> last_route c i m r = r"
  by (induction c i m r rule: last_route.induct) auto

lemma last_route_hit:
  "\<forall>e \<in> set m. i \<in> set (snd e) \<longrightarrow> fst e = s \<Longrightarrow> c s = Some session \<Longrightarrow>
     (\<exists>e \<in> set m. i \<in> set (snd e)) \<or> r = Some session \<Longrightarrow> last_route c i m r = Some session"
  by (induction c i m r rule: last_route.induct) (force split: if_splits)+

lemma match_distr_entries:
  "set (match_distr services) = {(s, mids). map_of (rev services) s = Some mids}"
proof -
  have "om_ok id (match_distr services)" "om_lookup id (match_distr services) = map_of (rev services)"
    using im.store_all [of "[]" services]
    by (simp_all add: match_distr_def map_add_def fun_eq_iff om_lookup_Nil split: option.splits)
  then show ?thesis
    using om_lookup_iff [of "match_distr services"] by auto
qed

text \<open>After a notification of the central server every match it assigns to a connected match
  server (and to no other) is routed to the session of that server.\<close>

lemma notified_route:
  assumes "(s, mids) \<in> set services" and "distinct (map fst services)" and "i \<in> set mids"
    and "\<forall>e \<in> set services. i \<in> set (snd e) \<longrightarrow> fst e = s" and "connectServiceSession s k = Some session"
  shows "matchServiceSession i (gs_distibuteMatchesNotify (Some services) k) = Some session"
proof -
  have "map_of (rev services) s = Some mids"
    using assms(1,2) by (simp add: map_of_eq_Some_iff distinct_rev rev_map [symmetric])
  then have "\<exists>e \<in> set (match_distr services). i \<in> set (snd e)"
    using assms(3) by (auto simp: match_distr_entries)
  moreover have "\<forall>e \<in> set (match_distr services). i \<in> set (snd e) \<longrightarrow> fst e = s"
    using assms(4) by (fastforce simp: match_distr_entries dest!: map_of_SomeD)
  ultimately have "route (route_all (match_distr services) k) i = Some session"
    using assms(5) by (simp add: route_all_route last_route_hit)
  then show ?thesis
    by (simp add: gs_distibuteMatchesNotify_def matchServiceSession_def route_def)
qed

section \<open>Properties\<close>

definition sample_gate :: GSKernel where
  "sample_gate = GSKernel_new\<lparr>
     connectServices := [(4, \<lparr>sc_type = 3, sc_port = 7000, sc_sid = 11, sc_ip = ''10.0.0.4'',
       sc_session = Some \<lparr>ref_uuid = 4, ref_type = 3, ref_logicID = 11\<rparr>\<rparr>)],
     matchesServices := [(9, \<lparr>ref_uuid = 5, ref_type = 3, ref_logicID = 12\<rparr>)],
     centralSession := Some \<lparr>ref_uuid = 1, ref_type = 5, ref_logicID = 0\<rparr>\<rparr>"

text \<open>A client packet is passed on by its message id: 11000 to 12000 to the central server,
  15000 to 16000 to the server of the match named in its \<open>extraID\<close>, 10000 to 10500 to the login
  server; each time to one session only, with the body unchanged and the client's uuid as
  \<open>extraID\<close>, and nothing is sent when that server is not connected or for any other id.\<close>

theorem gate_routes_by_message_id:
  "CGSession_handlerMsg u body h k =
     (case (if 11000 \<le> sint (ptype h) \<and> sint (ptype h) \<le> 12000 then centralSession k
            else if 15000 \<le> sint (ptype h) \<and> sint (ptype h) \<le> 16000 then matchServiceSession (sint (extraID h)) k
            else if 10000 \<le> sint (ptype h) \<and> sint (ptype h) \<le> 10500 then loginSession k
            else None) of
        None \<Rightarrow> []
      | Some s \<Rightarrow> [Forward (ToSession (ref_uuid s)) \<lparr>ptype = ptype h, psize = psize h, extraID = u\<rparr> body])"
  by (cases h) (auto simp: CGSession_handlerMsg_def in_range_def gs_transToCS_def gs_transToMS_def gs_transToLS_def
      matchServiceSession_def Let_def split: option.splits)

text \<open>The reply of a server to a packet of a client, in the id range of that server and with the
  \<open>extraID\<close> the packet was passed on with, goes to the uuid of that client.\<close>

theorem gate_replies_to_the_client:
  assumes "0 \<le> u" and "u < 2 ^ 31" and "extraID h = word_of_int u"
  shows "(in_range 11000 12000 h \<longrightarrow> G2CSession_handlerMsg notify body h k = (k, [Forward (ToUuid u) h body])) \<and>
    (in_range 10000 10500 h \<longrightarrow> G2LSession_handlerMsg body h = [Forward (ToUuid u) h body]) \<and>
    (in_range 15000 16000 h \<longrightarrow> G2MSession_handlerMsg body h = [Forward (ToUuid u) h body])"
proof -
  have "sint (word_of_int u :: int32_w) = u"
    using assms(1,2) by (simp add: sint_sbintrunc' signed_take_bit_int_eq_self)
  then show ?thesis
    using assms(3)
    by (simp add: G2CSession_handlerMsg_def G2LSession_handlerMsg_def G2MSession_handlerMsg_def gs_transToClient_def)
qed

theorem gate_replies_to_the_client_witness:
  "G2MSession_handlerMsg [1] \<lparr>ptype = 15002, psize = 1, extraID = 6\<rparr> =
     [Forward (ToUuid 6) \<lparr>ptype = 15002, psize = 1, extraID = 6\<rparr> [1]]"
  using gate_replies_to_the_client [of 6 "\<lparr>ptype = 15002, psize = 1, extraID = 6\<rparr>" None "[1]" sample_gate]
  by (simp add: in_range_def)

text \<open>A match that a notification no longer assigns to any service keeps its old route: its
  packets still go to the server that ran it before.\<close>

theorem dropped_match_keeps_its_route:
  assumes "\<forall>e \<in> set services. i \<notin> set (snd e)"
  shows "matchServiceSession i (gs_distibuteMatchesNotify (Some services) k) = matchServiceSession i k"
proof -
  have "\<forall>e \<in> set (match_distr services). i \<notin> set (snd e)"
    using assms by (fastforce simp: match_distr_entries dest!: map_of_SomeD)
  then have "route (route_all (match_distr services) k) i = route k i"
    by (simp add: route_all_route last_route_other)
  then show ?thesis
    by (simp add: gs_distibuteMatchesNotify_def matchServiceSession_def route_def)
qed

theorem dropped_match_keeps_its_route_witness:
  "matchServiceSession 9 (gs_distibuteMatchesNotify (Some [(11, [8])]) sample_gate) =
     Some \<lparr>ref_uuid = 5, ref_type = 3, ref_logicID = 12\<rparr>"
  using dropped_match_keeps_its_route [of "[(11, [8])]" 9 sample_gate]
  by (simp add: sample_gate_def matchServiceSession_def)

end
