(* ===== verification/MatchServer.thy ===== *)
theory MatchServer
  imports CPGSession StdContainers
begin

text \<open>
  The match server: the matches it was given and their player counts (MSMatchManager.cpp), its
  kernel (MSKernel.cpp), the session to the central server (M2CSession.cpp) and the sessions of
  the gates (GateSession.cpp). The singletons are one state, \<open>MSKernel\<close>. A handler gets its
  message parsed, \<open>None\<close> when \<open>parseProtoMsg\<close> fails; where the code reads the fields of a
  message that failed to parse, it gets them with a flag. Player counts are unbounded: the
  \<open>int\<close> of the source overflows after \<open>2 ^ 31\<close> requests for one match.
\<close>

section \<open>Matches and their players\<close>

record MSMatchManager =
  ms_matches :: "int list"
  testMatchinfos :: "(int, int) omap"

definition MSMatchManager_new :: MSMatchManager where
  "MSMatchManager_new = \<lparr>ms_matches = [], testMatchinfos = []\<rparr>"

text \<open>\<open>map[k]\<close> inserts 0 when the key is missing.\<close>

definition map_index :: "int \<Rightarrow> (int, int) omap \<Rightarrow> int \<times> (int, int) omap" where
  "map_index i m = (case om_find id i m of Some e \<Rightarrow> (snd e, m) | None \<Rightarrow> (0, om_insert id i 0 m))"

fun carry_over :: "int list \<Rightarrow> (int, int) omap \<Rightarrow> (int, int) omap \<Rightarrow> (int, int) omap \<times> (int, int) omap" where
  "carry_over [] tmp infos = (tmp, infos)"
| "carry_over (i # is) tmp infos =
     (let (n, infos') = map_index i infos in carry_over is (om_assign id i n tmp) infos')"

definition updateMatches :: "int list \<Rightarrow> MSMatchManager \<Rightarrow> MSMatchManager" where
  "updateMatches mids m =
     (let (tmp, infos) = carry_over mids [] (testMatchinfos m)
      in m\<lparr>ms_matches := mids, testMatchinfos := tmp\<rparr>)"

definition ms_joinMatch :: "int \<Rightarrow> int \<Rightarrow> int \<Rightarrow> MSMatchManager \<Rightarrow> int \<times> MSMatchManager" where
  "ms_joinMatch uid i mtype m = (case om_find id i (testMatchinfos m) of
     Some e \<Rightarrow> (snd e + 1, m\<lparr>testMatchinfos := om_modify id i (\<lambda>n. n + 1) (testMatchinfos m)\<rparr>)
   | None \<Rightarrow> (- 1, m))"

definition ms_unjoinMatch :: "int \<Rightarrow> int \<Rightarrow> int \<Rightarrow> MSMatchManager \<Rightarrow> int \<times> MSMatchManager" where
  "ms_unjoinMatch uid i mtype m = (case om_find id i (testMatchinfos m) of
     Some e \<Rightarrow> (snd e - 1, m\<lparr>testMatchinfos := om_modify id i (\<lambda>n. n - 1) (testMatchinfos m)\<rparr>)
   | None \<Rightarrow> (- 1, m))"

section \<open>Kernel\<close>

record MSKernel = ServiceKernel +
  ms_centralSession :: "session_ref option"
  ms_manager :: MSMatchManager

record MatchRQ =
  m_uid :: int
  m_mid :: int
  m_mtype :: int

definition ms_sessionFactory :: "int \<Rightarrow> int option" where
  "ms_sessionFactory t = (if t = ServerType_GateServer then Some ServerType_GateServer else None)"

definition ms_createConnectorSession :: "int \<Rightarrow> string" where
  "ms_createConnectorSession t = (if t = ServerType_CentralServer then ''M2CSession'' else ''ClientSession'')"

definition ms_updateServiceConnect :: "session_ref \<Rightarrow> ServiceState \<Rightarrow> MSKernel \<Rightarrow> MSKernel" where
  "ms_updateServiceConnect session st k =
     (if st = kClose
      then if same_session (ms_centralSession k) session then k\<lparr>ms_centralSession := None\<rparr> else k
      else if ref_type session = ServerType_CentralServer then k\<lparr>ms_centralSession := Some session\<rparr> else k)"

definition ms_transToCS :: "byte list \<Rightarrow> PacketHeader \<Rightarrow> MSKernel \<Rightarrow> command list" where
  "ms_transToCS body h k = (case ms_centralSession k of
     Some s \<Rightarrow> [Forward (ToSession (ref_uuid s)) h body] | None \<Rightarrow> [])"

text \<open>\<open>sendMsg\<close> does not use its argument \<open>type\<close>.\<close>

definition ms_sendMsg :: "session_ref \<Rightarrow> message \<Rightarrow> int \<Rightarrow> int \<Rightarrow> command list" where
  "ms_sendMsg session msg type extraId = [Send (ToSession (ref_uuid session)) kCheckMatchDistributeRQ msg extraId]"

definition checkMatchDistributeRS :: "(int \<times> int list) option \<Rightarrow> MSKernel \<Rightarrow> MSKernel" where
  "checkMatchDistributeRS rs k = (case rs of
     None \<Rightarrow> k
   | Some (result, mids) \<Rightarrow>
       if result = 1 \<or> result = 2 then k\<lparr>ms_manager := updateMatches mids (ms_manager k)\<rparr> else k)"

definition ms_distibuteMatchesNotify :: "int list option \<Rightarrow> MSKernel \<Rightarrow> MSKernel" where
  "ms_distibuteMatchesNotify notify k = (case notify of
     None \<Rightarrow> k | Some mids \<Rightarrow> k\<lparr>ms_manager := updateMatches mids (ms_manager k)\<rparr>)"

definition joinMatchRQ :: "session_ref \<Rightarrow> bool \<times> MatchRQ \<Rightarrow> int \<Rightarrow> MSKernel \<Rightarrow> MSKernel \<times> command list" where
  "joinMatchRQ session parsed extraId k =
     (let (parse_ok, rq) = parsed;
          (result, remain, k') =
            (if parse_ok
             then let (n, mm) = ms_joinMatch (m_uid rq) (m_mid rq) (m_mtype rq) (ms_manager k)
                  in (0, n, k\<lparr>ms_manager := mm\<rparr>)
             else (- 1, 0, k))
      in (k', [Send (ToSession (ref_uuid session)) kJoinMatchRS
                (JoinMatchRS (m_uid rq) (m_mid rq) (m_mtype rq) remain result) extraId]))"

definition unjoinMatchRQ :: "session_ref \<Rightarrow> bool \<times> MatchRQ \<Rightarrow> int \<Rightarrow> MSKernel \<Rightarrow> MSKernel \<times> command list" where
  "unjoinMatchRQ session parsed extraId k =
     (let (parse_ok, rq) = parsed;
          (result, remain, k') =
            (if parse_ok
             then let (n, mm) = ms_unjoinMatch (m_uid rq) (m_mid rq) (m_mtype rq) (ms_manager k)
                  in (0, n, k\<lparr>ms_manager := mm\<rparr>)
             else (- 1, 0, k))
      in (k', [Send (ToSession (ref_uuid session)) kUnjoinMatchRS
                (UnjoinMatchRS (m_uid rq) (m_mid rq) (m_mtype rq) remain result) extraId]))"

section \<open>Sessions\<close>

definition MSGateSession_handlerMsg :: "session_ref \<Rightarrow> int \<Rightarrow> bool \<times> MatchRQ \<Rightarrow> int \<Rightarrow> MSKernel \<Rightarrow> MSKernel \<times> command list" where
  "MSGateSession_handlerMsg session ty parsed extraId k =
     (if ty = kJoinMatchRQ then joinMatchRQ session parsed extraId k
      else if ty = kUnjoinMatchRQ then unjoinMatchRQ session parsed extraId k
      else (k, []))"

text \<open>The session to the central server asks for a check on every connection but its first. Its
  timer for heartbeats is left out.\<close>

record M2CSession =
  m2c_ref :: session_ref
  firstConnect :: bool

definition checkMatchDistribute :: "M2CSession \<Rightarrow> MSKernel \<Rightarrow> command list" where
  "checkMatchDistribute s k =
     ms_sendMsg (m2c_ref s)
       (CheckMatchDistributeRQ (ref_logicID (m2c_ref s)) ServerType_MatchServer (ms_matches (ms_manager k)))
       kCheckMatchDistributeRQ (ref_uuid (m2c_ref s))"

definition M2CSession_sendInitData :: "ConfigInfo list \<Rightarrow> M2CSession \<Rightarrow> MSKernel \<Rightarrow> M2CSession \<times> command list" where
  "M2CSession_sendInitData config s k =
     (if firstConnect s
      then (s\<lparr>firstConnect := False\<rparr>, sendRegisterData config (m2c_ref s))
      else (s, sendRegisterData config (m2c_ref s) @ checkMatchDistribute s k))"

datatype m2c_body = BCheckRS int "int list" | BDistribute "int list"

definition M2CSession_handlerMsg :: "int \<Rightarrow> m2c_body option \<Rightarrow> MSKernel \<Rightarrow> MSKernel" where
  "M2CSession_handlerMsg ty body k =
     (if ty = kCheckMatchDistributeRS
      then checkMatchDistributeRS (case body of Some (BCheckRS r mids) \<Rightarrow> Some (r, mids) | _ \<Rightarrow> None) k
      else if ty = kServerMatchDistributeNotify
      then ms_distibuteMatchesNotify (case body of Some (BDistribute mids) \<Rightarrow> Some mids | _ \<Rightarrow> None) k
      else k)"

interpretation ms: service_callback ms_updateServiceConnect
  by unfold_locales (simp add: ms_updateServiceConnect_def)

section \<open>Specification: counts per match\<close>

datatype ms_op = Assign "int list" | Join int int int | Unjoin int int int

fun ms_exec :: "ms_op \<Rightarrow> MSMatchManager \<Rightarrow> int \<times> MSMatchManager" where
  "ms_exec (Assign mids) m = (0, updateMatches mids m)"
| "ms_exec (Join u i t) m = ms_joinMatch u i t m"
| "ms_exec (Unjoin u i t) m = ms_unjoinMatch u i t m"

fun ms_run :: "ms_op list \<Rightarrow> MSMatchManager \<Rightarrow> int list \<times> MSMatchManager" where
  "ms_run [] m = ([], m)"
| "ms_run (c # cs) m = (let (r, m1) = ms_exec c m; (rs, m2) = ms_run cs m1 in (r # rs, m2))"

text \<open>What a match server promises: each of its matches has a count that starts at 0 and follows
  the requests; a match it keeps keeps its count.\<close>

fun spec_exec :: "ms_op \<Rightarrow> (int \<rightharpoonup> int) \<Rightarrow> int \<times> (int \<rightharpoonup> int)" where
  "spec_exec (Assign mids) a =
     (0, \<lambda>i. if i \<in> set mids then Some (case a i of None \<Rightarrow> 0 | Some n \<Rightarrow> n) else None)"
| "spec_exec (Join u i t) a = (case a i of None \<Rightarrow> (- 1, a) | Some n \<Rightarrow> (n + 1, a(i \<mapsto> n + 1)))"
| "spec_exec (Unjoin u i t) a = (case a i of None \<Rightarrow> (- 1, a) | Some n \<Rightarrow> (n - 1, a(i \<mapsto> n - 1)))"

fun spec_run :: "ms_op list \<Rightarrow> (int \<rightharpoonup> int) \<Rightarrow> int list \<times> (int \<rightharpoonup> int)" where
  "spec_run [] a = ([], a)"
| "spec_run (c # cs) a = (let (r, a1) = spec_exec c a; (rs, a2) = spec_run cs a1 in (r # rs, a2))"

definition counts :: "MSMatchManager \<Rightarrow> int \<rightharpoonup> int" where
  "counts m = om_lookup id (testMatchinfos m)"

definition ms_ok :: "MSMatchManager \<Rightarrow> bool" where
  "ms_ok m \<longleftrightarrow> om_ok id (testMatchinfos m) \<and> dom (counts m) = set (ms_matches m)"

definition count_or_0 :: "(int \<rightharpoonup> int) \<Rightarrow> int \<Rightarrow> int" where
  "count_or_0 a i = (case a i of None \<Rightarrow> 0 | Some n \<Rightarrow> n)"

lemma map_index_spec:
  assumes "om_ok id m" and "map_index i m = (n, m')"
  shows "om_ok id m'" "n = count_or_0 (om_lookup id m) i" "count_or_0 (om_lookup id m') = count_or_0 (om_lookup id m)"
proof -
  show "n = count_or_0 (om_lookup id m) i"
    using assms(2) by (auto simp: map_index_def count_or_0_def om_lookup_def split: option.splits)
  show "om_ok id m'"
    using assms by (auto simp: map_index_def om_insert_ok simp del: id_apply split: option.splits)
  show "count_or_0 (om_lookup id m') = count_or_0 (om_lookup id m)"
  proof (cases "om_find id i m")
    case None
    then have "m' = om_insert id i 0 m" "om_lookup id m i = None"
      using assms(2) by (simp_all add: map_index_def om_lookup_def)
    then show ?thesis
      using om_lookup_insert [OF assms(1), of i 0] by (auto simp: fun_eq_iff count_or_0_def)
  next
    case (Some e)
    then show ?thesis
      using assms(2) by (simp add: map_index_def)
  qed
qed

lemma carry_over_spec:
  assumes "om_ok id tmp" and "om_ok id infos" and "carry_over is tmp infos = (tmp', infos')"
  shows "om_ok id tmp' \<and> om_lookup id tmp' =
    (\<lambda>i. if i \<in> set is then Some (count_or_0 (om_lookup id infos) i) else om_lookup id tmp i)"
  using assms
proof (induction "is" arbitrary: tmp infos)
  case (Cons i "is")
  obtain n infos1 where idx: "map_index i infos = (n, infos1)"
    by fastforce
  note spec = map_index_spec [OF Cons.prems(2) idx]
  have rest: "carry_over is (om_assign id i n tmp) infos1 = (tmp', infos')"
    using Cons.prems(3) idx by simp
  show ?case
    using Cons.IH [OF om_assign_ok [OF Cons.prems(1)] spec(1) rest] im.lookup_store [OF Cons.prems(1), of i n] spec(2,3)
    by (auto simp: fun_eq_iff)
qed simp

lemma adjust_count:
  assumes "ms_ok m" and "om_find id i (testMatchinfos m) = Some e"
  shows "ms_ok (m\<lparr>testMatchinfos := om_modify id i f (testMatchinfos m)\<rparr>)"
    "counts (m\<lparr>testMatchinfos := om_modify id i f (testMatchinfos m)\<rparr>) = (counts m)(i \<mapsto> f (snd e))"
    "counts m i = Some (snd e)"
proof -
  show e: "counts m i = Some (snd e)"
    using assms(2) by (simp add: counts_def om_lookup_def)
  then show c: "counts (m\<lparr>testMatchinfos := om_modify id i f (testMatchinfos m)\<rparr>) = (counts m)(i \<mapsto> f (snd e))"
    using assms(1) im.lookup_modify [of "testMatchinfos m" i f] by (simp add: counts_def ms_ok_def)
  show "ms_ok (m\<lparr>testMatchinfos := om_modify id i f (testMatchinfos m)\<rparr>)"
    using assms(1) e unfolding ms_ok_def c by auto
qed

lemma ms_exec_refines:
  assumes "ms_ok m" and "ms_exec c m = (r, m')"
  shows "ms_ok m' \<and> spec_exec c (counts m) = (r, counts m')"
proof (cases c)
  case (Assign mids)
  obtain tmp infos where c: "carry_over mids [] (testMatchinfos m) = (tmp, infos)"
    by fastforce
  have "om_ok id tmp" "om_lookup id tmp = (\<lambda>i. if i \<in> set mids then Some (count_or_0 (counts m) i) else None)"
    using carry_over_spec [OF om_ok_Nil _ c] assms(1) by (simp_all add: ms_ok_def counts_def cong: if_cong)
  moreover have "m' = m\<lparr>ms_matches := mids, testMatchinfos := tmp\<rparr>" "r = 0"
    using assms(2) Assign c by (simp_all add: updateMatches_def)
  ultimately show ?thesis
    using Assign by (auto simp: ms_ok_def counts_def count_or_0_def dom_def fun_eq_iff)
next
  case (Join u i t)
  then show ?thesis
    using assms adjust_count [OF assms(1)]
    by (cases "om_find id i (testMatchinfos m)") (auto simp: ms_joinMatch_def counts_def om_lookup_def)
next
  case (Unjoin u i t)
  then show ?thesis
    using assms adjust_count [OF assms(1)]
    by (cases "om_find id i (testMatchinfos m)") (auto simp: ms_unjoinMatch_def counts_def om_lookup_def)
qed

lemma updateMatches_counts:
  assumes "ms_ok m" and "i \<in> set mids"
  shows "counts (updateMatches mids m) i \<noteq> None"
proof -
  have "counts (updateMatches mids m) =
      (\<lambda>i. if i \<in> set mids then Some (case counts m i of None \<Rightarrow> 0 | Some n \<Rightarrow> n) else None)"
    using ms_exec_refines [OF assms(1), of "Assign mids"] by simp
  then show ?thesis
    using assms(2) by simp
qed

lemma ms_run_refines:
  "ms_ok m \<Longrightarrow> ms_run cs m = (rs, m') \<Longrightarrow> ms_ok m' \<and> spec_run cs (counts m) = (rs, counts m')"
proof (induction cs arbitrary: m rs)
  case (Cons c cs)
  obtain r m1 where c: "ms_exec c m = (r, m1)"
    by fastforce
  then obtain rs' where rest: "ms_run cs m1 = (rs', m')" "rs = r # rs'"
    using Cons.prems(2) by (auto split: prod.splits)
  show ?case
    using ms_exec_refines [OF Cons.prems(1) c] Cons.IH [OF _ rest(1)] rest(2) by simp
qed simp

section \<open>Properties\<close>

text \<open>C21: The match manager implements its specification: over every sequence of assignments and
  join and unjoin requests the replies are those of a map of counts, which is what the two
  fields hold at the end, and the counted matches are exactly the assigned ones.\<close>

theorem match_counts_refine:
  "spec_run cs Map.empty = (fst (ms_run cs MSMatchManager_new), counts (snd (ms_run cs MSMatchManager_new))) \<and>
     dom (counts (snd (ms_run cs MSMatchManager_new))) = set (ms_matches (snd (ms_run cs MSMatchManager_new)))"
proof -
  have "counts MSMatchManager_new = Map.empty"
    by (simp add: counts_def MSMatchManager_new_def fun_eq_iff)
  moreover from this have "ms_ok MSMatchManager_new"
    by (simp add: ms_ok_def) (simp add: MSMatchManager_new_def)
  ultimately show ?thesis
    using ms_run_refines [of MSMatchManager_new cs] by (cases "ms_run cs MSMatchManager_new") (simp add: ms_ok_def)
qed

text \<open>A request to join a match the server does not run is answered with result 0, success, and
  -1 players, and changes nothing; so is an unjoin request, while one for a match nobody has
  joined succeeds and gives the same -1 players.\<close>

theorem unknown_match_is_answered_with_success:
  assumes "counts (ms_manager k) (m_mid rq) = None" and "counts (ms_manager k') (m_mid rq) = Some 0"
  shows "joinMatchRQ session (True, rq) x k = (k, [Send (ToSession (ref_uuid session)) kJoinMatchRS
      (JoinMatchRS (m_uid rq) (m_mid rq) (m_mtype rq) (- 1) 0) x]) \<and>
    unjoinMatchRQ session (True, rq) x k = (k, [Send (ToSession (ref_uuid session)) kUnjoinMatchRS
      (UnjoinMatchRS (m_uid rq) (m_mid rq) (m_mtype rq) (- 1) 0) x]) \<and>
    snd (unjoinMatchRQ session (True, rq) x k') = snd (unjoinMatchRQ session (True, rq) x k)"
  using assms by (auto simp: counts_def om_lookup_def joinMatchRQ_def unjoinMatchRQ_def ms_joinMatch_def
      ms_unjoinMatch_def)

definition sample_ms :: "int list \<Rightarrow> MSKernel" where
  "sample_ms mids = \<lparr>connectServices = [], ms_centralSession = None, ms_manager = updateMatches mids MSMatchManager_new\<rparr>"

theorem unknown_match_is_answered_with_success_witness:
  "snd (joinMatchRQ \<lparr>ref_uuid = 4, ref_type = 1, ref_logicID = 9\<rparr> (True, \<lparr>m_uid = 1, m_mid = 7, m_mtype = 0\<rparr>) 6
      (sample_ms [5])) = [Send (ToSession 4) kJoinMatchRS (JoinMatchRS 1 7 0 (- 1) 0) 6]"
  using unknown_match_is_answered_with_success [of "sample_ms [5]" "\<lparr>m_uid = 1, m_mid = 7, m_mtype = 0\<rparr>" "sample_ms [7]"]
  by (simp add: sample_ms_def counts_def updateMatches_def MSMatchManager_new_def map_index_def om_assign_def
      om_modify_def om_lookup_def)

end
