(* ===== verification/LoginBalanceServers.thy ===== *)
theory LoginBalanceServers
  imports CPGSession
begin

text \<open>
  The two small servers. The login server (LSKernel.cpp, GateSession.cpp, L2CSession.cpp) answers
  every login request of a gate that it can parse with success. The balance server
  (BSKernel.cpp, ClientSession.cpp, B2CSession.cpp) passes the connect requests of clients on to
  the central server and its replies back. Both keep, beside the connections of a
  \<open>ServiceKernel\<close>, the session to the central server.
\<close>

record CentralClient = ServiceKernel +
  cc_centralSession :: "session_ref option"

definition CentralClient_new :: CentralClient where
  "CentralClient_new = \<lparr>connectServices = [], cc_centralSession = None\<rparr>"

section \<open>Login server\<close>

definition ls_sessionFactory :: "int \<Rightarrow> int option" where
  "ls_sessionFactory t = (if t = ServerType_GateServer then Some ServerType_GateServer else None)"

definition ls_createConnectorSession :: "int \<Rightarrow> string" where
  "ls_createConnectorSession t = (if t = ServerType_CentralServer then ''L2CSession'' else ''ClientSession'')"

definition ls_updateServiceConnect :: "session_ref \<Rightarrow> ServiceState \<Rightarrow> CentralClient \<Rightarrow> CentralClient" where
  "ls_updateServiceConnect session st k =
     (if st = kClose
      then if same_session (cc_centralSession k) session then k\<lparr>cc_centralSession := None\<rparr> else k
      else if ref_type session = ServerType_CentralServer then k\<lparr>cc_centralSession := Some session\<rparr> else k)"

definition ls_loginRQ :: "session_ref \<Rightarrow> message option \<Rightarrow> int \<Rightarrow> command list" where
  "ls_loginRQ session rq extraId =
     [Send (ToSession (ref_uuid session)) kClientLoginRS (LoginRS (case rq of Some _ \<Rightarrow> 0 | None \<Rightarrow> - 1)) extraId]"

definition LSGateSession_handlerMsg :: "session_ref \<Rightarrow> int \<Rightarrow> message option \<Rightarrow> int \<Rightarrow> command list" where
  "LSGateSession_handlerMsg session ty rq extraId =
     (if ty = kClientLoginRQ then ls_loginRQ session rq extraId else [])"

definition L2CSession_sendInitData :: "ConfigInfo list \<Rightarrow> session_ref \<Rightarrow> command list" where
  "L2CSession_sendInitData config session = sendRegisterData config session"

section \<open>Balance server\<close>

definition bs_sessionFactory :: "int \<Rightarrow> int option" where
  "bs_sessionFactory t = (if t = ServerType_Client then Some ServerType_Client else None)"

definition bs_createConnectorSession :: "int \<Rightarrow> string" where
  "bs_createConnectorSession t = (if t = ServerType_CentralServer then ''B2CSession'' else ''ClientSession'')"

definition bs_updateServiceConnect :: "session_ref \<Rightarrow> ServiceState \<Rightarrow> CentralClient \<Rightarrow> CentralClient" where
  "bs_updateServiceConnect session st k =
     (if st = kClose
      then if same_session (cc_centralSession k) session then k\<lparr>cc_centralSession := None\<rparr> else k
      else if ref_type session = ServerType_CentralServer then k\<lparr>cc_centralSession := Some session\<rparr> else k)"

definition bs_transToCS :: "byte list \<Rightarrow> PacketHeader \<Rightarrow> CentralClient \<Rightarrow> command list" where
  "bs_transToCS body h k = (case cc_centralSession k of
     Some s \<Rightarrow> [Forward (ToSession (ref_uuid s)) h body] | None \<Rightarrow> [])"

definition bs_transToClient :: "byte list \<Rightarrow> PacketHeader \<Rightarrow> command list" where
  "bs_transToClient body h = [Forward (ToUuid (sint (extraID h))) h body]"

definition bs_range :: "PacketHeader \<Rightarrow> bool" where
  "bs_range h \<longleftrightarrow> 17000 \<le> sint (ptype h) \<and> sint (ptype h) \<le> 17500"

definition CBSession_handlerMsg :: "int32_w \<Rightarrow> byte list \<Rightarrow> PacketHeader \<Rightarrow> CentralClient \<Rightarrow> command list" where
  "CBSession_handlerMsg u body h k = (if bs_range h then bs_transToCS body (h\<lparr>extraID := u\<rparr>) k else [])"

definition B2CSession_handlerMsg :: "byte list \<Rightarrow> PacketHeader \<Rightarrow> command list" where
  "B2CSession_handlerMsg body h = (if bs_range h then bs_transToClient body h else [])"

definition B2CSession_connectRS :: "byte list \<Rightarrow> PacketHeader \<Rightarrow> command list" where
  "B2CSession_connectRS body h = [Forward (ToUuid (sint (extraID h))) h body]"

definition B2CSession_sendInitData :: "ConfigInfo list \<Rightarrow> session_ref \<Rightarrow> command list" where
  "B2CSession_sendInitData config session = sendRegisterData config session"

interpretation ls: service_callback ls_updateServiceConnect
  by unfold_locales (simp add: ls_updateServiceConnect_def)

interpretation bls: service_callback bs_updateServiceConnect
  by unfold_locales (simp add: bs_updateServiceConnect_def)

section \<open>Properties\<close>

text \<open>The services a server is told about. When the central server names a service that is not
  connected yet, the kernel of the login server opens one connection to it and stores it under
  the uuid of the new session; a service with the same type, address and port is not connected
  again but gets its new id; the register of connections stays well formed.\<close>

theorem named_service_is_connected_once:
  assumes "sk_ok k" and "i \<noteq> - 1" and "connect t = Some new" and "ref_uuid new \<noteq> - 1"
  shows "\<exists>k' cmds. addNewConnect ls_updateServiceConnect connect t port i ip k = Inr (k', cmds) \<and> sk_ok k' \<and>
    (case find (\<lambda>e. sc_type (snd e) = t \<and> sc_port (snd e) = port \<and> sc_ip (snd e) = ip) (connectServices k) of
       Some e \<Rightarrow> cmds = [SetLogicID (fst e) i] \<and> map fst (connectServices k') = map fst (connectServices k) \<and>
         (\<exists>session. connectSession (fst e) k' = Some session \<and> ref_logicID session = i)
     | None \<Rightarrow> cmds = [] \<and> connectSession (ref_uuid new) k' = Some new \<and>
         set (map fst (connectServices k')) = insert (ref_uuid new) (set (map fst (connectServices k))))"
proof (cases "find (\<lambda>e. sc_type (snd e) = t \<and> sc_port (snd e) = port \<and> sc_ip (snd e) = ip) (connectServices k)")
  case (Some e)
  then show ?thesis
    using ls.add_known [OF assms(1,2) Some, of connect] by auto
next
  case None
  have "\<exists>k' cmds. addNewConnect ls_updateServiceConnect connect t port i ip k = Inr (k', cmds) \<and> sk_ok k'"
    using ls.add_ok [OF assms(1)] assms(3,4) by blast
  moreover have "checkConnectService \<lparr>sc_type = t, sc_port = port, sc_sid = i, sc_ip = ip, sc_session = None\<rparr> k = - 1"
    using None by (simp add: checkConnectService_def same_service_def)
  ultimately show ?thesis
    using None assms(3)
    by (auto simp: addNewConnect_def Let_def connectSession_def ls.upd_keeps update_conv' dom_update
      simp flip: dom_map_of_conv_image_fst)
qed

definition sample_login :: CentralClient where
  "sample_login = \<lparr>connectServices = [(0, \<lparr>sc_type = 5, sc_port = 6000, sc_sid = - 1, sc_ip = ''10.0.0.1'',
     sc_session = Some \<lparr>ref_uuid = 0, ref_type = 5, ref_logicID = - 1\<rparr>\<rparr>)], cc_centralSession = None\<rparr>"

theorem named_service_is_connected_once_witness:
  "\<exists>k' cmds. addNewConnect ls_updateServiceConnect
      (\<lambda>t. Some \<lparr>ref_uuid = 1, ref_type = t, ref_logicID = - 1\<rparr>) 5 6000 10000 ''10.0.0.1'' sample_login = Inr (k', cmds) \<and>
     sk_ok k' \<and> cmds = [SetLogicID 0 10000]"
proof -
  have "sk_ok sample_login"
    by (simp add: sk_ok_def sample_login_def)
  from named_service_is_connected_once [OF this, of 10000 "\<lambda>t. Some \<lparr>ref_uuid = 1, ref_type = t, ref_logicID = - 1\<rparr>" 5
      "\<lparr>ref_uuid = 1, ref_type = 5, ref_logicID = - 1\<rparr>" 6000 "''10.0.0.1''"]
  show ?thesis
    by (simp add: sample_login_def) blast
qed

end
