(* ===== verification/ObjectPool.thy ===== *)
theory ObjectPool
  imports Prelude
begin

text \<open>
  The memory pools of Net/Util/ObjectPool.hpp: \<open>ObjectPool\<close> and \<open>ThreadSafeObjectPool\<close>, each for
  raw pointers and for \<open>shared_ptr\<close>. A pool asks \<open>malloc\<close> for blocks of \<open>blockSize_\<close> objects and
  keeps the free places in a list. An address is a place in a block; \<open>Null n\<close> is the pointer
  arithmetic result \<open>NULL + n\<close>, which the code computes when \<open>malloc\<close> fails, since \<open>malloc\<close>
  returns \<open>NULL\<close> and does not throw. What \<open>malloc\<close> returns is an argument of the operations.
  The thread-safe operations hold the mutex of the pool for their whole access to it, so they are
  atomic. \<open>new (place) T\<close> runs a constructor in the place and gives its address.
\<close>

datatype addr = Place nat nat | Null nat

definition is_null :: "addr \<Rightarrow> bool" where
  "is_null a \<longleftrightarrow> a = Null 0"

record mem_pool =
  blocks :: "nat option list"
  free_list :: "addr list"
  blockSize :: nat

definition ObjectPool_new :: "nat \<Rightarrow> mem_pool" where
  "ObjectPool_new n = \<lparr>blocks = [], free_list = [], blockSize = n\<rparr>"

definition block_places :: "nat option \<Rightarrow> nat \<Rightarrow> addr list" where
  "block_places block n = map (\<lambda>i. case block of Some b \<Rightarrow> Place b i | None \<Rightarrow> Null i) [0..<n]"

section \<open>Raw pointers\<close>

definition getFreeObject :: "nat option \<Rightarrow> mem_pool \<Rightarrow> (addr \<times> mem_pool) result" where
  "getFreeObject malloc p =
     (let p1 = (if length (free_list p) = 0
                then p\<lparr>blocks := blocks p @ [malloc], free_list := free_list p @ block_places malloc (blockSize p)\<rparr>
                else p)
      in case free_list p1 of
           [] \<Rightarrow> Inl OutOfBounds
         | a # rest \<Rightarrow> Inr (a, p1\<lparr>free_list := rest\<rparr>))"

definition op_createObject :: "nat option \<Rightarrow> mem_pool \<Rightarrow> (addr \<times> mem_pool) result" where
  "op_createObject malloc p =
     rbind (getFreeObject malloc p) (\<lambda>(a, p'). case a of Place b i \<Rightarrow> Inr (a, p') | Null n \<Rightarrow> Inl NullDeref)"

definition op_releaseObject :: "addr \<Rightarrow> mem_pool \<Rightarrow> mem_pool" where
  "op_releaseObject a p = (if \<not> is_null a then p\<lparr>free_list := free_list p @ [a]\<rparr> else p)"

text \<open>The destructor gives every block that is not \<open>NULL\<close> back: the list of \<open>free\<close> calls.\<close>

fun op_destroy :: "nat option list \<Rightarrow> nat list" where
  "op_destroy [] = []"
| "op_destroy (None # bs) = op_destroy bs"
| "op_destroy (Some b # bs) = b # op_destroy bs"

section \<open>Raw pointers, thread-safe\<close>

definition enableEnoughObjects :: "nat option \<Rightarrow> mem_pool \<Rightarrow> mem_pool" where
  "enableEnoughObjects malloc p =
     (if length (free_list p) = 0
      then p\<lparr>blocks := blocks p @ [malloc], free_list := free_list p @ block_places malloc (blockSize p)\<rparr>
      else p)"

definition getFreeObjectMem :: "nat option \<Rightarrow> mem_pool \<Rightarrow> (addr \<times> mem_pool) result" where
  "getFreeObjectMem malloc p =
     (let p1 = enableEnoughObjects malloc p
      in case free_list p1 of
           [] \<Rightarrow> Inl OutOfBounds
         | a # rest \<Rightarrow> Inr (a, p1\<lparr>free_list := rest\<rparr>))"

text \<open>\<open>createObject\<close> returns \<open>nullptr\<close> for the first place of a failed block; any other \<open>NULL + n\<close>
  passes the test and is written to.\<close>

definition ts_createObject :: "nat option \<Rightarrow> mem_pool \<Rightarrow> (addr option \<times> mem_pool) result" where
  "ts_createObject malloc p =
     rbind (getFreeObjectMem malloc p) (\<lambda>(mem, p').
       if is_null mem then Inr (None, p')
       else case mem of Place b i \<Rightarrow> Inr (Some mem, p') | Null n \<Rightarrow> Inl NullDeref)"

definition ts_releaseObject :: "addr \<Rightarrow> mem_pool \<Rightarrow> mem_pool" where
  "ts_releaseObject a p = (if \<not> is_null a then p\<lparr>free_list := free_list p @ [a]\<rparr> else p)"

section \<open>Shared pointers\<close>

text \<open>A shared pointer returns its place through its deleter; \<open>releaseObject\<close> has an empty body.\<close>

definition sp_createObject :: "nat option \<Rightarrow> mem_pool \<Rightarrow> (addr \<times> mem_pool) result" where
  "sp_createObject malloc p =
     rbind (getFreeObject malloc p) (\<lambda>(a, p'). case a of Place b i \<Rightarrow> Inr (a, p') | Null n \<Rightarrow> Inl NullDeref)"

definition sp_releaseObject :: "addr \<Rightarrow> mem_pool \<Rightarrow> mem_pool" where
  "sp_releaseObject a p = p"

definition sp_releaseObj :: "addr \<Rightarrow> mem_pool \<Rightarrow> mem_pool" where
  "sp_releaseObj a p = (if \<not> is_null a then p\<lparr>free_list := free_list p @ [a]\<rparr> else p)"

definition tsp_createObject :: "nat option \<Rightarrow> mem_pool \<Rightarrow> (addr option \<times> mem_pool) result" where
  "tsp_createObject malloc p =
     rbind (getFreeObjectMem malloc p) (\<lambda>(mem, p').
       if is_null mem then Inr (None, p')
       else case mem of Place b i \<Rightarrow> Inr (Some mem, p') | Null n \<Rightarrow> Inl NullDeref)"

definition tsp_releaseObject :: "addr \<Rightarrow> mem_pool \<Rightarrow> mem_pool" where
  "tsp_releaseObject a p = p"

definition tsp_releaseObj :: "addr \<Rightarrow> mem_pool \<Rightarrow> mem_pool" where
  "tsp_releaseObj a p = (if \<not> is_null a then p\<lparr>free_list := free_list p @ [a]\<rparr> else p)"

section \<open>What the users of a pool rely on\<close>

text \<open>A run of requests: \<open>Inl b\<close> allocates, with \<open>b\<close> the block \<open>malloc\<close> would give, \<open>Inr n\<close> releases
  the \<open>n\<close>-th live place, if there is one.\<close>

fun run_requests ::
    "(nat option \<Rightarrow> 'p \<Rightarrow> (addr \<times> 'p) result) \<Rightarrow> (addr \<Rightarrow> 'p \<Rightarrow> 'p) \<Rightarrow> (nat + nat) list \<Rightarrow> 'p \<Rightarrow> addr list \<Rightarrow> ('p \<times> addr list) result" where
  "run_requests alloc dealloc [] p live = Inr (p, live)"
| "run_requests alloc dealloc (Inl b # rs) p live = rbind (alloc (Some b) p) (\<lambda>(a, p'). run_requests alloc dealloc rs p' (live @ [a]))"
| "run_requests alloc dealloc (Inr n # rs) p live =
     (if n < length live
      then run_requests alloc dealloc rs (dealloc (live ! n) p) (take n live @ drop (Suc n) live)
      else run_requests alloc dealloc rs p live)"

fun new_blocks :: "(nat + nat) list \<Rightarrow> nat list" where
  "new_blocks [] = []"
| "new_blocks (Inl b # rs) = b # new_blocks rs"
| "new_blocks (Inr n # rs) = new_blocks rs"

text \<open>
  A memory pool in use: \<open>free\<close> are the places it can hand out, and it may ask for a new block.
  The client keeps the set of live places. The law is that a place is handed out only when it is
  not live, and then it is live.
\<close>

locale memory =
  fixes ok :: "'p \<Rightarrow> addr set \<Rightarrow> bool"
    and alloc :: "nat option \<Rightarrow> 'p \<Rightarrow> (addr \<times> 'p) result"
    and dealloc :: "addr \<Rightarrow> 'p \<Rightarrow> 'p"
    and used :: "'p \<Rightarrow> nat set"
  assumes alloc_law: "ok p live \<Longrightarrow> b \<notin> used p \<Longrightarrow>
      \<exists>a p'. alloc (Some b) p = Inr (a, p') \<and> a \<notin> live \<and> ok p' (insert a live) \<and> used p' \<subseteq> insert b (used p)"
    and dealloc_law: "ok p live \<Longrightarrow> a \<in> live \<Longrightarrow> ok (dealloc a p) (live - {a}) \<and> used (dealloc a p) = used p"
begin

lemma remove_nth:
  assumes "distinct xs" and "n < length xs"
  shows "distinct (take n xs @ drop (Suc n) xs)" "set (take n xs @ drop (Suc n) xs) = set xs - {xs ! n}"
proof -
  have "xs = take n xs @ xs ! n # drop (Suc n) xs"
    using assms(2) by (rule id_take_nth_drop)
  then have "distinct (take n xs @ xs ! n # drop (Suc n) xs)" "set xs = set (take n xs @ xs ! n # drop (Suc n) xs)"
    using assms(1) by simp_all
  then show "distinct (take n xs @ drop (Suc n) xs)" "set (take n xs @ drop (Suc n) xs) = set xs - {xs ! n}"
    by auto
qed

lemma run_requests_distinct:
  assumes "ok p (set live)" and "distinct live" and "distinct (new_blocks rs)" and "set (new_blocks rs) \<inter> used p = {}"
  shows "\<exists>p' live'. run_requests alloc dealloc rs p live = Inr (p', live') \<and> distinct live' \<and> ok p' (set live')"
  using assms
proof (induction rs arbitrary: p live)
  case (Cons r rs)
  show ?case
  proof (cases r)
    case (Inl b)
    obtain a p' where a: "alloc (Some b) p = Inr (a, p')" "a \<notin> set live" "ok p' (insert a (set live))"
        "used p' \<subseteq> insert b (used p)"
      using alloc_law [OF Cons.prems(1), of b] Cons.prems(4) Inl by auto
    have "set (new_blocks rs) \<inter> used p' = {}"
      using a(4) Cons.prems(3,4) Inl by auto
    then show ?thesis
      using Cons.IH [of p' "live @ [a]"] a Cons.prems(2,3) Inl by simp
  next
    case (Inr n)
    show ?thesis
    proof (cases "n < length live")
      case True
      have "ok (dealloc (live ! n) p) (set live - {live ! n})" "used (dealloc (live ! n) p) = used p"
        using dealloc_law [OF Cons.prems(1)] True by simp_all
      then show ?thesis
        using Cons.IH [of "dealloc (live ! n) p" "take n live @ drop (Suc n) live"] Cons.prems Inr True
          remove_nth [OF Cons.prems(2) True] by simp
    qed (use Cons Inr in simp)
  qed
qed simp

end

definition used_blocks :: "mem_pool \<Rightarrow> nat set" where
  "used_blocks p = {b. Some b \<in> set (blocks p)}"

definition pool_inv :: "mem_pool \<Rightarrow> addr set \<Rightarrow> bool" where
  "pool_inv p live \<longleftrightarrow> 0 < blockSize p \<and> distinct (free_list p) \<and> set (free_list p) \<inter> live = {} \<and>
     (\<forall>a \<in> set (free_list p) \<union> live. \<exists>b i. a = Place b i \<and> b \<in> used_blocks p)"

lemma block_places_props:
  "distinct (block_places (Some b) n)" "set (block_places (Some b) n) = Place b ` {..<n}"
  by (auto simp: block_places_def distinct_map inj_on_def lessThan_atLeast0)

lemma pool_inv_new: "0 < n \<Longrightarrow> pool_inv (ObjectPool_new n) {}"
  by (simp add: pool_inv_def ObjectPool_new_def)

text \<open>With blocks that \<open>malloc\<close> has not given before, every pool hands out its next free place.\<close>

lemma refill:
  assumes "pool_inv p live" and "b \<notin> used_blocks p"
  shows "pool_inv (enableEnoughObjects (Some b) p) live \<and> free_list (enableEnoughObjects (Some b) p) \<noteq> [] \<and>
    used_blocks (enableEnoughObjects (Some b) p) \<subseteq> insert b (used_blocks p)"
proof (cases "free_list p")
  case Nil
  have "block_places (Some b) (blockSize p) \<noteq> []"
    using assms(1) by (simp add: pool_inv_def block_places_def)
  moreover have "Place b i \<notin> live" for i
    using assms by (force simp: pool_inv_def)
  ultimately show ?thesis
    using assms Nil block_places_props [of b "blockSize p"]
    by (auto simp: enableEnoughObjects_def pool_inv_def used_blocks_def)
next
  case (Cons a rest)
  then show ?thesis
    using assms by (auto simp: enableEnoughObjects_def)
qed

lemma take_place:
  assumes "pool_inv p live" and "free_list p = a # rest"
  shows "a \<notin> live" "\<exists>b i. a = Place b i" "pool_inv (p\<lparr>free_list := rest\<rparr>) (insert a live)"
    "used_blocks (p\<lparr>free_list := rest\<rparr>) = used_blocks p"
  using assms by (auto simp: pool_inv_def used_blocks_def)

lemma getFreeObjectMem_law:
  assumes "pool_inv p live" and "b \<notin> used_blocks p"
  shows "\<exists>a c i p'. getFreeObjectMem (Some b) p = Inr (a, p') \<and> a = Place c i \<and> a \<notin> live \<and>
    pool_inv p' (insert a live) \<and> used_blocks p' \<subseteq> insert b (used_blocks p)"
proof -
  let ?p = "enableEnoughObjects (Some b) p"
  obtain a rest where f: "free_list ?p = a # rest"
    using refill [OF assms] by (cases "free_list ?p") auto
  have inv: "pool_inv ?p live" "used_blocks ?p \<subseteq> insert b (used_blocks p)"
    using refill [OF assms] by simp_all
  show ?thesis
    using take_place [OF inv(1) f] inv(2) f by (auto simp: getFreeObjectMem_def Let_def)
qed

lemma getFreeObject_eq: "getFreeObject malloc p = getFreeObjectMem malloc p"
  by (simp add: getFreeObject_def getFreeObjectMem_def enableEnoughObjects_def)

lemma release_law:
  assumes "pool_inv p live" and "a \<in> live"
  shows "pool_inv (op_releaseObject a p) (live - {a}) \<and> used_blocks (op_releaseObject a p) = used_blocks p"
  using assms by (auto simp: pool_inv_def op_releaseObject_def is_null_def used_blocks_def)

interpretation mp: memory pool_inv op_createObject op_releaseObject used_blocks
proof unfold_locales
  fix p live b
  assume "pool_inv p live" and "b \<notin> used_blocks p"
  from getFreeObjectMem_law [OF this]
  show "\<exists>a p'. op_createObject (Some b) p = Inr (a, p') \<and> a \<notin> live \<and> pool_inv p' (insert a live) \<and>
      used_blocks p' \<subseteq> insert b (used_blocks p)"
    by (auto simp: op_createObject_def getFreeObject_eq)
qed (use release_law in auto)

section \<open>Properties\<close>

text \<open>C25: As long as \<open>malloc\<close> succeeds, and gives each block once, a run of requests that releases only
  live places never fails and never gives a place to two live objects.\<close>

theorem pool_never_shares_memory:
  assumes "0 < n" and "distinct (new_blocks rs)"
  shows "\<exists>p live. run_requests op_createObject op_releaseObject rs (ObjectPool_new n) [] = Inr (p, live) \<and> distinct live \<and>
    set live \<inter> set (free_list p) = {}"
proof -
  have "used_blocks (ObjectPool_new n) = {}"
    by (simp add: used_blocks_def ObjectPool_new_def)
  then show ?thesis
    using mp.run_requests_distinct [of "ObjectPool_new n" "[]" rs] pool_inv_new [OF assms(1)] assms(2)
    by (auto simp: pool_inv_def)
qed

theorem pool_never_shares_memory_witness:
  "\<exists>p live. run_requests op_createObject op_releaseObject [Inl 0, Inl 1, Inr 0, Inl 2, Inl 3] (ObjectPool_new 2) [] = Inr (p, live) \<and> distinct live"
  using pool_never_shares_memory [of 2 "[Inl 0, Inl 1, Inr 0, Inl 2, Inl 3]"] by auto

text \<open>The four pools agree as long as \<open>malloc\<close> succeeds, and the \<open>shared_ptr\<close> ones ignore an explicit
  release; when \<open>malloc\<close> fails, a thread-safe pool answers the first request with \<open>nullptr\<close> and
  the next one writes to \<open>NULL + 1\<close>.\<close>

theorem pools_agree:
  assumes "pool_inv p live" and "b \<notin> used_blocks p"
  shows "(\<exists>a p'. op_createObject (Some b) p = Inr (a, p') \<and> sp_createObject (Some b) p = Inr (a, p') \<and>
      ts_createObject (Some b) p = Inr (Some a, p') \<and> tsp_createObject (Some b) p = Inr (Some a, p')) \<and>
    ts_releaseObject a p = op_releaseObject a p \<and> sp_releaseObj a p = op_releaseObject a p \<and>
    tsp_releaseObj a p = op_releaseObject a p \<and> sp_releaseObject a p = p \<and> tsp_releaseObject a p = p \<and>
    (free_list p = [] \<and> 1 < blockSize p \<longrightarrow>
      (\<exists>p'. ts_createObject None p = Inr (None, p') \<and> ts_createObject m p' = Inl NullDeref))"
proof -
  obtain a c i p' where a: "getFreeObjectMem (Some b) p = Inr (a, p')" "a = Place c i"
    using getFreeObjectMem_law [OF assms] by blast
  have null: "\<exists>p'. ts_createObject None p = Inr (None, p') \<and> ts_createObject m p' = Inl NullDeref"
    if "free_list p = []" "1 < blockSize p"
  proof -
    have "block_places None (blockSize p) = Null 0 # Null 1 # map Null [2..<blockSize p]"
      using that(2) by (simp add: block_places_def upt_conv_Cons numeral_2_eq_2)
    then show ?thesis
      using that(1) by (simp add: ts_createObject_def getFreeObjectMem_def enableEnoughObjects_def is_null_def)
  qed
  then show ?thesis
    using a by (simp add: op_createObject_def sp_createObject_def ts_createObject_def tsp_createObject_def
        getFreeObject_eq is_null_def ts_releaseObject_def sp_releaseObj_def tsp_releaseObj_def op_releaseObject_def
        sp_releaseObject_def tsp_releaseObject_def)
qed

theorem pools_agree_witness:
  "\<exists>p'. ts_createObject None (ObjectPool_new 2) = Inr (None, p') \<and> ts_createObject None p' = Inl NullDeref"
  using pools_agree [OF pool_inv_new [of 2], of 0 "Place 0 0" None]
  by (simp add: used_blocks_def ObjectPool_new_def)

end
