(* ===== verification/ActiveThreads.thy ===== *)
theory ActiveThreads
  imports ObjectPool NetPacket
begin

text \<open>
  Worker threads: \<open>Active\<close> (Net/Util/Active.hpp, a list, a mutex and a condition variable),
  \<open>EventActive\<close> (Net/Util/EventActive.hpp, the queue of an \<open>io_context\<close>) and its user
  \<open>DBActiveWrapper\<close> (CPG/DB/DBActiveWrapper.cpp).

  \<open>Active\<close> is a machine whose steps are what a thread does without giving up the lock or
  touching shared state again: the locked part of \<open>send\<close>, its increment, its notification; the
  steps of the worker's loop; \<open>stop\<close>; and a spurious wakeup. \<open>sent\<close> and \<open>handled\<close> record the
  events in the order of the locked parts and of the callbacks.
\<close>

section \<open>Active\<close>

text \<open>Where the worker is: at the loop condition, holding the lock before the test for events,
  blocked in \<open>wait\<close>, in the loop over the swapped events, or ended.\<close>

datatype worker = AtLoop | AtTest | Blocked | Draining | Ended

record 'e Active =
  events :: "'e list"
  swapEvents :: "'e list"
  act_stop :: bool
  pendingWorkNum :: int
  worker :: worker
  senders :: "bool list"
  signals :: nat
  sent :: "'e list"
  handled :: "'e list"

definition Active_start :: "'e Active" where
  "Active_start = \<lparr>events = [], swapEvents = [], act_stop = False, pendingWorkNum = 0, worker = AtLoop,
     senders = [], signals = 0, sent = [], handled = []\<rparr>"

text \<open>\<open>send\<close>, in three parts: a sender in \<open>senders\<close> has not counted its event yet and keeps \<open>needSig\<close>;
  \<open>signals\<close> are the senders that still have to notify.\<close>

definition act_push :: "'e \<Rightarrow> 'e Active \<Rightarrow> 'e Active" where
  "act_push t a = a\<lparr>senders := senders a @ [events a = []], events := events a @ [t], sent := sent a @ [t]\<rparr>"

definition act_count :: "nat \<Rightarrow> 'e Active \<Rightarrow> 'e Active option" where
  "act_count i a =
     (if i < length (senders a)
      then Some (a\<lparr>pendingWorkNum := pendingWorkNum a + 1,
        signals := (if senders a ! i then signals a + 1 else signals a),
        senders := take i (senders a) @ drop (Suc i) (senders a)\<rparr>)
      else None)"

definition wake :: "'e Active \<Rightarrow> 'e Active" where
  "wake a = (if worker a = Blocked then a\<lparr>worker := AtTest\<rparr> else a)"

definition act_notify :: "'e Active \<Rightarrow> 'e Active option" where
  "act_notify a = (if 0 < signals a then Some (wake (a\<lparr>signals := signals a - 1\<rparr>)) else None)"

definition act_do_stop :: "'e Active \<Rightarrow> 'e Active" where
  "act_do_stop a = wake (a\<lparr>act_stop := True\<rparr>)"

text \<open>One step of \<open>run\<close>.\<close>

definition act_run :: "'e Active \<Rightarrow> 'e Active option" where
  "act_run a = (case worker a of
     AtLoop \<Rightarrow> Some (a\<lparr>worker := (if act_stop a then Ended else AtTest)\<rparr>)
   | AtTest \<Rightarrow>
       Some (if events a = [] then a\<lparr>worker := Blocked\<rparr>
             else a\<lparr>swapEvents := events a, events := swapEvents a, worker := Draining\<rparr>)
   | Blocked \<Rightarrow> None
   | Draining \<Rightarrow> (case swapEvents a of
       [] \<Rightarrow> Some (a\<lparr>worker := AtLoop\<rparr>)
     | e # es \<Rightarrow> Some (a\<lparr>swapEvents := es, pendingWorkNum := pendingWorkNum a - 1, handled := handled a @ [e]\<rparr>))
   | Ended \<Rightarrow> None)"

datatype 'e act_label = Push 'e | Count nat | Notify | Stop | Spurious | Run

fun act_exec :: "'e act_label \<Rightarrow> 'e Active \<Rightarrow> 'e Active option" where
  "act_exec (Push t) a = Some (act_push t a)"
| "act_exec (Count i) a = act_count i a"
| "act_exec Notify a = act_notify a"
| "act_exec Stop a = Some (act_do_stop a)"
| "act_exec Spurious a = Some (wake a)"
| "act_exec Run a = act_run a"

inductive act_reachable :: "'e Active \<Rightarrow> bool" where
  start: "act_reachable Active_start"
| step: "act_reachable a \<Longrightarrow> act_exec l a = Some a' \<Longrightarrow> act_reachable a'"

inductive act_steps :: "'e act_label list \<Rightarrow> 'e Active \<Rightarrow> 'e Active \<Rightarrow> bool" where
  none: "act_steps [] a a"
| more: "act_exec l a = Some a' \<Longrightarrow> act_steps ls a' a'' \<Longrightarrow> act_steps (l # ls) a a''"

inductive_cases act_steps_ConsE: "act_steps (l # ls) a a''"

definition act_inv :: "'e Active \<Rightarrow> bool" where
  "act_inv a \<longleftrightarrow> handled a @ swapEvents a @ events a = sent a \<and>
     (worker a \<noteq> Draining \<longrightarrow> swapEvents a = []) \<and>
     pendingWorkNum a + int (length (senders a)) = int (length (events a) + length (swapEvents a)) \<and>
     (worker a = Blocked \<and> events a \<noteq> [] \<longrightarrow> True \<in> set (senders a) \<or> 0 < signals a)"

lemma wake_inv: "act_inv a \<Longrightarrow> act_inv (wake a)"
  by (auto simp: act_inv_def wake_def)

lemma act_count_cases:
  assumes "act_count i a = Some a'"
  obtains x rest where "set (senders a) = insert x (set rest)" "length (senders a) = Suc (length rest)"
    "a' = a\<lparr>pendingWorkNum := pendingWorkNum a + 1, signals := (if x then signals a + 1 else signals a), senders := rest\<rparr>"
proof
  let ?rest = "take i (senders a) @ drop (Suc i) (senders a)"
  have i: "i < length (senders a)"
    using assms by (simp add: act_count_def split: if_splits)
  have "set (senders a) = set (take i (senders a) @ senders a ! i # drop (Suc i) (senders a))"
    by (rule arg_cong [OF id_take_nth_drop [OF i]])
  then show "set (senders a) = insert (senders a ! i) (set ?rest)"
    by (simp only: set_append list.set Un_insert_right)
  show "length (senders a) = Suc (length ?rest)"
    using i by simp
  show "a' = a\<lparr>pendingWorkNum := pendingWorkNum a + 1,
      signals := (if senders a ! i then signals a + 1 else signals a), senders := ?rest\<rparr>"
    using assms i by (simp add: act_count_def)
qed

lemma act_count_inv:
  assumes "act_inv a" and "act_count i a = Some a'"
  shows "act_inv a'"
proof -
  obtain x rest where r: "set (senders a) = insert x (set rest)" "length (senders a) = Suc (length rest)"
      "a' = a\<lparr>pendingWorkNum := pendingWorkNum a + 1, signals := (if x then signals a + 1 else signals a), senders := rest\<rparr>"
    using assms(2) by (rule act_count_cases)
  have "True \<in> set (senders a) \<or> 0 < signals a \<Longrightarrow> True \<in> set rest \<or> 0 < (if x then signals a + 1 else signals a)"
    unfolding r(1) by (cases x) simp_all
  moreover have "pendingWorkNum a + 1 + int (length rest) = pendingWorkNum a + int (length (senders a))"
    using r(2) by simp
  ultimately show ?thesis
    using assms(1) unfolding act_inv_def r(3) by simp
qed

lemma act_exec_inv: "act_inv a \<Longrightarrow> act_exec l a = Some a' \<Longrightarrow> act_inv a'"
proof (cases l)
  case (Push t)
  assume "act_inv a" "act_exec l a = Some a'"
  then show ?thesis
    using Push by (auto simp: act_inv_def act_push_def)
next
  case (Count i)
  assume "act_inv a" "act_exec l a = Some a'"
  then show ?thesis
    using Count act_count_inv by simp
next
  case Notify
  assume "act_inv a" "act_exec l a = Some a'"
  then show ?thesis
    using Notify by (auto simp: act_notify_def wake_def act_inv_def split: if_splits)
next
  case Stop
  assume a: "act_inv a" "act_exec l a = Some a'"
  then have "act_inv (a\<lparr>act_stop := True\<rparr>)"
    by (simp add: act_inv_def)
  then show ?thesis
    using a(2) Stop wake_inv by (auto simp: act_do_stop_def)
next
  case Spurious
  assume "act_inv a" "act_exec l a = Some a'"
  then show ?thesis
    using Spurious wake_inv by auto
next
  case Run
  assume "act_inv a" "act_exec l a = Some a'"
  then show ?thesis
    using Run by (auto simp: act_run_def act_inv_def split: worker.splits list.splits if_splits)
qed

lemma act_reachable_inv: "act_reachable a \<Longrightarrow> act_inv a"
proof (induction rule: act_reachable.induct)
  case start
  then show ?case
    by (simp add: act_inv_def Active_start_def)
next
  case (step a l a')
  then show ?case
    using act_exec_inv by blast
qed

text \<open>Without new events, a worker that has found no events never leaves its inner loop.\<close>

definition idle :: "'e Active \<Rightarrow> bool" where
  "idle a \<longleftrightarrow> events a = [] \<and> (worker a = Blocked \<or> worker a = AtTest)"

lemma idle_step:
  assumes "idle a" and "act_exec l a = Some a'" and "\<forall>t. l \<noteq> Push t"
  shows "idle a'"
  using assms by (cases l) (auto simp: idle_def act_count_def act_notify_def act_do_stop_def wake_def act_run_def
      split: if_splits)

lemma idle_steps: "act_steps ls a a' \<Longrightarrow> idle a \<Longrightarrow> \<forall>t. Push t \<notin> set ls \<Longrightarrow> idle a'"
  by (induction rule: act_steps.induct) (auto dest: idle_step)

section \<open>EventActive and the database thread\<close>

text \<open>The handlers queued on the \<open>io_context\<close> of the worker, the pool of events and the objects in
  it. \<open>db_log\<close> records the packets the callback was called with.\<close>

record DBActive =
  ea_pool :: mem_pool
  ea_heap :: "addr \<Rightarrow> NetPacket option"
  ea_queue :: "addr list"
  ea_pendingWorkNum :: int
  activeID :: int
  db_log :: "NetPacket list"

definition DBActive_new :: "int \<Rightarrow> DBActive" where
  "DBActive_new i = \<lparr>ea_pool = ObjectPool_new 1024, ea_heap = (\<lambda>_. None), ea_queue = [], ea_pendingWorkNum = 0,
     activeID = i, db_log = []\<rparr>"

definition getFreeEvent :: "nat option \<Rightarrow> byte list \<Rightarrow> PacketHeader \<Rightarrow> DBActive \<Rightarrow> (addr option \<times> DBActive) result" where
  "getFreeEvent malloc data h s =
     rbind (ts_createObject malloc (ea_pool s)) (\<lambda>(mem, pool).
       case mem of
         None \<Rightarrow> Inr (None, s\<lparr>ea_pool := pool\<rparr>)
       | Some a \<Rightarrow> rbind (NetPacket_hdr data h) (\<lambda>p.
           Inr (Some a, s\<lparr>ea_pool := pool, ea_heap := (ea_heap s)(a \<mapsto> p)\<rparr>)))"

definition releaseEvent :: "addr \<Rightarrow> DBActive \<Rightarrow> DBActive" where
  "releaseEvent a s = s\<lparr>ea_pool := ts_releaseObject a (ea_pool s)\<rparr>"

definition ea_send :: "addr \<Rightarrow> DBActive \<Rightarrow> DBActive" where
  "ea_send a s = s\<lparr>ea_pendingWorkNum := ea_pendingWorkNum s + 1, ea_queue := ea_queue s @ [a]\<rparr>"

text \<open>What \<open>ioc_.run()\<close> does with the next handler: callback, release, count.\<close>

definition ea_run_one :: "DBActive \<Rightarrow> DBActive result" where
  "ea_run_one s = (case ea_queue s of
     [] \<Rightarrow> Inr s
   | a # rest \<Rightarrow> (case ea_heap s a of
       None \<Rightarrow> Inl NullDeref
     | Some p \<Rightarrow>
         let s1 = releaseEvent a (s\<lparr>ea_queue := rest, db_log := db_log s @ [p]\<rparr>)
         in Inr (s1\<lparr>ea_pendingWorkNum := ea_pendingWorkNum s1 - 1\<rparr>)))"

definition sendToDBThread :: "nat option \<Rightarrow> byte list \<Rightarrow> PacketHeader \<Rightarrow> DBActive \<Rightarrow> (bool \<times> DBActive) result" where
  "sendToDBThread malloc data h s =
     rbind (getFreeEvent malloc data h s) (\<lambda>(buffer, s1).
       case buffer of
         None \<Rightarrow> Inl NullDeref
       | Some a \<Rightarrow>
           Inr (True, ea_send a (s1\<lparr>ea_heap := (ea_heap s1)(a := map_option (setLogicID (activeID s1)) (ea_heap s1 a))\<rparr>)))"

definition encodeAndSendToDBThread :: "('p \<Rightarrow> byte list) \<Rightarrow> nat option \<Rightarrow> 'p \<Rightarrow> PacketHeader \<Rightarrow> DBActive \<Rightarrow> (bool \<times> DBActive) result" where
  "encodeAndSendToDBThread ser malloc msg h s = sendToDBThread malloc (ser msg) h s"

text \<open>Requests and runs of the worker, in any order: \<open>Some (b, data, h)\<close> sends, with \<open>b\<close> the block
  \<open>malloc\<close> would give, \<open>None\<close> runs the next handler.\<close>

type_synonym db_op = "(nat \<times> byte list \<times> PacketHeader) option"

fun db_exec :: "db_op \<Rightarrow> DBActive \<Rightarrow> DBActive result" where
  "db_exec None s = ea_run_one s"
| "db_exec (Some (b, data, h)) s = rbind (sendToDBThread (Some b) data h s) (\<lambda>(r, s'). Inr s')"

definition db_request :: "int \<Rightarrow> db_op \<Rightarrow> NetPacket list" where
  "db_request i c = (case c of
     None \<Rightarrow> []
   | Some (b, data, h) \<Rightarrow> [\<lparr>pkt_buffer = header_bytes h @ data, pkt_logicID = Some i\<rparr>])"

definition good_request :: "db_op \<Rightarrow> bool" where
  "good_request c = (case c of
     None \<Rightarrow> True | Some (b, data, h) \<Rightarrow> psize h = of_nat (length data) \<and> length data < 2 ^ 31)"

definition request_block :: "db_op \<Rightarrow> nat list" where
  "request_block c = (case c of None \<Rightarrow> [] | Some (b, _) \<Rightarrow> [b])"

definition db_inv :: "NetPacket list \<Rightarrow> DBActive \<Rightarrow> bool" where
  "db_inv requests s \<longleftrightarrow> distinct (ea_queue s) \<and> pool_inv (ea_pool s) (set (ea_queue s)) \<and>
     map Some requests = map Some (db_log s) @ map (ea_heap s) (ea_queue s) \<and>
     ea_pendingWorkNum s = int (length (ea_queue s))"

lemma NetPacket_hdr_ok:
  assumes "psize h = of_nat (length data)" and "length data < 2 ^ 31"
  shows "NetPacket_hdr data h = Inr \<lparr>pkt_buffer = header_bytes h @ data, pkt_logicID = None\<rparr>"
  using assms by (simp add: NetPacket_hdr_def read_mem_def signed_of_nat signed_take_bit_int_eq_self unat_of_nat)

lemma ts_release_eq: "ts_releaseObject a p = op_releaseObject a p"
  by (simp add: ts_releaseObject_def op_releaseObject_def)

lemma db_exec_inv:
  assumes inv: "db_inv rs s" and good: "good_request c" and fresh: "set (request_block c) \<inter> used_blocks (ea_pool s) = {}"
  shows "\<exists>s'. db_exec c s = Inr s' \<and> db_inv (rs @ db_request (activeID s) c) s' \<and> activeID s' = activeID s \<and>
    used_blocks (ea_pool s') \<subseteq> set (request_block c) \<union> used_blocks (ea_pool s)"
proof (cases c)
  case None
  show ?thesis
  proof (cases "ea_queue s")
    case Nil
    then show ?thesis
      using None inv by (simp add: ea_run_one_def db_request_def)
  next
    case (Cons a rest)
    have q: "map Some rs = map Some (db_log s) @ ea_heap s a # map (ea_heap s) rest" "a \<notin> set rest"
      using inv Cons by (simp_all add: db_inv_def)
    have "ea_heap s a \<in> set (map Some rs)"
      unfolding q(1) by simp
    then obtain p where p: "ea_heap s a = Some p"
      by auto
    have "pool_inv (op_releaseObject a (ea_pool s)) (set rest)" "used_blocks (op_releaseObject a (ea_pool s)) = used_blocks (ea_pool s)"
      using release_law [of "ea_pool s" "set (ea_queue s)" a] inv Cons q(2) by (simp_all add: db_inv_def)
    then show ?thesis
      using None Cons p inv q(1)
      by (simp add: ea_run_one_def db_request_def releaseEvent_def db_inv_def ts_release_eq Let_def)
  qed
next
  case (Some r)
  obtain b data h where r: "r = (b, data, h)"
    by (cases r)
  have pool: "pool_inv (ea_pool s) (set (ea_queue s))" "b \<notin> used_blocks (ea_pool s)"
    using inv fresh Some r by (auto simp: db_inv_def request_block_def)
  obtain a n i pool' where a: "getFreeObjectMem (Some b) (ea_pool s) = Inr (a, pool')" "a = Place n i"
      "a \<notin> set (ea_queue s)" "pool_inv pool' (insert a (set (ea_queue s)))"
      "used_blocks pool' \<subseteq> insert b (used_blocks (ea_pool s))"
    using getFreeObjectMem_law [OF pool] by blast
  have "map (\<lambda>q. if q = a then Some p else ea_heap s q) (ea_queue s) = map (ea_heap s) (ea_queue s)" for p
    using a(3) by (intro map_cong) auto
  moreover have "NetPacket_hdr data h = Inr \<lparr>pkt_buffer = header_bytes h @ data, pkt_logicID = None\<rparr>"
    using NetPacket_hdr_ok good Some r by (simp add: good_request_def)
  ultimately show ?thesis
    using Some r a inv
    by (auto simp: sendToDBThread_def getFreeEvent_def ts_createObject_def is_null_def ea_send_def db_inv_def
        db_request_def request_block_def setLogicID_def fun_upd_def)
qed

lemma db_run_inv:
  assumes "db_inv rs s" and "\<forall>c \<in> set cs. good_request c" and "distinct (concat (map request_block cs))"
    and "set (concat (map request_block cs)) \<inter> used_blocks (ea_pool s) = {}"
  shows "\<exists>s'. rfold db_exec cs s = Inr s' \<and> db_inv (rs @ concat (map (db_request (activeID s)) cs)) s'"
  using assms
proof (induction cs arbitrary: rs s)
  case (Cons c cs)
  obtain s1 where s1: "db_exec c s = Inr s1" "db_inv (rs @ db_request (activeID s) c) s1" "activeID s1 = activeID s"
      "used_blocks (ea_pool s1) \<subseteq> set (request_block c) \<union> used_blocks (ea_pool s)"
    using db_exec_inv [OF Cons.prems(1), of c] Cons.prems(2,4) by auto
  have "set (concat (map request_block cs)) \<inter> used_blocks (ea_pool s1) = {}"
    using s1(4) Cons.prems(3,4) by auto
  then show ?case
    using Cons.IH [OF s1(2)] Cons.prems(2,3) s1(1,3) by auto
qed simp

section \<open>Properties\<close>

text \<open>C24: In every reachable state of an \<open>Active\<close>, the events handled so far, those the worker has taken
  and those still in the list are the events sent, in that order: none is lost, doubled or
  overtaken. The counter of pending work is right up to the senders that have not counted yet.
  No wakeup is lost: while the worker is blocked and there is an event, some sender is still to
  notify it.\<close>

theorem active_handles_in_order:
  assumes "act_reachable a"
  shows "handled a @ swapEvents a @ events a = sent a \<and>
    pendingWorkNum a = int (length (events a) + length (swapEvents a)) - int (length (senders a)) \<and>
    (worker a = Blocked \<and> events a \<noteq> [] \<longrightarrow> True \<in> set (senders a) \<or> 0 < signals a)"
  using act_reachable_inv [OF assms] by (auto simp: act_inv_def)

theorem active_handles_in_order_witness:
  "\<exists>a. act_exec (Push (3::int)) Active_start = Some a \<and> handled a @ swapEvents a @ events a = sent a"
  using active_handles_in_order [OF act_reachable.step [OF act_reachable.start, of "Push (3::int)"]] by simp

text \<open>\<open>stop\<close> does not end a worker that has nothing to do: once the worker has found no events, it
  is blocked or about to block again after any number of steps of any thread, \<open>stop\<close> among
  them, as long as no event is sent. The destructor, which joins the thread, then never returns.\<close>

theorem stop_does_not_end_an_idle_worker:
  assumes "events a = []" and "worker a = Blocked" and "act_steps ls a a'" and "\<forall>t. Push t \<notin> set ls"
  shows "worker a' \<noteq> Ended \<and> (worker a' = Blocked \<or> worker a' = AtTest)"
  using idle_steps [OF assms(3) _ assms(4)] assms(1,2) by (auto simp: idle_def)

theorem stop_does_not_end_an_idle_worker_witness:
  "\<exists>a'. act_steps [Stop, Run] ((Active_start :: int Active)\<lparr>worker := Blocked\<rparr>) a' \<and> act_stop a' \<and> worker a' \<noteq> Ended"
proof -
  let ?a = "(Active_start :: int Active)\<lparr>worker := Blocked\<rparr>"
  let ?b = "?a\<lparr>act_stop := True, worker := AtTest\<rparr>" and ?c = "?a\<lparr>act_stop := True, worker := Blocked\<rparr>"
  have "act_exec Stop ?a = Some ?b" "act_exec Run ?b = Some ?c"
    by (simp_all add: act_do_stop_def wake_def act_run_def Active_start_def)
  then have "act_steps [Stop, Run] ?a ?c"
    by (blast intro: act_steps.intros)
  then show ?thesis
    using stop_does_not_end_an_idle_worker [of ?a "[Stop, Run]" ?c] by (auto simp: Active_start_def)
qed

text \<open>C27: The requests to the database thread are handled once each, in order and unchanged: however
  sends and runs of the worker alternate, the packets the callback has seen, followed by the
  packets in the queue, are the requests, each with the id of the thread. In particular no queued
  packet is overwritten, though the pool uses the places of handled packets again.\<close>

theorem db_requests_in_order:
  assumes "\<forall>c \<in> set cs. good_request c" and "distinct (concat (map request_block cs))"
  shows "\<exists>s. rfold db_exec cs (DBActive_new i) = Inr s \<and>
    map Some (concat (map (db_request i) cs)) = map Some (db_log s) @ map (ea_heap s) (ea_queue s) \<and>
    ea_pendingWorkNum s = int (length (ea_queue s))"
proof -
  have "db_inv [] (DBActive_new i)"
    using pool_inv_new [of 1024] by (simp add: db_inv_def DBActive_new_def)
  moreover have "used_blocks (ea_pool (DBActive_new i)) = {}" "activeID (DBActive_new i) = i"
    by (simp_all add: used_blocks_def DBActive_new_def ObjectPool_new_def)
  ultimately show ?thesis
    using db_run_inv [of "[]" "DBActive_new i" cs] assms by (auto simp: db_inv_def)
qed

theorem db_requests_in_order_witness:
  "\<exists>s. rfold db_exec [Some (0, [7], \<lparr>ptype = 5101, psize = 1, extraID = 0\<rparr>), None,
      Some (1, [8], \<lparr>ptype = 5103, psize = 1, extraID = 0\<rparr>)] (DBActive_new 1) = Inr s \<and> ea_pendingWorkNum s = int (length (ea_queue s))"
  using db_requests_in_order [of "[Some (0, [7], \<lparr>ptype = 5101, psize = 1, extraID = 0\<rparr>), None,
      Some (1, [8], \<lparr>ptype = 5103, psize = 1, extraID = 0\<rparr>)]" 1]
  by (auto simp: good_request_def request_block_def)

end
