(* ===== verification/WebServer.thy ===== *)
theory WebServer
  imports MatchFactory
begin

text \<open>
  The web interface of the central server (CSWebServer.cpp) and the promises with which its
  threads wait for the database thread (PromiseFutureQueue.cpp). Every operation of the queue
  holds its mutex, so each is one step. A \<open>std::promise\<close> is the value it was given, if any; giving
  it a value twice throws. A \<open>boost::any\<close> is its content, \<open>None\<close> when empty. The JSON text of a
  reply is left to the JSON library: a reply is its code and, for a created match, its mid.
\<close>

section \<open>PromiseFutureQueue\<close>

record 'd PromiseProfile =
  promiseID :: int
  promise :: "int option"
  pdata :: "'d option"

record 'd PromiseFutureQueue =
  promiseMap :: "(int, 'd PromiseProfile) omap"
  nextID :: int

definition PromiseProfile_new :: "'d PromiseProfile" where
  "PromiseProfile_new = \<lparr>promiseID = 0, promise = None, pdata = None\<rparr>"

definition PromiseFutureQueue_new :: "'d PromiseFutureQueue" where
  "PromiseFutureQueue_new = \<lparr>promiseMap = [], nextID = 100\<rparr>"

definition nextPromise :: "'d PromiseFutureQueue \<Rightarrow> 'd PromiseProfile \<times> 'd PromiseFutureQueue" where
  "nextPromise q =
     (let pid = nextID q;
          profile = (case om_find id pid (promiseMap q) of None \<Rightarrow> PromiseProfile_new | Some e \<Rightarrow> snd e)\<lparr>promiseID := pid\<rparr>
      in (profile, q\<lparr>nextID := pid + 1, promiseMap := om_assign id pid profile (promiseMap q)\<rparr>))"

definition futureData :: "int \<Rightarrow> 'd PromiseFutureQueue \<Rightarrow> 'd option \<times> 'd PromiseFutureQueue" where
  "futureData pid q = (case om_find id pid (promiseMap q) of
     Some e \<Rightarrow> (pdata (snd e), q)
   | None \<Rightarrow> (None, q\<lparr>promiseMap := om_insert id pid PromiseProfile_new (promiseMap q)\<rparr>))"

definition setData :: "'d \<Rightarrow> int \<Rightarrow> int \<Rightarrow> 'd PromiseFutureQueue \<Rightarrow> (bool \<times> 'd PromiseFutureQueue) result" where
  "setData x value pid q = (case om_find id pid (promiseMap q) of
     None \<Rightarrow> Inr (False, q)
   | Some e \<Rightarrow> (case promise (snd e) of
       Some v \<Rightarrow> Inl Thrown
     | None \<Rightarrow> Inr (True, q\<lparr>promiseMap := om_modify id pid (\<lambda>p. p\<lparr>pdata := Some x, promise := Some value\<rparr>) (promiseMap q)\<rparr>)))"

definition removePromise :: "int \<Rightarrow> 'd PromiseFutureQueue \<Rightarrow> 'd PromiseFutureQueue" where
  "removePromise pid q = q\<lparr>promiseMap := om_erase id pid (promiseMap q)\<rparr>"

section \<open>Requests\<close>

datatype web_reply = Reply int "int option"

text \<open>\<open>/match/create\<close> up to \<open>future.get()\<close>: a reply when the match is refused, or the promise the
  thread waits for, with the request for the database thread.\<close>

definition web_create ::
    "int \<Rightarrow> CPGMatchProfile \<Rightarrow> CSMatchManager \<Rightarrow> CPGMatchProfile PromiseFutureQueue \<Rightarrow>
     (web_reply + int \<times> int) \<times> CPGMatchProfile PromiseFutureQueue \<times> mm_effect list" where
  "web_create now profile m q =
     (let (p, q1) = nextPromise q;
          (code, es) = createMatch now profile (promiseID p) m
      in if code \<noteq> kNoneError then (Inl (Reply code None), q1, es)
         else (Inr (promiseID p, code), q1, es))"

text \<open>The rest, once the promise has a value; \<open>None\<close> while it has none.\<close>

definition web_created ::
    "int \<Rightarrow> int \<Rightarrow> CPGMatchProfile PromiseFutureQueue \<Rightarrow> (web_reply \<times> CPGMatchProfile PromiseFutureQueue) result option" where
  "web_created pid code q =
     (case om_find id pid (promiseMap q) of
        None \<Rightarrow> None
      | Some e \<Rightarrow> (case promise (snd e) of
          None \<Rightarrow> None
        | Some errcode \<Rightarrow>
            if errcode = kNoneError
            then (case futureData pid q of
                (None, q1) \<Rightarrow> Some (Inl Thrown)
              | (Some p, q1) \<Rightarrow> Some (Inr (Reply code (Some (sint (mid p))), q1)))
            else Some (Inr (Reply code None, q))))"

definition web_match_list :: "CSMatchManager \<Rightarrow> int \<times> CPGMatchProfile list" where
  "web_match_list m = (kNoneError, matchList m)"

text \<open>The database thread's part: store the match, then give the promise its value.\<close>

definition db_create ::
    "'d exec \<Rightarrow> dict \<Rightarrow> int \<Rightarrow> SQLConnector \<times> 'd \<Rightarrow> CPGMatchProfile PromiseFutureQueue \<Rightarrow>
     (CPGMatchProfile \<times> (SQLConnector \<times> 'd) \<times> CPGMatchProfile PromiseFutureQueue) result" where
  "db_create exec props pid cd q =
     rbind (create_match_db exec props cd) (\<lambda>(p, cd').
       rbind (setData p kNoneError pid q) (\<lambda>(r, q'). Inr (p, cd', q')))"

section \<open>Promises\<close>

definition promise_of :: "'d PromiseFutureQueue \<Rightarrow> int \<Rightarrow> 'd PromiseProfile option" where
  "promise_of q pid = om_lookup id (promiseMap q) pid"

definition pq_ok :: "'d PromiseFutureQueue \<Rightarrow> bool" where
  "pq_ok q \<longleftrightarrow> om_ok id (promiseMap q) \<and> (\<forall>pid. promise_of q pid \<noteq> None \<longrightarrow> pid < nextID q)"

lemma find_promise: "om_find id pid (promiseMap q) = Some e \<Longrightarrow> promise_of q pid = Some (snd e)"
  "om_find id pid (promiseMap q) = None \<Longrightarrow> promise_of q pid = None"
  by (simp_all add: promise_of_def om_lookup_def)

lemma nextPromise_spec:
  assumes "pq_ok q" and "nextPromise q = (p, q')"
  shows "pq_ok q'" "p = PromiseProfile_new\<lparr>promiseID := nextID q\<rparr>" "promise_of q (promiseID p) = None"
    "promise_of q' = (promise_of q)(promiseID p \<mapsto> p)"
proof -
  have new: "om_find id (nextID q) (promiseMap q) = None"
  proof (cases "om_find id (nextID q) (promiseMap q)")
    case (Some e)
    then show ?thesis
      using find_promise(1) [OF Some] assms(1) by (auto simp: pq_ok_def)
  qed simp
  then show p: "p = PromiseProfile_new\<lparr>promiseID := nextID q\<rparr>"
    using assms(2) by (auto simp: nextPromise_def Let_def)
  then show "promise_of q (promiseID p) = None"
    using find_promise(2) [OF new] by simp
  have q': "q' = q\<lparr>nextID := nextID q + 1, promiseMap := om_assign id (nextID q) p (promiseMap q)\<rparr>"
    using assms(2) p new by (auto simp: nextPromise_def Let_def)
  have ok: "om_ok id (promiseMap q)"
    using assms(1) by (simp add: pq_ok_def)
  show upd: "promise_of q' = (promise_of q)(promiseID p \<mapsto> p)"
    using im.lookup_store [OF ok, of "nextID q" p] p q' by (simp add: promise_of_def fun_eq_iff)
  have "om_ok id (promiseMap q')"
    using im.store_ok [OF ok, of "nextID q" p] q' by simp
  moreover have "pid < nextID q'" if "promise_of q' pid \<noteq> None" for pid
    using that assms(1) p unfolding upd by (auto simp: pq_ok_def q' split: if_splits)
  ultimately show "pq_ok q'"
    by (simp add: pq_ok_def)
qed

lemma setData_spec:
  assumes "pq_ok q" and "promise_of q pid = Some p" and "promise p = None"
  shows "\<exists>q'. setData x v pid q = Inr (True, q') \<and> pq_ok q' \<and>
    promise_of q' = (promise_of q)(pid \<mapsto> p\<lparr>pdata := Some x, promise := Some v\<rparr>) \<and> nextID q' = nextID q"
proof -
  obtain e where e: "om_find id pid (promiseMap q) = Some e" "snd e = p"
    using assms(2) by (auto simp: promise_of_def om_lookup_def)
  have ok: "om_ok id (promiseMap q)"
    using assms(1) by (simp add: pq_ok_def)
  let ?f = "\<lambda>p. p\<lparr>pdata := Some x, promise := Some v\<rparr>"
  let ?q = "q\<lparr>promiseMap := om_modify id pid ?f (promiseMap q)\<rparr>"
  have upd: "promise_of ?q = (promise_of q)(pid \<mapsto> ?f p)"
    using im.lookup_modify [OF ok, of pid ?f] assms(2) by (simp add: promise_of_def fun_eq_iff)
  have "pq_ok ?q"
    using assms(1,2) im.modify_ok [OF ok] unfolding pq_ok_def upd by auto
  then show ?thesis
    using e assms(3) upd by (simp add: setData_def)
qed

lemma futureData_spec: "promise_of q pid = Some p \<Longrightarrow> futureData pid q = (pdata p, q)"
  by (auto simp: promise_of_def om_lookup_def futureData_def)

section \<open>Properties\<close>

text \<open>A promise works once: the id of a new promise is fresh, the data it is given is what
  \<open>futureData\<close> returns and its value what the future gets; giving it a value again throws, after
  its removal it is unknown, and no other promise is touched.\<close>

theorem promise_round_trip:
  assumes "pq_ok q" and "nextPromise q = (p, q1)"
  shows "promise_of q (promiseID p) = None \<and>
    (\<exists>q2. setData x v (promiseID p) q1 = Inr (True, q2) \<and> futureData (promiseID p) q2 = (Some x, q2) \<and>
       map_option promise (promise_of q2 (promiseID p)) = Some (Some v) \<and>
       setData y w (promiseID p) q2 = Inl Thrown \<and>
       setData y w (promiseID p) (removePromise (promiseID p) q2) = Inr (False, removePromise (promiseID p) q2) \<and>
       (\<forall>i. i \<noteq> promiseID p \<longrightarrow> promise_of q2 i = promise_of q i))"
proof -
  note n = nextPromise_spec [OF assms]
  have "promise_of q1 (promiseID p) = Some p" "promise p = None"
    using n(2,4) by (simp_all add: PromiseProfile_new_def)
  from setData_spec [OF n(1) this, of x v] obtain q2 where q2: "setData x v (promiseID p) q1 = Inr (True, q2)" "pq_ok q2"
      "promise_of q2 = (promise_of q1)(promiseID p \<mapsto> p\<lparr>pdata := Some x, promise := Some v\<rparr>)"
    by blast
  let ?p = "p\<lparr>pdata := Some x, promise := Some v\<rparr>"
  have at: "promise_of q2 (promiseID p) = Some ?p"
    using q2(3) by simp
  then obtain e where "om_find id (promiseID p) (promiseMap q2) = Some e" "snd e = ?p"
    by (auto simp: promise_of_def om_lookup_def)
  then have "setData y w (promiseID p) q2 = Inl Thrown"
    by (simp add: setData_def)
  moreover have "om_find id (promiseID p) (promiseMap (removePromise (promiseID p) q2)) = None"
    by (simp add: removePromise_def om_find_erase)
  then have "setData y w (promiseID p) (removePromise (promiseID p) q2) = Inr (False, removePromise (promiseID p) q2)"
    by (simp add: setData_def)
  ultimately show ?thesis
    using n(3,4) q2(1,3) at futureData_spec [OF at] by auto
qed

theorem promise_round_trip_witness:
  "\<exists>q2. setData (7::int) 0 100 (snd (nextPromise PromiseFutureQueue_new)) = Inr (True, q2) \<and> futureData 100 q2 = (Some 7, q2)"
proof -
  have "pq_ok (PromiseFutureQueue_new :: int PromiseFutureQueue)"
    by (simp add: pq_ok_def PromiseFutureQueue_new_def promise_of_def)
  moreover obtain p q1 where n: "nextPromise (PromiseFutureQueue_new :: int PromiseFutureQueue) = (p, q1)"
    by fastforce
  moreover have "promiseID p = 100"
    using n by (auto simp: nextPromise_def PromiseFutureQueue_new_def Let_def)
  ultimately show ?thesis
    using promise_round_trip [of PromiseFutureQueue_new p q1 7 0 0 0] by auto
qed

text \<open>A web request that creates a valid match gets the mid the database gave the match: the thread
  waits for a fresh promise, the request carries its id, and once the database thread has stored
  the match the reply has code 0 and that mid, also when storing failed and the mid is the
  invalid one. A refused match gets its error code at once and no request is made.\<close>

theorem web_create_reply:
  assumes "pq_ok q" and "web_create now profile m q = (r, q1, es)"
  shows "if createMatchValid now profile m = kNoneError
    then \<exists>pid. r = Inr (pid, kNoneError) \<and> es = [CreateMatchRQ (structConvertMap profile) pid] \<and>
      web_created pid kNoneError q1 = None \<and>
      (\<forall>exec (cd :: SQLConnector \<times> 'd) p cd'. create_match_db exec (structConvertMap profile) cd = Inr (p, cd') \<longrightarrow>
        (\<exists>q2. db_create exec (structConvertMap profile) pid cd q1 = Inr (p, cd', q2) \<and>
           web_created pid kNoneError q2 = Some (Inr (Reply kNoneError (Some (sint (mid p))), q2))))
    else r = Inl (Reply (createMatchValid now profile m) None) \<and> es = []"
proof -
  obtain p q' where np: "nextPromise q = (p, q')"
    by fastforce
  note n = nextPromise_spec [OF assms(1) np]
  have p: "promise_of q' (promiseID p) = Some p" "promise p = None" "pdata p = None"
    using n(2,4) by (simp_all add: PromiseProfile_new_def)
  obtain e where e: "om_find id (promiseID p) (promiseMap q') = Some e" "snd e = p"
    using p(1) by (auto simp: promise_of_def om_lookup_def)
  have waiting: "web_created (promiseID p) kNoneError q' = None"
    using e p(2) by (simp add: web_created_def)
  have stored: "\<exists>q2. db_create exec props (promiseID p) cd q' = Inr (x, cd', q2) \<and>
      web_created (promiseID p) kNoneError q2 = Some (Inr (Reply kNoneError (Some (sint (mid x))), q2))"
    if db: "create_match_db exec props cd = Inr (x, cd')" for exec and cd cd' :: "SQLConnector \<times> 'd" and props x
  proof -
    obtain q2 where q2: "setData x kNoneError (promiseID p) q' = Inr (True, q2)"
        "promise_of q2 (promiseID p) = Some (p\<lparr>pdata := Some x, promise := Some kNoneError\<rparr>)"
      using setData_spec [OF n(1) p(1,2), of x kNoneError] by auto
    then obtain e2 where "om_find id (promiseID p) (promiseMap q2) = Some e2"
        "snd e2 = p\<lparr>pdata := Some x, promise := Some kNoneError\<rparr>"
      by (auto simp: promise_of_def om_lookup_def)
    then show ?thesis
      using q2 db futureData_spec [OF q2(2)] by (simp add: db_create_def web_created_def)
  qed
  show ?thesis
  proof (cases "createMatchValid now profile m = kNoneError")
    case True
    then have "r = Inr (promiseID p, kNoneError)" "q1 = q'" "es = [CreateMatchRQ (structConvertMap profile) (promiseID p)]"
      using assms(2) np by (auto simp: web_create_def createMatch_def Let_def)
    then show ?thesis
      using True waiting stored by auto
  next
    case False
    then show ?thesis
      using assms(2) np by (auto simp: web_create_def createMatch_def Let_def)
  qed
qed

theorem web_create_reply_witness:
  "\<exists>pid. fst (web_create 0 (CPGMatchProfile_new\<lparr>start_time := 1000\<rparr>) sample_manager PromiseFutureQueue_new) =
      Inr (pid, kNoneError)"
proof -
  let ?p = "CPGMatchProfile_new\<lparr>start_time := 1000\<rparr>"
  have ok: "pq_ok (PromiseFutureQueue_new :: CPGMatchProfile PromiseFutureQueue)"
    by (simp add: pq_ok_def PromiseFutureQueue_new_def promise_of_def)
  obtain r q1 es where w: "web_create 0 ?p sample_manager PromiseFutureQueue_new = (r, q1, es)"
    by (metis prod_cases3)
  have "createMatchValid 0 ?p sample_manager = kNoneError"
    by (simp add: createMatchValid_def sample_manager_simps)
  then show ?thesis
    using web_create_reply [where 'd = unit, OF ok w] w by auto
qed

end
