(* ===== verification/TCPConnector.thy ===== *)
theory TCPConnector
  imports Decimal
begin

text \<open>
  The connector of a client session (TCPConnector.cpp): it resolves an address, tries the resolved
  endpoints one after the other and starts again after a delay that doubles. The calls it makes to
  asio are effects; asio answers them by calling \<open>handleResolve\<close> (the lambda of \<open>resolveAddress\<close>),
  \<open>handleConnect\<close> and \<open>handleTimer\<close> (the lambda of \<open>retry\<close>). The machine \<open>con_step\<close> lets the
  resolver, the network, the timer and the owner of the connector act in any order.
\<close>

datatype States = conDisconnected | conConnecting | conConnected | conStopped

text \<open>The asio errors the connector tells apart.\<close>

datatype connect_error =
    ConSuccess | try_again | address_in_use | no_protocol_option | connection_refused | host_unreachable
  | no_permission | access_denied | address_family_not_supported | already_started | bad_descriptor | fault
  | not_socket | other_error int

type_synonym endpoint = "string \<times> 16 word"

datatype con_effect =
    AsyncResolve string string | AsyncConnect endpoint | NewConnection | CloseSocket | AwaitTimer int

text \<open>\<open>con_endpoints\<close> is \<open>endpoint_iterator_\<close>: the endpoints from the current one on; the empty list
  is the end iterator. \<open>con_callback\<close> says whether \<open>newConnectionCallback_\<close> is set.\<close>

record TCPConnector =
  con_address :: string
  con_port :: "16 word"
  con_connect :: bool
  con_state :: States
  con_retryDelayMs :: int
  con_endpoints :: "endpoint list"
  con_callback :: bool

type_synonym con_result = "(TCPConnector \<times> con_effect list) result"

definition kMaxRetryDelayMs :: int where
  "kMaxRetryDelayMs = 30000"

definition kInitRetryDelayMs :: int where
  "kInitRetryDelayMs = 500"

definition TCPConnector_new :: "string \<Rightarrow> 16 word \<Rightarrow> bool \<Rightarrow> TCPConnector" where
  "TCPConnector_new address port callback =
     \<lparr>con_address = address, con_port = port, con_connect = False, con_state = conDisconnected,
      con_retryDelayMs = kInitRetryDelayMs, con_endpoints = [], con_callback = callback\<rparr>"

definition resolveAddress :: "TCPConnector \<Rightarrow> TCPConnector \<times> con_effect list" where
  "resolveAddress c = (c, [AsyncResolve (con_address c) (to_string (uint (con_port c)))])"

definition con_start :: "TCPConnector \<Rightarrow> TCPConnector \<times> con_effect list" where
  "con_start c =
     (if con_state c = conConnecting then (c, [])
      else resolveAddress (c\<lparr>con_connect := True, con_state := conConnecting\<rparr>))"

definition con_restart :: "TCPConnector \<Rightarrow> TCPConnector \<times> con_effect list" where
  "con_restart c = con_start (c\<lparr>con_state := conDisconnected, con_retryDelayMs := kInitRetryDelayMs, con_connect := True\<rparr>)"

definition con_stop :: "TCPConnector \<Rightarrow> TCPConnector" where
  "con_stop c = (if con_state c = conConnecting then c\<lparr>con_state := conStopped\<rparr> else c)"

text \<open>Dereferencing or advancing the end iterator reads through a null pointer.\<close>

definition con_connect_endpoint :: "TCPConnector \<Rightarrow> con_result" where
  "con_connect_endpoint c = (case con_endpoints c of [] \<Rightarrow> Inl NullDeref | e # _ \<Rightarrow> Inr (c, [AsyncConnect e]))"

text \<open>The error code of the resolver is not looked at; after an error the results are empty.\<close>

definition handleResolve :: "endpoint list \<Rightarrow> TCPConnector \<Rightarrow> con_result" where
  "handleResolve results c = con_connect_endpoint (c\<lparr>con_endpoints := results\<rparr>)"

definition con_retry :: "TCPConnector \<Rightarrow> TCPConnector \<times> con_effect list" where
  "con_retry c =
     (if con_state c = conStopped then (c, [CloseSocket])
      else let c = c\<lparr>con_state := conDisconnected\<rparr>
        in if con_connect c
           then (c\<lparr>con_retryDelayMs := min (con_retryDelayMs c * 2) kMaxRetryDelayMs\<rparr>,
                 [CloseSocket, AwaitTimer (con_retryDelayMs c)])
           else (c, [CloseSocket]))"

definition retryable :: "connect_error \<Rightarrow> bool" where
  "retryable ec \<longleftrightarrow> ec \<in> {try_again, address_in_use, no_protocol_option, connection_refused, host_unreachable}"

definition handleConnect :: "connect_error \<Rightarrow> TCPConnector \<Rightarrow> con_result" where
  "handleConnect ec c =
     (if ec = ConSuccess then Inr (c\<lparr>con_state := conConnected\<rparr>, if con_callback c then [NewConnection] else [])
      else case con_endpoints c of
        [] \<Rightarrow> Inl NullDeref
      | _ # rest \<Rightarrow>
          let c = c\<lparr>con_endpoints := rest\<rparr>
          in if rest \<noteq> [] then con_connect_endpoint c
             else if retryable ec then Inr (con_retry c)
             else Inr (c, [CloseSocket]))"

text \<open>The lambda of the retry timer ignores the error code of a cancelled wait.\<close>

definition handleTimer :: "TCPConnector \<Rightarrow> TCPConnector \<times> con_effect list" where
  "handleTimer c = con_start c"

section \<open>One round over the endpoints\<close>

fun run_connects :: "connect_error list \<Rightarrow> TCPConnector \<Rightarrow> con_result" where
  "run_connects [] c = Inr (c, [])"
| "run_connects (ec # ecs) c = rbind (handleConnect ec c) (\<lambda>(c, es).
     rbind (run_connects ecs c) (\<lambda>(c, es'). Inr (c, es @ es')))"

lemma run_connects_failing:
  assumes "length ecs = length eps" and "ecs \<noteq> []" and "list_all (\<lambda>ec. ec \<noteq> ConSuccess) ecs"
    and "con_endpoints c = eps"
  shows "run_connects ecs c =
    (let r = (if retryable (last ecs) then con_retry (c\<lparr>con_endpoints := []\<rparr>) else (c\<lparr>con_endpoints := []\<rparr>, [CloseSocket]))
     in Inr (fst r, map AsyncConnect (tl eps) @ snd r))"
  using assms
proof (induction ecs arbitrary: eps c)
  case (Cons ec ecs)
  then obtain e rest where eps: "eps = e # rest" "length ecs = length rest" "con_endpoints c = e # rest"
    by (cases eps) auto
  show ?case
  proof (cases ecs)
    case Nil
    then show ?thesis
      using Cons.prems eps by (cases "con_retry (c\<lparr>con_endpoints := []\<rparr>)") (simp add: handleConnect_def Let_def)
  next
    case (Cons ec' ecs')
    then obtain e' rest' where rest: "rest = e' # rest'"
      using eps by (cases rest) auto
    have "handleConnect ec c = Inr (c\<lparr>con_endpoints := rest\<rparr>, [AsyncConnect e'])"
      using Cons.prems eps rest by (simp add: handleConnect_def con_connect_endpoint_def)
    moreover have "run_connects ecs (c\<lparr>con_endpoints := rest\<rparr>) =
      (let r = (if retryable (last ecs) then con_retry (c\<lparr>con_endpoints := []\<rparr>) else (c\<lparr>con_endpoints := []\<rparr>, [CloseSocket]))
       in Inr (fst r, map AsyncConnect (tl rest) @ snd r))"
      using Cons.IH [of rest "c\<lparr>con_endpoints := rest\<rparr>"] Cons.prems eps Cons by simp
    ultimately show ?thesis
      using eps rest Cons by (simp add: Let_def)
  qed
qed simp

text \<open>A round tries every endpoint, once and in the order of the resolver, and only then decides:
  when all of them fail, the connector waits for its current delay and doubles it up to the
  maximum if the last error is one of the retryable ones and the connector was not stopped, and it
  gives up otherwise.\<close>

theorem connector_tries_every_endpoint:
  assumes "eps \<noteq> []" and "length ecs = length eps" and "list_all (\<lambda>ec. ec \<noteq> ConSuccess) ecs" and "con_connect c"
  shows "rbind (handleResolve eps c) (\<lambda>(c, es). rbind (run_connects ecs c) (\<lambda>(c, es'). Inr (c, es @ es'))) =
    (let c' = c\<lparr>con_endpoints := []\<rparr>
     in if retryable (last ecs) \<and> con_state c \<noteq> conStopped
        then Inr (c'\<lparr>con_state := conDisconnected, con_retryDelayMs := min (con_retryDelayMs c * 2) 30000\<rparr>,
                  map AsyncConnect eps @ [CloseSocket, AwaitTimer (con_retryDelayMs c)])
        else Inr (c', map AsyncConnect eps @ [CloseSocket]))"
proof -
  obtain e rest where eps: "eps = e # rest"
    using assms(1) by (cases eps) auto
  have "ecs \<noteq> []"
    using assms(1,2) by auto
  then have "run_connects ecs (c\<lparr>con_endpoints := eps\<rparr>) =
    (let r = (if retryable (last ecs) then con_retry (c\<lparr>con_endpoints := []\<rparr>) else (c\<lparr>con_endpoints := []\<rparr>, [CloseSocket]))
     in Inr (fst r, map AsyncConnect (tl eps) @ snd r))"
    using run_connects_failing [of ecs eps "c\<lparr>con_endpoints := eps\<rparr>"] assms(2,3) by simp
  then show ?thesis
    using eps assms(4) by (simp add: handleResolve_def con_connect_endpoint_def con_retry_def kMaxRetryDelayMs_def Let_def)
qed

theorem connector_tries_every_endpoint_witness:
  "let c = fst (con_start (TCPConnector_new ''localhost'' 7801 True)); a = (''::1'', 7801); b = (''127.0.0.1'', 7801)
   in rbind (handleResolve [a, b] c) (\<lambda>(c, es). rbind (run_connects [connection_refused, connection_refused] c)
        (\<lambda>(c, es'). Inr (c, es @ es'))) =
      Inr (c\<lparr>con_endpoints := [], con_state := conDisconnected, con_retryDelayMs := 1000\<rparr>,
           [AsyncConnect a, AsyncConnect b, CloseSocket, AwaitTimer 500])"
  using connector_tries_every_endpoint
    [of "[(''::1'', 7801), (''127.0.0.1'', 7801)]" "[connection_refused, connection_refused]"
      "fst (con_start (TCPConnector_new ''localhost'' 7801 True))"]
  by (simp add: con_start_def resolveAddress_def TCPConnector_new_def kInitRetryDelayMs_def retryable_def Let_def)

section \<open>The connector and its environment\<close>

text \<open>
  A connector with the operations of asio that are under way and what has happened so far: the
  delays waited since the last restart, the sockets handed to the callback and the number of
  restarts. The owner starts the connector once, may stop it at any time, and restarts it only
  after its connection was lost, as \<open>TCPClient::removeConnection\<close> and \<open>ClientSession::reconnect\<close> do.
\<close>

record con_io =
  conn :: TCPConnector
  resolving :: nat
  connecting :: nat
  waiting :: nat
  delays :: "int list"
  handed :: nat
  restarts :: nat

fun con_perform :: "con_effect \<Rightarrow> con_io \<Rightarrow> con_io" where
  "con_perform (AsyncResolve h p) m = m\<lparr>resolving := resolving m + 1\<rparr>"
| "con_perform (AsyncConnect e) m = m\<lparr>connecting := connecting m + 1\<rparr>"
| "con_perform NewConnection m = m\<lparr>handed := handed m + 1\<rparr>"
| "con_perform CloseSocket m = m"
| "con_perform (AwaitTimer ms) m = m\<lparr>waiting := waiting m + 1, delays := delays m @ [ms]\<rparr>"

definition con_done :: "con_io \<Rightarrow> TCPConnector \<times> con_effect list \<Rightarrow> con_io" where
  "con_done m r = fold con_perform (snd r) (m\<lparr>conn := fst r\<rparr>)"

inductive con_step :: "con_io \<Rightarrow> con_io \<Rightarrow> bool" where
  resolved: "0 < resolving m \<Longrightarrow> handleResolve results (conn m) = Inr r \<Longrightarrow>
    con_step m (con_done (m\<lparr>resolving := resolving m - 1\<rparr>) r)"
| connected: "0 < connecting m \<Longrightarrow> handleConnect ec (conn m) = Inr r \<Longrightarrow>
    con_step m (con_done (m\<lparr>connecting := connecting m - 1\<rparr>) r)"
| fired: "0 < waiting m \<Longrightarrow> con_step m (con_done (m\<lparr>waiting := waiting m - 1\<rparr>) (handleTimer (conn m)))"
| stopped: "con_step m (m\<lparr>conn := con_stop (conn m)\<rparr>)"
| restarted: "con_state (conn m) = conConnected \<Longrightarrow>
    con_step m (con_done (m\<lparr>delays := [], restarts := restarts m + 1\<rparr>) (con_restart (conn m)))"

definition con_init :: "TCPConnector \<Rightarrow> con_io" where
  "con_init c = con_done \<lparr>conn = c, resolving = 0, connecting = 0, waiting = 0, delays = [], handed = 0, restarts = 0\<rparr>
     (con_start c)"

inductive con_reachable :: "string \<Rightarrow> 16 word \<Rightarrow> con_io \<Rightarrow> bool" for address port where
  started: "con_reachable address port (con_init (TCPConnector_new address port True))"
| steps: "con_reachable address port m \<Longrightarrow> con_step m m' \<Longrightarrow> con_reachable address port m'"

definition backoff :: "nat \<Rightarrow> int" where
  "backoff k = min (500 * 2 ^ k) 30000"

lemma backoff_Suc: "min (backoff k * 2) 30000 = backoff (Suc k)"
  by (simp add: backoff_def)

definition con_inv :: "con_io \<Rightarrow> bool" where
  "con_inv m \<longleftrightarrow>
     con_callback (conn m) \<and> con_connect (conn m) \<and>
     resolving m + connecting m + waiting m \<le> 1 \<and>
     (con_state (conn m) = conConnected \<longrightarrow> resolving m + connecting m + waiting m = 0) \<and>
     (con_state (conn m) = conDisconnected \<longleftrightarrow> 0 < waiting m) \<and>
     (0 < connecting m \<longrightarrow> con_endpoints (conn m) \<noteq> []) \<and>
     handed m + (resolving m + connecting m + waiting m) \<le> restarts m + 1 \<and>
     (con_state (conn m) = conConnected \<longrightarrow> handed m \<le> restarts m + 1) \<and>
     delays m = map backoff [0..<length (delays m)] \<and>
     con_retryDelayMs (conn m) = backoff (length (delays m))"

lemmas con_op_defs = con_done_def con_start_def con_restart_def con_stop_def handleTimer_def resolveAddress_def
  handleResolve_def con_connect_endpoint_def con_retry_def kMaxRetryDelayMs_def kInitRetryDelayMs_def

lemma con_inv_resolved:
  assumes "con_inv m" and "0 < resolving m" and "handleResolve results (conn m) = Inr r"
  shows "con_inv (con_done (m\<lparr>resolving := resolving m - 1\<rparr>) r)"
proof -
  obtain e rest where "results = e # rest"
    using assms(3) by (cases results) (simp_all add: con_op_defs)
  then have r: "r = ((conn m)\<lparr>con_endpoints := results\<rparr>, [AsyncConnect e])"
    using assms(3) by (simp add: con_op_defs)
  show ?thesis
    using assms(1,2) \<open>results = _\<close> by (simp add: r con_inv_def con_done_def)
qed

lemma con_inv_connected:
  assumes inv: "con_inv m" and "0 < connecting m" and "handleConnect ec (conn m) = Inr r"
  shows "con_inv (con_done (m\<lparr>connecting := connecting m - 1\<rparr>) r)"
proof -
  obtain e rest where eps: "con_endpoints (conn m) = e # rest"
    using inv assms(2) by (cases "con_endpoints (conn m)") (simp_all add: con_inv_def)
  have counts: "connecting m = 1" "resolving m = 0" "waiting m = 0"
      "con_state (conn m) = conConnecting \<or> con_state (conn m) = conStopped"
    using inv assms(2) by (auto simp: con_inv_def intro: States.exhaust)
  consider (success) "ec = ConSuccess" | (again) "ec \<noteq> ConSuccess" "rest \<noteq> []"
    | (wait) "ec \<noteq> ConSuccess" "rest = []" "retryable ec" | (giveup) "ec \<noteq> ConSuccess" "rest = []" "\<not> retryable ec"
    by blast
  then show ?thesis
  proof cases
    case success
    then show ?thesis
      using assms(3) inv counts by (auto simp: handleConnect_def con_inv_def con_done_def)
  next
    case again
    then obtain e' rest' where "rest = e' # rest'"
      by (cases rest) auto
    then show ?thesis
      using again assms(3) eps inv counts by (auto simp: handleConnect_def con_connect_endpoint_def con_inv_def con_done_def)
  next
    case wait
    then have "r = con_retry ((conn m)\<lparr>con_endpoints := []\<rparr>)"
      using assms(3) eps by (simp add: handleConnect_def)
    then show ?thesis
      using inv counts by (auto simp: con_inv_def con_done_def con_retry_def Let_def kMaxRetryDelayMs_def backoff_Suc)
  next
    case giveup
    then show ?thesis
      using assms(3) eps inv counts by (auto simp: handleConnect_def con_inv_def con_done_def)
  qed
qed

lemma con_inv_step: "con_step m m' \<Longrightarrow> con_inv m \<Longrightarrow> con_inv m'"
proof (induction rule: con_step.induct)
  case (fired m)
  then show ?case
    by (auto simp: con_inv_def con_op_defs)
next
  case (stopped m)
  then show ?case
    by (auto simp: con_inv_def con_op_defs)
next
  case (restarted m)
  then show ?case
    by (auto simp: con_inv_def con_op_defs backoff_def)
qed (blast intro: con_inv_resolved con_inv_connected)+

lemma con_reachable_inv: "con_reachable address port m \<Longrightarrow> con_inv m"
proof (induction rule: con_reachable.induct)
  case started
  show ?case
    by (simp add: con_inv_def con_init_def con_op_defs TCPConnector_new_def backoff_def)
qed (blast intro: con_inv_step)

section \<open>Properties\<close>


text \<open>C36: The exact backoff. In every reachable state the delays waited since the last restart are
  500, 1000, 2000, ... milliseconds, capped at 30000, whatever happened between them; so every
  delay lies between 500 and 30000 and doubling it cannot overflow an \<open>int\<close>.\<close>

theorem connector_backoff:
  assumes "con_reachable address port m"
  shows "delays m = map (\<lambda>k. min (500 * 2 ^ k) 30000) [0..<length (delays m)] \<and>
    500 \<le> con_retryDelayMs (conn m) \<and> con_retryDelayMs (conn m) * 2 < 2 ^ 31"
proof -
  have inv: "delays m = map backoff [0..<length (delays m)]" "con_retryDelayMs (conn m) = backoff (length (delays m))"
    using con_reachable_inv [OF assms] by (simp_all add: con_inv_def)
  have "backoff = (\<lambda>k. min (500 * 2 ^ k) 30000)"
    by (rule ext) (simp add: backoff_def)
  then have "delays m = map (\<lambda>k. min (500 * 2 ^ k) 30000) [0..<length (delays m)]"
    using inv(1) by simp
  moreover have "500 \<le> backoff (length (delays m)) \<and> backoff (length (delays m)) \<le> 30000"
    by (simp add: backoff_def)
  ultimately show ?thesis
    by (simp add: inv(2))
qed

definition sample_refused :: "con_io \<Rightarrow> con_io" where
  "sample_refused m = m\<lparr>conn := (conn m)\<lparr>con_state := conDisconnected, con_endpoints := [],
      con_retryDelayMs := min (con_retryDelayMs (conn m) * 2) 30000\<rparr>,
     resolving := 0, connecting := 0, waiting := 1, delays := delays m @ [con_retryDelayMs (conn m)]\<rparr>"

lemma sample_refused_reachable:
  assumes "con_reachable address port m" and "resolving m = 1" and "con_state (conn m) \<noteq> conStopped"
  shows "con_reachable address port (sample_refused m)"
proof -
  have inv: "con_connect (conn m)" "connecting m = 0" "waiting m = 0"
    using con_reachable_inv [OF assms(1)] assms(2) by (simp_all add: con_inv_def)
  let ?m1 = "con_done (m\<lparr>resolving := resolving m - 1\<rparr>) ((conn m)\<lparr>con_endpoints := [(''127.0.0.1'', port)]\<rparr>, [AsyncConnect (''127.0.0.1'', port)])"
  have "con_step m ?m1"
    using assms(2) by (intro con_step.resolved [where results = "[(''127.0.0.1'', port)]"])
      (simp_all add: handleResolve_def con_connect_endpoint_def)
  then have one: "con_reachable address port ?m1"
    using assms(1) by (rule con_reachable.steps [rotated])
  have "con_step ?m1 (con_done (?m1\<lparr>connecting := connecting ?m1 - 1\<rparr>) (con_retry ((conn m)\<lparr>con_endpoints := []\<rparr>)))"
    by (rule con_step.connected [where ec = connection_refused])
      (simp_all add: con_done_def handleConnect_def retryable_def inv)
  also have "con_done (?m1\<lparr>connecting := connecting ?m1 - 1\<rparr>) (con_retry ((conn m)\<lparr>con_endpoints := []\<rparr>)) = sample_refused m"
    using assms(2,3) inv by (simp add: con_done_def con_retry_def Let_def sample_refused_def kMaxRetryDelayMs_def)
  finally show ?thesis
    using one by (rule con_reachable.steps [rotated])
qed

definition sample_waiting :: con_io where
  "sample_waiting = sample_refused (con_init (TCPConnector_new ''localhost'' 7801 True))"

lemma sample_waiting_reachable: "con_reachable ''localhost'' 7801 sample_waiting"
  unfolding sample_waiting_def
  by (rule sample_refused_reachable [OF con_reachable.started])
    (simp_all add: con_init_def con_op_defs TCPConnector_new_def)

definition sample_waiting_twice :: con_io where
  "sample_waiting_twice = sample_refused (con_done (sample_waiting\<lparr>waiting := 0\<rparr>) (handleTimer (conn sample_waiting)))"

lemma sample_waiting_twice_reachable: "con_reachable ''localhost'' 7801 sample_waiting_twice"
proof -
  have "con_step sample_waiting (con_done (sample_waiting\<lparr>waiting := waiting sample_waiting - 1\<rparr>) (handleTimer (conn sample_waiting)))"
    by (rule con_step.fired) (simp add: sample_waiting_def sample_refused_def)
  then have "con_reachable ''localhost'' 7801 (con_done (sample_waiting\<lparr>waiting := 0\<rparr>) (handleTimer (conn sample_waiting)))"
    using con_reachable.steps [OF sample_waiting_reachable] by (simp add: sample_waiting_def sample_refused_def)
  then show ?thesis
    unfolding sample_waiting_twice_def
    by (rule sample_refused_reachable) (simp_all add: sample_waiting_def sample_refused_def con_init_def con_op_defs TCPConnector_new_def)
qed


theorem connector_backoff_witness:
  "delays sample_waiting_twice = [500, 1000] \<and> con_retryDelayMs (conn sample_waiting_twice) * 2 < 2 ^ 31"
proof -
  have "length (delays sample_waiting_twice) = 2"
    by (simp add: sample_waiting_twice_def sample_waiting_def sample_refused_def con_init_def con_op_defs TCPConnector_new_def)
  then show ?thesis
    using connector_backoff [OF sample_waiting_twice_reachable] by (simp add: upt_rec [of _ 2] upt_rec [of _ "Suc (Suc 0)"] numeral_2_eq_2)
qed

text \<open>A stop between two attempts is lost: while the connector waits for its retry timer,
  \<open>stop\<close> changes nothing, and when the timer fires the address is resolved and connected again.\<close>

theorem stop_while_waiting_is_ignored:
  assumes "con_reachable address port m" and "0 < waiting m"
  shows "con_stop (conn m) = conn m \<and>
    snd (handleTimer (con_stop (conn m))) = [AsyncResolve (con_address (conn m)) (to_string (uint (con_port (conn m))))]"
  using con_reachable_inv [OF assms(1)] assms(2)
  by (auto simp: con_inv_def con_stop_def handleTimer_def con_start_def resolveAddress_def)

theorem stop_while_waiting_is_ignored_witness:
  "con_stop (conn sample_waiting) = conn sample_waiting \<and>
   snd (handleTimer (con_stop (conn sample_waiting))) = [AsyncResolve ''localhost'' (to_string 7801)]"
  using stop_while_waiting_is_ignored [OF sample_waiting_reachable]
  by (simp add: sample_waiting_def sample_refused_def con_init_def con_op_defs TCPConnector_new_def)

text \<open>An address that does not resolve ends the program, and an error that is neither retryable nor
  followed by another endpoint leaves the connector in the connecting state with nothing under
  way, where a further \<open>start\<close> does nothing.\<close>

lemma connector_dead_ends:
  "handleResolve [] c = Inl NullDeref"
  "con_state c = conConnecting \<Longrightarrow> con_endpoints c = [e] \<Longrightarrow> ec \<noteq> ConSuccess \<Longrightarrow> \<not> retryable ec \<Longrightarrow>
     handleConnect ec c = Inr (c\<lparr>con_endpoints := []\<rparr>, [CloseSocket]) \<and>
     con_start (c\<lparr>con_endpoints := []\<rparr>) = (c\<lparr>con_endpoints := []\<rparr>, [])"
  by (simp_all add: handleResolve_def con_connect_endpoint_def handleConnect_def con_start_def)

end
