(* ===== verification/TCPEndpoints.thy ===== *)
theory TCPEndpoints
  imports TCPSessionManager TCPConnector
begin

text \<open>
  Both ends of a connection above the session: TCPAcceptor.cpp and TCPListener.cpp (accepting and
  registering sessions with the session manager), TCPServer.cpp and TCPClient.cpp (the stand-alone
  server and client) and TimerManager (repeated timers). The callbacks of the source are functions
  on the state of their owner; the sockets, the resolver and the clock are the environment.
\<close>

section \<open>Accepting\<close>

text \<open>\<open>handAccept\<close> returns the new state and whether an accept is under way again. \<open>listen\<close> catches
  the exceptions of opening and binding the port: the flag says whether the first accept was
  started.\<close>

definition handAccept :: "('s \<Rightarrow> 's result) option \<Rightarrow> bool \<Rightarrow> 's \<Rightarrow> ('s \<times> bool) result" where
  "handAccept newConnectionCallback ok s =
     (if ok
      then (case newConnectionCallback of
              Some cb \<Rightarrow> rbind (cb s) (\<lambda>s'. Inr (s', True))
            | None \<Rightarrow> Inr (s, False))
      else Inr (s, False))"

definition acceptor_listen :: "bool \<Rightarrow> 's \<Rightarrow> 's \<times> bool" where
  "acceptor_listen bound s = (s, bound)"

text \<open>The accepts the system completes, one after the other: each is a connection for the callback
  or an error.\<close>

fun accept_run :: "('c \<Rightarrow> 's \<Rightarrow> 's result) \<Rightarrow> 'c option list \<Rightarrow> 's \<times> bool \<Rightarrow> ('s \<times> bool) result" where
  "accept_run cb [] r = Inr r"
| "accept_run cb (ev # evs) (s, listening) =
     (if \<not> listening then Inr (s, False)
      else rbind (case ev of Some c \<Rightarrow> handAccept (Some (cb c)) True s | None \<Rightarrow> handAccept (Some (\<lambda>s. Inr s)) False s)
             (accept_run cb evs))"

lemma accept_run_dead: "accept_run cb evs (s, False) = Inr (s, False)"
  by (cases evs) simp_all

lemma accept_run_append: "accept_run cb (xs @ ys) r = rbind (accept_run cb xs r) (accept_run cb ys)"
proof (induction xs arbitrary: r)
  case (Cons x xs)
  obtain s l where r: "r = (s, l)"
    by fastforce
  show ?case
  proof (cases l)
    case True
    then show ?thesis
      using Cons.IH by (cases "case x of Some c \<Rightarrow> handAccept (Some (cb c)) True s | None \<Rightarrow> handAccept (Some (\<lambda>s. Inr s)) False s")
        (simp_all add: r)
  qed (simp add: r accept_run_dead)
qed simp

text \<open>The first error of an accept ends the listener: the connections that arrive before it are
  handed to the callback in order, and none that arrives after it is accepted, although the
  error may concern one connection only (a peer that reset it, too many open files).\<close>

theorem accept_error_ends_listening:
  assumes "rfold cb cs s = Inr s'"
  shows "accept_run cb (map Some cs @ None # later) (acceptor_listen True s) = Inr (s', False)"
proof -
  have "accept_run cb (map Some cs) (s, True) = Inr (s', True)"
    using assms
  proof (induction cs arbitrary: s)
    case (Cons c cs)
    then show ?case
      by (cases "cb c s") (simp_all add: handAccept_def)
  qed simp
  then show ?thesis
    by (simp add: accept_run_append acceptor_listen_def handAccept_def accept_run_dead)
qed

theorem accept_error_ends_listening_witness:
  "accept_run (\<lambda>c s. Inr (s @ [c])) [Some ''a'', None, Some ''b''] (acceptor_listen True []) = Inr ([''a''], False)"
  using accept_error_ends_listening [of "\<lambda>c s. Inr (s @ [c])" "[''a'']" "[]" "[''a'']" "[Some ''b'']"] by simp

section \<open>Listeners\<close>

text \<open>\<open>TCPListener::newConnection\<close> with the callback the manager installs: the factory makes a
  session for the socket at the fresh pointer \<open>p\<close>.\<close>

definition listener_newConnection :: "nat \<Rightarrow> int \<Rightarrow> session_ptr \<Rightarrow> 8 word \<Rightarrow> TCPSessionManager \<Rightarrow> manager_result" where
  "listener_newConnection M now p t m =
     rbind (newSession M p (m\<lparr>heap := (heap m)(p \<mapsto> setType (ucast t) (TCPSession_socket now))\<rparr>))
       (on_session p connectEstablished)"

lemma setType_session_type: "session_type (setType (ucast (t :: 8 word)) s) = t"
  by (rule bit_word_eqI) (simp add: session_type_def setType_def bit_simps)

lemma connectEstablished_frame:
  assumes "sess_ok s" and "socket s" and "\<not> connectionCallback s"
  shows "\<exists>b. connectEstablished s = Inr (s\<lparr>state := kConnected, inputBuffer := b\<rparr>, [AsyncRead, SendInitData]) \<and> buf_ok b"
proof -
  have "sess_ok (s\<lparr>state := kConnected\<rparr>)"
    using assms by (simp add: sess_ok_def)
  from startAsyncRead_spec [OF this] show ?thesis
    using assms(3) by (auto simp: connectEstablished_def)
qed

text \<open>An accepted connection is registered before it is used: while the manager has room, the new
  session is connected, has the type of its listener, is found under its uuid, starts reading, and
  no other session changes.\<close>

theorem accepted_session_is_registered:
  assumes ok: "mgr_ok M m" and room: "has_room M (sessionMap m)" and new: "heap m p = None" and small: "M < 2 ^ 31"
  shows "\<exists>m' s'. listener_newConnection M now p t m = Inr (m', [(p, AsyncRead), (p, SendInitData)]) \<and> mgr_ok M m' \<and>
    heap m' p = Some s' \<and> state s' = kConnected \<and> session_type s' = t \<and> pending s' = [] \<and>
    getSession M (uuid s') m' = Inr (Some p) \<and> (\<forall>q. q \<noteq> p \<longrightarrow> heap m' q = heap m q)"
proof -
  let ?s = "setType (ucast t) (TCPSession_socket now)"
  let ?m = "m\<lparr>heap := (heap m)(p \<mapsto> ?s)\<rparr>"
  have s: "sess_ok ?s" "pending ?s = []"
    using TCPSession_new_ok [of now] by (simp_all add: setType_def TCPSession_socket_def sess_ok_def pending_def)
  have fresh: "p \<notin> ran (slot (sessionMap m))"
    using ok new by (auto simp: mgr_ok_def)
  have "mgr_ok M ?m"
    using ok s(1) by (auto simp: mgr_ok_def)
  from addSession_spec [OF this, of p ?s] obtain m1 u where
      m1: "addSession M p ?m = Inr m1" "mgr_ok M m1" "\<forall>q. q \<noteq> p \<longrightarrow> heap m1 q = heap ?m q"
      and s1: "heap m1 p = Some ((setUUID u ?s)\<lparr>closeCallback := True\<rparr>)"
        "getSession M (uuid ((setUUID u ?s)\<lparr>closeCallback := True\<rparr>)) m1 = Inr (Some p)"
    using room small fresh by auto
  let ?s1 = "(setUUID u ?s)\<lparr>closeCallback := True\<rparr>"
  have s1_ok: "sess_ok ?s1" "socket ?s1" "\<not> connectionCallback ?s1"
    using m1(2) s1 by (auto simp: mgr_ok_def setUUID_def setType_def TCPSession_socket_def TCPSession_new_def)
  then obtain b where b: "connectEstablished ?s1 = Inr (?s1\<lparr>state := kConnected, inputBuffer := b\<rparr>, [AsyncRead, SendInitData])" "buf_ok b"
    using connectEstablished_frame by blast
  let ?s' = "?s1\<lparr>state := kConnected, inputBuffer := b\<rparr>"
  let ?m' = "m1\<lparr>heap := (heap m1)(p \<mapsto> ?s')\<rparr>"
  have "sess_ok ?s'"
    using s1_ok b(2) by (simp add: sess_ok_def)
  then have "mgr_ok M ?m'"
    using m1(2) by (auto simp: mgr_ok_def)
  moreover have "session_type ?s' = t"
    using setType_session_type [of t "TCPSession_socket now"] by (simp add: session_type_def setUUID_def)
  moreover have "listener_newConnection M now p t m = Inr (?m', [(p, AsyncRead), (p, SendInitData)])"
    using m1(1) s1(1) b(1) by (simp add: listener_newConnection_def newSession_def on_session_def)
  moreover have "getSession M (uuid ?s') ?m' = Inr (Some p)"
    using s1(2) by (auto simp: getSession_def split: if_splits)
  moreover have "pending ?s' = []"
    using s(2) by (simp add: pending_def setUUID_def)
  ultimately show ?thesis
    using m1(3) by (intro exI [of _ ?m'] exI [of _ ?s']) simp
qed

theorem accepted_session_is_registered_witness:
  "\<exists>m' s'. listener_newConnection 3 0 9 5 sample_sessions = Inr (m', [(9, AsyncRead), (9, SendInitData)]) \<and>
     heap m' 9 = Some s' \<and> session_type s' = 5 \<and> getSession 3 (uuid s') m' = Inr (Some 9)"
proof -
  have "has_room 3 (sessionMap sample_sessions)"
    by (simp add: sample_sessions_def has_room_def addObject_def ObjectIndexPool_new_def)
  moreover have "heap sample_sessions 9 = None"
    by (simp add: sample_heap)
  ultimately show ?thesis
    using accepted_session_is_registered [OF sample_sessions_ok, of 9 0 5] by auto
qed

section \<open>The stand-alone server\<close>

text \<open>\<open>connectionsMap_\<close> and the sessions behind its pointers. The peer of a socket is its address and
  port, or \<open>None\<close> when it has gone already, which makes \<open>remote_endpoint\<close> throw.\<close>

record TCPServer =
  srv_connections :: "string \<Rightarrow> session_ptr option"
  srv_heap :: "session_ptr \<Rightarrow> (string \<times> TCPSession) option"
  srv_nextConnectionID :: int
  srv_removed :: "session_ptr list"

definition TCPServer_new :: TCPServer where
  "TCPServer_new = \<lparr>srv_connections = Map.empty, srv_heap = Map.empty, srv_nextConnectionID = 0, srv_removed = []\<rparr>"

text \<open>\<open>snprintf\<close> into an array of 64 keeps 63 characters.\<close>

definition srv_name :: "string \<Rightarrow> 16 word \<Rightarrow> int \<Rightarrow> string" where
  "srv_name address port n = take 63 (address @ '':'' @ to_string (uint port) @ ''-'' @ to_string n)"

definition srv_newConnection ::
  "int \<Rightarrow> (string \<times> 16 word) option \<Rightarrow> session_ptr \<Rightarrow> TCPServer \<Rightarrow> (TCPServer \<times> effect list) result" where
  "srv_newConnection now peer p v = (case peer of
     None \<Rightarrow> Inl Thrown
   | Some (address, port) \<Rightarrow>
       let n = srv_nextConnectionID v + 1; name = srv_name address port n;
           s = (TCPSession_socket now)\<lparr>connectionCallback := True, closeCallback := True\<rparr>
       in rbind (connectEstablished s) (\<lambda>(s, es).
            Inr (v\<lparr>srv_nextConnectionID := n, srv_connections := (srv_connections v)(name \<mapsto> p),
                   srv_heap := (srv_heap v)(p \<mapsto> (name, s))\<rparr>, es)))"

text \<open>\<open>removeConnection\<close>; the callback of the owner, when set, is told the session.\<close>

definition srv_removeConnection :: "bool \<Rightarrow> session_ptr \<Rightarrow> TCPServer \<Rightarrow> TCPServer result" where
  "srv_removeConnection removeConnectionCallback p v = (case srv_heap v p of
     None \<Rightarrow> Inl NullDeref
   | Some (name, s) \<Rightarrow>
       Inr (v\<lparr>srv_connections := (srv_connections v)(name := None),
              srv_removed := srv_removed v @ (if removeConnectionCallback then [p] else [])\<rparr>))"

text \<open>The default callback of server and client: everything received goes back.\<close>

definition defaultMessageCallback :: "TCPSession \<Rightarrow> session_result" where
  "defaultMessageCallback s =
     (let receive = take (readableBytes (inputBuffer s)) (beginRead (inputBuffer s))
      in send receive (s\<lparr>inputBuffer := retrieveAll (inputBuffer s)\<rparr>))"

section \<open>The stand-alone client\<close>

record TCPClient =
  cl_connector :: TCPConnector
  cl_session :: "TCPSession option"
  cl_retry :: bool
  cl_connect :: bool

definition TCPClient_new :: "string \<Rightarrow> 16 word \<Rightarrow> TCPClient" where
  "TCPClient_new ip port =
     \<lparr>cl_connector = TCPConnector_new ip port True, cl_session = None, cl_retry = False, cl_connect = False\<rparr>"

definition cl_do_connect :: "TCPClient \<Rightarrow> TCPClient \<times> con_effect list" where
  "cl_do_connect c = (let (k, es) = con_start (cl_connector c) in (c\<lparr>cl_connect := True, cl_connector := k\<rparr>, es))"

definition cl_on_session :: "(TCPSession \<Rightarrow> session_result) \<Rightarrow> TCPClient \<Rightarrow> (TCPClient \<times> effect list) result" where
  "cl_on_session f c = (case cl_session c of
     None \<Rightarrow> Inl NullDeref
   | Some s \<Rightarrow> rbind (f s) (\<lambda>(s, es). Inr (c\<lparr>cl_session := Some s\<rparr>, es)))"

definition cl_disconnect :: "TCPClient \<Rightarrow> (TCPClient \<times> effect list) result" where
  "cl_disconnect c =
     (let c = c\<lparr>cl_connect := False\<rparr>
      in if cl_session c = None then Inr (c, []) else cl_on_session shutdown c)"

definition cl_stop :: "TCPClient \<Rightarrow> TCPClient" where
  "cl_stop c = c\<lparr>cl_connector := con_stop (cl_connector c)\<rparr>"

definition cl_send :: "byte list \<Rightarrow> TCPClient \<Rightarrow> (TCPClient \<times> effect list) result" where
  "cl_send message c = cl_on_session (send message) c"

definition cl_newConnection :: "int \<Rightarrow> (string \<times> 16 word) option \<Rightarrow> TCPClient \<Rightarrow> (TCPClient \<times> effect list) result" where
  "cl_newConnection now peer c = (case peer of
     None \<Rightarrow> Inl Thrown
   | Some _ \<Rightarrow>
       rbind (connectEstablished ((TCPSession_socket now)\<lparr>connectionCallback := True, closeCallback := True\<rparr>)) (\<lambda>(s, es).
         Inr (c\<lparr>cl_session := Some s\<rparr>, es)))"

definition cl_removeConnection :: "TCPClient \<Rightarrow> (TCPClient \<times> effect list \<times> con_effect list) result" where
  "cl_removeConnection c =
     rbind (cl_on_session connectDestroyed c) (\<lambda>(c, es).
       if cl_retry c \<and> cl_connect c
       then let (k, ces) = con_restart (cl_connector c) in Inr (c\<lparr>cl_connector := k\<rparr>, es, ces)
       else Inr (c, es, []))"

section \<open>Timers\<close>

text \<open>\<open>RepeatHandler\<close>: the interval is the value of \<open>S2M(interval_)\<close>, in milliseconds. A call returns
  whether the handler ran and when the timer expires next.\<close>

record RepeatHandler =
  rh_interval :: int
  rh_count :: int

definition rh_call :: "bool \<Rightarrow> int \<Rightarrow> RepeatHandler \<Rightarrow> RepeatHandler \<times> bool \<times> int option" where
  "rh_call ok now h =
     (if ok
      then let h = h\<lparr>rh_count := rh_count h - 1\<rparr>
        in (h, True, if rh_count h > 0 then Some (now + rh_interval h) else None)
      else (h, False, None))"

text \<open>A created timer under a system that runs its handler the given times late, or cancels it
  (\<open>None\<close>). The result is the times at which the handler ran, and whether the timer is still set.\<close>

fun timer_run :: "int option list \<Rightarrow> int option \<Rightarrow> RepeatHandler \<Rightarrow> int list \<times> bool" where
  "timer_run evs None h = ([], False)"
| "timer_run [] (Some expiry) h = ([], True)"
| "timer_run (ev # evs) (Some expiry) h =
     (let now = expiry + (case ev of Some late \<Rightarrow> late | None \<Rightarrow> 0);
          (h, ran, next) = rh_call (ev \<noteq> None) now h;
          (calls, active) = timer_run evs next h
      in (if ran then now # calls else calls, active))"

definition createTimer :: "int option list \<Rightarrow> int \<Rightarrow> int \<Rightarrow> int \<Rightarrow> int \<Rightarrow> int list \<times> bool" where
  "createTimer evs now delay interval n =
     timer_run evs (Some (now + delay)) \<lparr>rh_interval = interval, rh_count = n\<rparr>"

section \<open>Properties of server, client and timer\<close>

lemma srv_name_complete:
  assumes "length address \<le> 45" and "0 \<le> n" and "n < 2 ^ 31"
  shows "srv_name address port n = address @ '':'' @ to_string (uint port) @ ''-'' @ to_string n"
proof -
  have "unat port < 2 ^ LENGTH(16)"
    by (rule unsigned_less)
  then have "nat (uint port) < 10 ^ 5"
    by simp
  then have "length (to_string (uint port)) \<le> 5"
    using length_dec [of "nat (uint port)" 5] by (simp add: to_string_def)
  moreover have "nat n < 10 ^ 10"
    using assms(2,3) by (simp add: nat_less_iff)
  then have "length (to_string n) \<le> 10"
    using length_dec [of "nat n" 10] assms(2) by (simp add: to_string_def)
  ultimately show ?thesis
    using assms(1) by (simp add: srv_name_def)
qed

lemma name_suffix: "0 \<le> n \<Longrightarrow> takeWhile is_digit (rev (xs @ ''-'' @ to_string n)) = rev (to_string n)"
proof -
  assume "0 \<le> n"
  then have "\<forall>c \<in> set (rev (to_string n)). is_digit c"
    using dec_digits [of "nat n"] by (simp add: to_string_def list_all_iff)
  moreover have "\<not> is_digit (CHR ''-'')"
    by (simp add: is_digit_def)
  ultimately show ?thesis
    using takeWhile_append2 [of "rev (to_string n)" is_digit "CHR ''-'' # rev xs"] by simp
qed

lemma srv_name_inj:
  assumes "srv_name a p n = srv_name b q k" and "length a \<le> 45" "length b \<le> 45"
    and "0 \<le> n" "n < 2 ^ 31" "0 \<le> k" "k < 2 ^ 31"
  shows "n = k"
proof -
  have "(a @ '':'' @ to_string (uint p)) @ ''-'' @ to_string n = (b @ '':'' @ to_string (uint q)) @ ''-'' @ to_string k"
    using assms srv_name_complete by simp
  then have "rev (to_string n) = rev (to_string k)"
    using name_suffix assms(4,6) by metis
  then have "dec (nat n) = dec (nat k)"
    using assms(4,6) by (simp add: to_string_def)
  then have "nat n = nat k"
    using digits_val_dec by metis
  then show ?thesis
    using assms(4,6) by simp
qed

text \<open>The server with the sessions that were accepted and not yet closed. Addresses are at most 45
  characters, the length of the longest textual IPv6 address.\<close>

inductive srv_reachable :: "TCPServer \<Rightarrow> session_ptr set \<Rightarrow> bool" where
  fresh: "srv_reachable TCPServer_new {}"
| accepted: "srv_reachable v live \<Longrightarrow> length address \<le> 45 \<Longrightarrow> srv_heap v p = None \<Longrightarrow> srv_nextConnectionID v + 1 < 2 ^ 31 \<Longrightarrow>
    srv_newConnection now (Some (address, port)) p v = Inr (v', es) \<Longrightarrow> srv_reachable v' (insert p live)"
| closed: "srv_reachable v live \<Longrightarrow> p \<in> live \<Longrightarrow> srv_removeConnection cb p v = Inr v' \<Longrightarrow> srv_reachable v' (live - {p})"

definition srv_inv :: "TCPServer \<Rightarrow> session_ptr set \<Rightarrow> bool" where
  "srv_inv v live \<longleftrightarrow> 0 \<le> srv_nextConnectionID v \<and> srv_nextConnectionID v < 2 ^ 31 \<and>
     (\<forall>p \<in> live. \<exists>name s. srv_heap v p = Some (name, s) \<and> srv_connections v name = Some p) \<and>
     (\<forall>name p. srv_connections v name = Some p \<longrightarrow> p \<in> live \<and> (\<exists>s. srv_heap v p = Some (name, s)) \<and>
        (\<exists>a q i. name = srv_name a q i \<and> length a \<le> 45 \<and> 0 \<le> i \<and> i \<le> srv_nextConnectionID v))"

lemma srv_reachable_inv: "srv_reachable v live \<Longrightarrow> srv_inv v live"
proof (induction rule: srv_reachable.induct)
  case fresh
  then show ?case
    by (simp add: srv_inv_def TCPServer_new_def)
next
  case (accepted v live address p now port v' es)
  let ?n = "srv_nextConnectionID v + 1"
  let ?name = "srv_name address port ?n"
  obtain s where v': "v' = v\<lparr>srv_nextConnectionID := ?n, srv_connections := (srv_connections v)(?name \<mapsto> p),
      srv_heap := (srv_heap v)(p \<mapsto> (?name, s))\<rparr>"
    using accepted.hyps by (auto simp: srv_newConnection_def Let_def)
  have new: "srv_connections v ?name = None"
  proof (cases "srv_connections v ?name")
    case (Some q)
    then obtain a r i where "?name = srv_name a r i" "length a \<le> 45" "0 \<le> i" "i \<le> srv_nextConnectionID v"
      using accepted.IH unfolding srv_inv_def by blast
    then show ?thesis
      using srv_name_inj [of address port ?n a r i] accepted.hyps accepted.IH by (auto simp: srv_inv_def)
  qed
  have keep: "\<exists>name s. srv_heap v' q = Some (name, s) \<and> srv_connections v' name = Some q" if q: "q \<in> live" for q
  proof -
    obtain name s' where "srv_heap v q = Some (name, s')" "srv_connections v name = Some q"
      using accepted.IH q unfolding srv_inv_def by blast
    then show ?thesis
      using new accepted.hyps by (auto simp: v')
  qed
  moreover have "q \<in> insert p live \<and> (\<exists>s. srv_heap v' q = Some (name, s)) \<and> (\<exists>a r i. name = srv_name a r i \<and> length a \<le> 45 \<and> 0 \<le> i \<and> i \<le> srv_nextConnectionID v')"
    if "srv_connections v' name = Some q" for name q
  proof (cases "name = ?name")
    case True
    have "0 \<le> ?n" "?n \<le> srv_nextConnectionID v'"
      using accepted.IH by (simp_all add: v' srv_inv_def)
    then have "\<exists>a r i. name = srv_name a r i \<and> length a \<le> 45 \<and> 0 \<le> i \<and> i \<le> srv_nextConnectionID v'"
      using True accepted.hyps(2) by blast
    then show ?thesis
      using that True by (auto simp: v')
  next
    case False
    then have "srv_connections v name = Some q"
      using that by (simp add: v')
    then obtain a r i s' where q: "q \<in> live" "srv_heap v q = Some (name, s')"
        "name = srv_name a r i" "length a \<le> 45" "0 \<le> i" "i \<le> srv_nextConnectionID v"
      using accepted.IH unfolding srv_inv_def by blast
    then have "srv_heap v' q = Some (name, s')" "i \<le> srv_nextConnectionID v'"
      using accepted.hyps by (auto simp: v')
    then show ?thesis
      using q by blast
  qed
  moreover have "srv_heap v' p = Some (?name, s)" "srv_connections v' ?name = Some p"
    "0 \<le> srv_nextConnectionID v'" "srv_nextConnectionID v' < 2 ^ 31"
    using accepted.hyps accepted.IH by (simp_all add: v' srv_inv_def)
  ultimately show ?case
    unfolding srv_inv_def by blast
next
  case (closed v live p cb v')
  obtain name s where p: "srv_heap v p = Some (name, s)" "srv_connections v name = Some p"
    using closed unfolding srv_inv_def by blast
  have v': "v' = v\<lparr>srv_connections := (srv_connections v)(name := None), srv_removed := srv_removed v @ (if cb then [p] else [])\<rparr>"
    using closed.hyps p by (simp add: srv_removeConnection_def)
  have "\<exists>name s. srv_heap v' q = Some (name, s) \<and> srv_connections v' name = Some q" if q: "q \<in> live - {p}" for q
  proof -
    obtain name' s' where "srv_heap v q = Some (name', s')" "srv_connections v name' = Some q"
      using closed.IH q unfolding srv_inv_def by blast
    then show ?thesis
      using p q by (auto simp: v')
  qed
  moreover have "q \<in> live - {p} \<and> (\<exists>s. srv_heap v' q = Some (name', s)) \<and> (\<exists>a r i. name' = srv_name a r i \<and> length a \<le> 45 \<and> 0 \<le> i \<and> i \<le> srv_nextConnectionID v')"
    if q: "srv_connections v' name' = Some q" for name' q
  proof -
    have q': "srv_connections v name' = Some q" "name' \<noteq> name"
      using q by (auto simp: v' split: if_splits)
    then obtain a r i s' where *: "q \<in> live" "srv_heap v q = Some (name', s')"
        "name' = srv_name a r i" "length a \<le> 45" "0 \<le> i" "i \<le> srv_nextConnectionID v"
      using closed.IH unfolding srv_inv_def by blast
    then have "q \<noteq> p"
      using p q'(2) by auto
    moreover have "srv_heap v' q = Some (name', s')" "i \<le> srv_nextConnectionID v'"
      using * by (simp_all add: v')
    ultimately show ?thesis
      using * by blast
  qed
  ultimately show ?case
    using closed.IH by (simp add: srv_inv_def v')
qed

text \<open>The connections of the server are exactly its live sessions: whatever connections arrive and
  close in whatever order, each live session is found under its own name and no other entry is
  left in \<open>connectionsMap_\<close>. (The names are made unique by the running number at their end.)\<close>

theorem server_keeps_every_connection:
  assumes "srv_reachable v live"
  shows "ran (srv_connections v) = live \<and>
    (\<forall>p \<in> live. \<exists>name s. srv_heap v p = Some (name, s) \<and> srv_connections v name = Some p)"
  using srv_reachable_inv [OF assms] unfolding srv_inv_def ran_def by blast

lemma sample_connection:
  "\<exists>s es. srv_newConnection 0 (Some (''10.0.0.7'', 50000)) 1 TCPServer_new =
     Inr (TCPServer_new\<lparr>srv_nextConnectionID := 1, srv_connections := [srv_name ''10.0.0.7'' 50000 1 \<mapsto> 1],
        srv_heap := [1 \<mapsto> (srv_name ''10.0.0.7'' 50000 1, s)]\<rparr>, es)"
proof -
  let ?s = "(TCPSession_socket 0)\<lparr>connectionCallback := True, closeCallback := True\<rparr>"
  have "sess_ok ?s" "socket ?s"
    using TCPSession_new_ok(1) [of 0] by (simp_all add: TCPSession_socket_def sess_ok_def)
  then obtain s' es where "connectEstablished ?s = Inr (s', es)"
    using connectEstablished_spec by blast
  then show ?thesis
    by (auto simp: srv_newConnection_def TCPServer_new_def Let_def)
qed

theorem server_keeps_every_connection_witness:
  "\<exists>v es. srv_newConnection 0 (Some (''10.0.0.7'', 50000)) 1 TCPServer_new = Inr (v, es) \<and> ran (srv_connections v) = {1}"
proof -
  obtain v es where v: "srv_newConnection 0 (Some (''10.0.0.7'', 50000)) 1 TCPServer_new = Inr (v, es)"
    using sample_connection by blast
  have "srv_reachable v (insert 1 {})"
    by (rule srv_reachable.accepted [OF srv_reachable.fresh _ _ _ v]) (simp_all add: TCPServer_new_def)
  then show ?thesis
    using v server_keeps_every_connection [of v "{1}"] by blast
qed

text \<open>The default server is an echo server: when a read completes, the bytes received, after any that
  were left in the input buffer, are appended to what the session still has to send, the input
  buffer is empty again and the next read is started.\<close>

theorem default_server_echoes:
  assumes ok: "sess_ok s" and "state s = kConnected" and "length bs \<le> writableBytes (inputBuffer s)"
  shows "\<exists>s' es. handRead (\<lambda>s. Some (defaultMessageCallback s)) Success bs s = Some (Inr (s', es @ [AsyncRead])) \<and> sess_ok s' \<and>
    pending s' = pending s @ contents (inputBuffer s) @ bs \<and> contents (inputBuffer s') = []"
proof -
  obtain b where b: "rbind (beginWrite_store bs (inputBuffer s)) (hasWritten (length bs)) = Inr b" "buf_ok b"
      "contents b = contents (inputBuffer s) @ bs"
    using store_hasWritten_spec [of "inputBuffer s" bs] ok assms(3) by (auto simp: sess_ok_def)
  let ?s1 = "s\<lparr>inputBuffer := retrieveAll b\<rparr>"
  have s1: "sess_ok ?s1" "pending ?s1 = pending s"
    using ok by (simp_all add: sess_ok_def pending_def)
  obtain s2 es2 where send: "send (contents b) ?s1 = Inr (s2, es2)" "sess_ok s2" "pending s2 = pending ?s1 @ contents b" "state s2 = state ?s1"
    using send_spec [OF s1(1), of "contents b"] by blast
  have input: "inputBuffer s2 = retrieveAll b"
    using send(1) by (auto simp: send_def internalSend_def Let_def split: if_splits)
  obtain b2 where read: "startAsyncRead s2 = Inr (s2\<lparr>inputBuffer := b2\<rparr>, [AsyncRead])" "buf_ok b2" "contents b2 = []"
    using startAsyncRead_spec [OF send(2)] send(4) assms(2) input by auto
  have "handRead (\<lambda>s. Some (defaultMessageCallback s)) Success bs s = Some (Inr (s2\<lparr>inputBuffer := b2\<rparr>, es2 @ [AsyncRead]))"
    unfolding handRead_def b(1) using send(1) read(1) by (simp add: defaultMessageCallback_def beginRead_contents Let_def)
  moreover have "sess_ok (s2\<lparr>inputBuffer := b2\<rparr>)" "pending (s2\<lparr>inputBuffer := b2\<rparr>) = pending s @ contents (inputBuffer s) @ bs"
    using send s1 read b by (simp_all add: sess_ok_def pending_def)
  ultimately show ?thesis
    using read(3) by (intro exI [of _ "s2\<lparr>inputBuffer := b2\<rparr>"] exI [of _ es2]) simp
qed

theorem default_server_echoes_witness:
  "\<exists>s' es. handRead (\<lambda>s. Some (defaultMessageCallback s)) Success [1, 2, 3] (sample_session 0) = Some (Inr (s', es @ [AsyncRead])) \<and>
     pending s' = [1, 2, 3]"
proof -
  have "state (sample_session 0) = kConnected" "length ([1, 2, 3] :: byte list) \<le> writableBytes (inputBuffer (sample_session 0))"
      "pending (sample_session 0) = []" "contents (inputBuffer (sample_session 0)) = []"
    using TCPSession_new_ok(2) [of 0]
    by (simp_all add: sample_session_def TCPSession_socket_def TCPSession_new_def pending_def writableBytes_def
        DataBuffer_new_def kInitialSize_def)
  then show ?thesis
    using default_server_echoes [OF sample_session_sess_ok, of 0 "[1, 2, 3]"] by auto
qed

lemma timer_run_calls:
  assumes "length lates = nat (max 1 (rh_count h))"
  shows "timer_run (map Some lates @ evs) (Some expiry) h =
    (map (\<lambda>k. expiry + int k * rh_interval h + sum_list (take (Suc k) lates)) [0..<length lates], False)"
  using assms
proof (induction lates arbitrary: expiry h)
  case (Cons late lates)
  let ?h = "h\<lparr>rh_count := rh_count h - 1\<rparr>"
  show ?case
  proof (cases "rh_count h > 1")
    case True
    then have "length lates = nat (max 1 (rh_count ?h))"
      using Cons.prems by simp
    from Cons.IH [OF this, of "expiry + late + rh_interval h"] show ?thesis
      using True by (simp add: rh_call_def Let_def map_upt_Suc algebra_simps del: upt_Suc)
  next
    case False
    then have "lates = []"
      using Cons.prems by simp
    then show ?thesis
      using False by (simp add: rh_call_def Let_def)
  qed
qed simp

text \<open>A timer runs its handler \<open>count\<close> times (once when \<open>count\<close> is not positive) unless it is
  cancelled, and is then no longer set; the first call comes after the delay and the others an
  interval after the call before, each as late as the system makes it.\<close>

theorem timer_fires_count_times:
  assumes "length lates = nat (max 1 n)"
  shows "createTimer (map Some lates @ evs) now delay interval n =
    (map (\<lambda>k. now + delay + int k * interval + sum_list (take (Suc k) lates)) [0..<nat (max 1 n)], False)"
  using timer_run_calls [of lates "\<lparr>rh_interval = interval, rh_count = n\<rparr>"] assms by (simp add: createTimer_def)

theorem timer_fires_count_times_witness:
  "createTimer [Some 0, Some 2, Some 0, Some 0] 100 9000 5000 3 = ([9100, 14102, 19102], False)"
  using timer_fires_count_times [of "[0, 2, 0]" 3 "[Some 0]" 100 9000 5000]
  by (simp add: upt_rec [of _ "Suc _"] numeral_3_eq_3 nat_numeral)

end
