(* ===== verification/BetAlgorithm.thy ===== *)
theory BetAlgorithm
  imports Decimal "HOL-Library.Sublist"
begin

text \<open>
  The helpers of CPG/BetAlgorithm.cc: searching a price table, packet lengths, addresses, running
  numbers, random ranges and date formats. \<open>rand()\<close>, the clock (as the broken-down time \<open>tm\<close> that
  \<open>localtime\<close> gives) and the file \<open>gameid\<close> are arguments. Array elements and indices are the
  values of the machine integers; an index outside the array is \<open>Inl OutOfBounds\<close>.
\<close>

section \<open>Searching\<close>

definition at :: "'a list \<Rightarrow> int \<Rightarrow> 'a result" where
  "at arr i = (if 0 \<le> i \<and> i < int (length arr) then Inr (arr ! nat i) else Inl OutOfBounds)"

function bsearch_loop :: "int list \<Rightarrow> int \<Rightarrow> int \<Rightarrow> int \<Rightarrow> int \<Rightarrow> int result" where
  "bsearch_loop arr val left right mid =
     (if left \<le> right
      then let mid = (left + right) div 2
        in if mid = int (length arr) - 1 then Inr mid
           else rbind (at arr mid) (\<lambda>a. rbind (at arr (mid + 1)) (\<lambda>b.
             if a \<le> val \<and> b > val then Inr mid
             else if a < val then bsearch_loop arr val (mid + 1) right mid
             else bsearch_loop arr val left (mid - 1) mid))
      else Inr mid)"
  by pat_completeness auto
termination
  by (relation "measure (\<lambda>(arr, val, left, right, mid). nat (right - left + 1))") auto

declare bsearch_loop.simps [simp del]

definition bsearch_similar_number :: "int list \<Rightarrow> int \<Rightarrow> int result" where
  "bsearch_similar_number arr val = bsearch_loop arr val 0 (int (length arr) - 1) 0"

function similar_loop :: "int list \<Rightarrow> int \<Rightarrow> int \<Rightarrow> int result" where
  "similar_loop arr val index =
     (if index < int (length arr) - 1
      then rbind (at arr index) (\<lambda>a. rbind (at arr (index + 1)) (\<lambda>b.
        if a \<le> val \<and> b > val then Inr index else similar_loop arr val (index + 1)))
      else Inr index)"
  by pat_completeness auto
termination
  by (relation "measure (\<lambda>(arr, val, index). nat (int (length arr) - index))") auto

declare similar_loop.simps [simp del]

definition get_similar_number :: "int list \<Rightarrow> int \<Rightarrow> int result" where
  "get_similar_number arr val = rbind (at arr 0) (\<lambda>a. if val \<le> a then Inr 0 else similar_loop arr val 0)"

text \<open>What both look for: the last index whose element is not above the value, or 0.\<close>

definition similar_index :: "int list \<Rightarrow> int \<Rightarrow> int \<Rightarrow> bool" where
  "similar_index arr val i \<longleftrightarrow> 0 \<le> i \<and> i < int (length arr) \<and> (i = 0 \<or> arr ! nat i \<le> val) \<and>
     (\<forall>j. i < j \<longrightarrow> j < int (length arr) \<longrightarrow> val < arr ! nat j)"

lemma at_Inr: "0 \<le> i \<Longrightarrow> i < int (length arr) \<Longrightarrow> at arr i = Inr (arr ! nat i)"
  by (simp add: at_def)

lemma strict_nth:
  "sorted_wrt (<) arr \<Longrightarrow> 0 \<le> i \<Longrightarrow> i < j \<Longrightarrow> j < int (length arr) \<Longrightarrow> arr ! nat i < (arr ! nat j :: int)"
  by (rule sorted_wrt_nth_less) auto

lemma strict_nth_le:
  "sorted_wrt (<) arr \<Longrightarrow> 0 \<le> i \<Longrightarrow> i \<le> j \<Longrightarrow> j < int (length arr) \<Longrightarrow> arr ! nat i \<le> (arr ! nat j :: int)"
  using strict_nth [of arr i j] by (cases "i = j") auto

lemma similar_index_between:
  assumes "sorted_wrt (<) arr" and "0 \<le> i" and "i + 1 < int (length arr)"
    and "arr ! nat i \<le> val" and "val < arr ! nat (i + 1)"
  shows "similar_index arr val i"
  unfolding similar_index_def
proof (intro conjI allI impI)
  fix j
  assume "i < j" "j < int (length arr)"
  then have "arr ! nat (i + 1) \<le> arr ! nat j"
    using assms by (intro strict_nth_le) auto
  then show "val < arr ! nat j"
    using assms(5) by simp
qed (use assms in auto)

text \<open>The loop keeps the answer between its bounds: everything below \<open>left\<close> is too small and
  everything above \<open>right\<close> too large.\<close>

definition bsearch_inv :: "int list \<Rightarrow> int \<Rightarrow> int \<Rightarrow> int \<Rightarrow> bool" where
  "bsearch_inv arr val left right \<longleftrightarrow> 0 \<le> left \<and> left \<le> right + 1 \<and> right < int (length arr) \<and>
     (0 < left \<longrightarrow> left \<le> right \<and> arr ! nat left \<le> val) \<and>
     (right < int (length arr) - 1 \<longrightarrow> val < arr ! nat (right + 1))"

lemma bsearch_loop_correct:
  assumes "sorted_wrt (<) arr" and "arr \<noteq> []" and "bsearch_inv arr val left right" and "left \<le> right \<or> (left = 0 \<and> mid = 0)"
  shows "\<exists>i. bsearch_loop arr val left right mid = Inr i \<and> similar_index arr val i"
  using assms(3,4)
proof (induction "nat (right - left + 1)" arbitrary: left right mid rule: less_induct)
  case less
  let ?mid = "(left + right) div 2" and ?n = "int (length arr)"
  show ?case
  proof (cases "left \<le> right")
    case False
    then have "left = 0" "right = - 1" "mid = 0"
      using less.prems by (auto simp: bsearch_inv_def)
    have "similar_index arr val 0"
      unfolding similar_index_def
    proof (intro conjI allI impI)
      fix j :: int
      assume "0 < j" "j < ?n"
      then have "arr ! nat 0 < arr ! nat j"
        using assms(1) by (intro strict_nth) auto
      then show "val < arr ! nat j"
        using less.prems \<open>right = - 1\<close> assms(2) by (cases arr) (auto simp: bsearch_inv_def)
    qed (use assms(2) in auto)
    then show ?thesis
      using False \<open>mid = 0\<close> by (simp add: bsearch_loop.simps)
  next
    case True
    have mid: "left \<le> ?mid" "?mid \<le> right" "0 \<le> ?mid" "right < ?n"
      using True less.prems by (auto simp: bsearch_inv_def)
    show ?thesis
    proof (cases "?mid = ?n - 1")
      case last: True
      then have "left = ?n - 1"
        using mid by auto
      then have "?mid = left"
        using last by simp
      moreover have "left = 0 \<or> arr ! nat left \<le> val"
        using less.prems(1) unfolding bsearch_inv_def by linarith
      ultimately have "0 \<le> ?mid \<and> ?mid < ?n \<and> (?mid = 0 \<or> arr ! nat ?mid \<le> val)"
        using mid by simp
      then have "similar_index arr val ?mid"
        using last unfolding similar_index_def by auto
      then show ?thesis
        using True last by (subst bsearch_loop.simps) simp
    next
      case False
      let ?a = "arr ! nat ?mid" and ?b = "arr ! nat (?mid + 1)"
      have bounds: "?mid + 1 < ?n"
        using False mid by simp
      have ab: "at arr ?mid = Inr ?a" "at arr (?mid + 1) = Inr ?b" "?a < ?b"
        using mid bounds assms(1) by (simp_all add: at_Inr strict_nth)
      have step: "bsearch_loop arr val left right mid =
          (if ?a \<le> val \<and> ?b > val then Inr ?mid
           else if ?a < val then bsearch_loop arr val (?mid + 1) right ?mid
           else bsearch_loop arr val left (?mid - 1) ?mid)"
        using True False ab by (subst bsearch_loop.simps) (simp add: Let_def)
      consider (here) "?a \<le> val" "val < ?b" | (up) "?a < val" "?b \<le> val" | (down) "val < ?a"
        using ab(3) by linarith
      then show ?thesis
      proof cases
        case here
        then have "similar_index arr val ?mid"
          using assms(1) mid(3) bounds by (intro similar_index_between)
        then show ?thesis
          using here step by auto
      next
        case up
        have "?mid \<noteq> right"
          using up(2) less.prems(1) bounds unfolding bsearch_inv_def by (metis leD less_diff_eq)
        then have "?mid + 1 \<le> right"
          using mid(2) by simp
        then have "bsearch_inv arr val (?mid + 1) right" "?mid + 1 \<le> right"
          using less.prems(1) up(2) mid by (auto simp: bsearch_inv_def)
        then show ?thesis
          using less.hyps [of right "?mid + 1" ?mid] step up mid True by auto
      next
        case down
        have "left \<noteq> ?mid" if "0 < left"
          using that less.prems(1) down unfolding bsearch_inv_def by auto
        then have nxt: "left \<le> ?mid - 1 \<or> (left = 0 \<and> ?mid = 0)"
          using mid(1,3) by linarith
        moreover have "bsearch_inv arr val left (?mid - 1)"
          using nxt less.prems(1) down mid unfolding bsearch_inv_def by auto
        ultimately show ?thesis
          using less.hyps [of "?mid - 1" left ?mid] step down mid True by auto
      qed
    qed
  qed
qed

lemma similar_loop_correct:
  assumes "sorted_wrt (<) arr" and "0 \<le> k" and "k < int (length arr)" and "arr ! nat k \<le> val"
  shows "\<exists>i. similar_loop arr val k = Inr i \<and> similar_index arr val i"
  using assms(2-)
proof (induction "nat (int (length arr) - k)" arbitrary: k rule: less_induct)
  case less
  show ?case
  proof (cases "k < int (length arr) - 1")
    case k: True
    have at: "at arr k = Inr (arr ! nat k)" "at arr (k + 1) = Inr (arr ! nat (k + 1))"
      using k less.prems by (simp_all add: at_Inr)
    show ?thesis
    proof (cases "val < arr ! nat (k + 1)")
      case True
      then show ?thesis
        using similar_index_between [OF assms(1), of k val] less.prems k at by (subst similar_loop.simps) simp
    next
      case False
      then show ?thesis
        using less.hyps [of "k + 1"] less.prems k at by (subst similar_loop.simps) simp
    qed
  next
    case False
    then have "similar_index arr val k"
      using less.prems by (auto simp: similar_index_def)
    then show ?thesis
      using False by (subst similar_loop.simps) simp
  qed
qed

lemma similar_index_unique:
  assumes "similar_index arr val i" and "similar_index arr val j"
  shows "i = j"
proof (rule ccontr)
  assume "i \<noteq> j"
  then consider "i < j" | "j < i"
    by linarith
  then show False
    by cases (use assms in \<open>force simp: similar_index_def\<close>)+
qed

text \<open>C34: The two searches of the price table agree: on a strictly increasing table, the binary search
  and the linear search both return, without leaving the array, the last index whose element is
  not above the value (0 when there is none).\<close>

theorem similar_number_searches_agree:
  assumes "sorted_wrt (<) arr" and "arr \<noteq> []"
  shows "\<exists>i. bsearch_similar_number arr val = Inr i \<and> get_similar_number arr val = Inr i \<and>
    0 \<le> i \<and> i < int (length arr) \<and> (i = 0 \<or> arr ! nat i \<le> val) \<and>
    (\<forall>j. i < j \<longrightarrow> j < int (length arr) \<longrightarrow> val < arr ! nat j)"
proof -
  have "bsearch_inv arr val 0 (int (length arr) - 1)"
    by (simp add: bsearch_inv_def)
  then obtain i where i: "bsearch_similar_number arr val = Inr i" "similar_index arr val i"
    using bsearch_loop_correct [OF assms, of val 0 "int (length arr) - 1" 0] unfolding bsearch_similar_number_def by auto
  have at: "at arr 0 = Inr (arr ! 0)"
    using assms(2) by (simp add: at_def)
  have "\<exists>j. get_similar_number arr val = Inr j \<and> similar_index arr val j"
  proof (cases "val \<le> arr ! 0")
    case True
    have "val < arr ! nat j" if "0 < j" "j < int (length arr)" for j
      using strict_nth [OF assms(1), of 0 j] that True by simp
    then have "similar_index arr val 0"
      using assms(2) by (simp add: similar_index_def)
    then show ?thesis
      using True at by (simp add: get_similar_number_def)
  next
    case False
    then show ?thesis
      using similar_loop_correct [OF assms(1), of 0 val] at assms(2) by (simp add: get_similar_number_def)
  qed
  then show ?thesis
    using i similar_index_unique unfolding similar_index_def by blast
qed

theorem similar_number_searches_agree_witness:
  "bsearch_similar_number [10, 20, 50, 100] 60 = get_similar_number [10, 20, 50, 100] 60 \<and>
   bsearch_similar_number [10, 20, 50, 100] 60 = Inr 2"
proof -
  obtain i where "bsearch_similar_number [10, 20, 50, 100] 60 = Inr i" "get_similar_number [10, 20, 50, 100] 60 = Inr i"
    using similar_number_searches_agree [of "[10, 20, 50, 100]" 60] by auto
  moreover have "bsearch_similar_number [10, 20, 50, 100] 60 = Inr 2"
    by code_simp
  ultimately show ?thesis
    by simp
qed

text \<open>With equal elements the two differ: here the binary search stops before the pair.\<close>

lemma searches_differ_on_duplicates:
  "bsearch_similar_number [0, 1, 1, 2] 1 = Inr 0" "get_similar_number [0, 1, 1, 2] 1 = Inr 2"
  by code_simp+

section \<open>Addresses\<close>

text \<open>\<open>std::string::find\<close>: the first position of the pattern, or \<open>None\<close> for \<open>npos\<close>.\<close>

fun str_find :: "string \<Rightarrow> string \<Rightarrow> nat option" where
  "str_find pat [] = (if pat = [] then Some 0 else None)"
| "str_find pat (c # cs) = (if prefix pat (c # cs) then Some 0 else map_option Suc (str_find pat cs))"

definition convert_http :: "string \<Rightarrow> string \<times> string" where
  "convert_http http_addr =
     (let pos = (if str_find ''http://'' http_addr \<noteq> None then 7 else 0);
          addr = drop pos http_addr
      in if addr \<noteq> [] \<and> is_digit (hd addr)
         then (case str_find '':'' addr of
                 Some i \<Rightarrow> (take i addr, drop (i + 1) addr)
               | None \<Rightarrow> (addr, ''8080''))
         else (addr, ''http''))"

lemma str_find_colon: "CHR '':'' \<notin> set host \<Longrightarrow> str_find '':'' (host @ CHR '':'' # rest) = Some (length host)"
  by (induction host) auto

text \<open>An address in the documented form is split at its colon: host and service of
  \<open>http://host:port\<close> (the prefix is optional) are the two parts when the host starts with a digit.\<close>

theorem convert_http_splits:
  assumes "host \<noteq> []" and "is_digit (hd host)" and "CHR '':'' \<notin> set host"
    and "scheme = ''http://'' \<or> scheme = [] \<and> str_find ''http://'' (host @ '':'' @ service) = None"
  shows "convert_http (scheme @ host @ '':'' @ service) = (host, service)"
proof -
  have *: "drop (if str_find ''http://'' (scheme @ host @ '':'' @ service) \<noteq> None then 7 else 0)
      (scheme @ host @ '':'' @ service) = host @ '':'' @ service"
    using assms(4) by auto
  show ?thesis
    unfolding convert_http_def Let_def * using assms(1-3) str_find_colon [of host service] by simp
qed

theorem convert_http_splits_witness:
  "convert_http ''http://10.0.0.1:8090'' = (''10.0.0.1'', ''8090'')"
  using convert_http_splits [of "''10.0.0.1''" "''http://''" "''8090''"] by (simp add: is_digit_def)

text \<open>The prefix is looked for anywhere and always cut off at the front.\<close>

lemma convert_http_cuts_the_front: "convert_http ''go?to=http://a'' = (''ttp://a'', ''http'')"
  by code_simp

section \<open>Packet lengths\<close>

fun header_size_loop :: "nat \<Rightarrow> byte list \<Rightarrow> nat result" where
  "header_size_loop i packet =
     (if i < 32
      then (case packet of
              [] \<Rightarrow> Inl OutOfBounds
            | b # rest \<Rightarrow> if b AND 0x80 = 0 then Inr ((i + 8) div 8) else header_size_loop (i + 8) rest)
      else Inr 0)"

declare header_size_loop.simps [simp del]

definition get_packet_header_size :: "byte list \<Rightarrow> nat result" where
  "get_packet_header_size packet = header_size_loop 0 packet"

text \<open>\<open>memcpy(out, packet + k, size - k)\<close> reads the packet up to \<open>size\<close>; a smaller size wraps around.\<close>

definition convert_packet :: "byte list \<Rightarrow> nat \<Rightarrow> (nat \<times> byte list) result" where
  "convert_packet packet n = (case packet of
     [] \<Rightarrow> Inl OutOfBounds
   | b0 # rest \<Rightarrow>
       if b0 AND 0x80 = 0
       then if 1 \<le> n \<and> n \<le> length packet then Inr (unat (b0 AND 0x7F), take (n - 1) rest) else Inl OutOfBounds
       else (case rest of
               [] \<Rightarrow> Inl OutOfBounds
             | b1 # body \<Rightarrow>
                 if 2 \<le> n \<and> n \<le> length packet
                 then Inr (unat ((ucast (b0 AND 0x7F) :: size_w) OR push_bit 7 (ucast b1)), take (n - 2) body)
                 else Inl OutOfBounds))"

text \<open>The encoding that both functions read: seven bits to a byte, the lowest first.\<close>

definition encode_packet :: "byte list \<Rightarrow> byte list" where
  "encode_packet body =
     (let n = length body
      in if n < 128 then word_of_nat n # body
         else (0x80 OR word_of_nat (n mod 128)) # word_of_nat (n div 128) # body)"

lemma and_0x80: "(b :: byte) AND 0x80 = 0 \<longleftrightarrow> \<not> bit b 7"
  using and_exp_eq_0_iff_not_bit [of b 7] by simp

lemma and_0x7F: "(b :: byte) AND 0x7F = take_bit 7 b"
  using take_bit_eq_mask [of 7 b] by (simp add: mask_eq_exp_minus_1)

lemma low_byte:
  assumes "n < 128"
  shows "\<not> bit (word_of_nat n :: byte) 7" "unat (take_bit 7 (word_of_nat n :: byte)) = n"
    "take_bit 7 (0x80 OR word_of_nat n :: byte) = word_of_nat n" "bit (0x80 OR word_of_nat n :: byte) 7"
proof -
  have n: "unat (word_of_nat n :: byte) = n" "take_bit 7 n = n"
    using assms by (simp_all add: unat_of_nat take_bit_nat_eq_self)
  have "\<not> bit (unat (word_of_nat n :: byte)) 7"
    using assms by (simp add: n(1) bit_iff_odd)
  then show "\<not> bit (word_of_nat n :: byte) 7"
    by (simp add: bit_unsigned_iff)
  show low: "unat (take_bit 7 (word_of_nat n :: byte)) = n"
    using n by (simp add: unsigned_take_bit_eq)
  then have "take_bit 7 (word_of_nat n :: byte) = word_of_nat n"
    unfolding word_unat_eq_iff n(1) .
  moreover have "take_bit 7 (0x80 :: byte) = 0"
    by simp
  ultimately show "take_bit 7 (0x80 OR word_of_nat n :: byte) = word_of_nat n"
    by (simp add: take_bit_or)
  have "bit (2 ^ 7 :: byte) 7"
    by (simp add: bit_exp_iff)
  then show "bit (0x80 OR word_of_nat n :: byte) 7"
    by (simp add: bit_or_iff)
qed

lemma two_byte_length:
  assumes "r < 128" and "q < 128"
  shows "unat ((ucast (word_of_nat r :: byte) :: size_w) OR push_bit 7 (ucast (word_of_nat q :: byte))) = 128 * q + r"
proof -
  have "unat (word_of_nat r :: byte) = r" "unat (word_of_nat q :: byte) = q"
    using assms by (simp_all add: unat_of_nat)
  then have "uint (word_of_nat r :: byte) = int r" "uint (word_of_nat q :: byte) = int q"
    by (simp_all add: uint_nat)
  then have "uint ((ucast (word_of_nat r :: byte) :: size_w) OR push_bit 7 (ucast (word_of_nat q :: byte))) =
      take_bit 64 (int r) OR take_bit 64 (push_bit 7 (take_bit 64 (int q)))"
    by (simp add: unsigned_or_eq unsigned_push_bit_eq unsigned_ucast_eq)
  also have "\<dots> = take_bit 7 (int r) OR push_bit 7 (int q)"
    using assms by (simp add: take_bit_int_eq_self push_bit_eq_mult)
  also have "\<dots> = take_bit 7 (int r) + push_bit 7 (int q)"
    using concat_bit_eq [of 7 "int r" "int q"] by (simp add: concat_bit_def)
  also have "\<dots> = int (128 * q + r)"
    using assms by (simp add: take_bit_int_eq_self push_bit_eq_mult)
  finally show ?thesis
    by (metis nat_int unat_eq_nat_uint)
qed

text \<open>Packets of up to 16383 bytes survive the way through the header: for the encoding with seven
  length bits to a byte, the header size is right, and unpacking gives the length of the body and
  the body itself.\<close>

theorem packet_length_round_trip:
  assumes "length body < 16384"
  shows "get_packet_header_size (encode_packet body) = Inr (if length body < 128 then 1 else 2) \<and>
    convert_packet (encode_packet body) (length (encode_packet body)) = Inr (length body, body)"
proof (cases "length body < 128")
  case True
  then show ?thesis
    using low_byte [OF True]
    by (simp add: encode_packet_def get_packet_header_size_def header_size_loop.simps [of 0] convert_packet_def and_0x80 and_0x7F Let_def)
next
  case False
  let ?r = "length body mod 128" and ?q = "length body div 128"
  have "?r < 128" and q: "?q < 128"
    using assms by auto
  note low = low_byte [OF \<open>?r < 128\<close>] low_byte [OF q]
  have "128 * ?q + ?r = length body"
    by simp
  then show ?thesis
    using False low two_byte_length [OF \<open>?r < 128\<close> q]
    by (simp add: encode_packet_def get_packet_header_size_def header_size_loop.simps [of 0] header_size_loop.simps [of 8]
        convert_packet_def and_0x80 and_0x7F Let_def)
qed

theorem packet_length_round_trip_witness:
  "convert_packet (encode_packet (replicate 300 7)) 302 = Inr (300, replicate 300 7)"
  using packet_length_round_trip [of "replicate 300 7"] by (simp add: encode_packet_def)

text \<open>A header of three bytes is counted by \<open>get_packet_header_size\<close> and misread by \<open>convert_packet\<close>,
  which takes its last byte for the body.\<close>

lemma three_byte_headers_disagree:
  "get_packet_header_size [0x80, 0x80, 0x01, 7] = Inr 3" "convert_packet [0x80, 0x80, 0x01, 7] 4 = Inr (16384, [1, 7])"
  by code_simp+

section \<open>Running numbers\<close>

text \<open>The file \<open>gameid\<close> is \<open>None\<close> when it cannot be opened; when it can be read but not written, the
  write goes through a null pointer.\<close>

definition GetNextGameId :: "bool \<Rightarrow> string option \<times> size_w \<Rightarrow> ((string option \<times> size_w) \<times> size_w) result" where
  "GetNextGameId writable st = (case st of
     (None, curGameId) \<Rightarrow> (let gameID = curGameId + 1 in Inr ((None, gameID), gameID))
   | (Some content, curGameId) \<Rightarrow>
       (let gid = word_of_int (strtol (take 256 content)) :: size_w; gameID = gid + 1
        in if writable then Inr ((Some (to_string (uint gameID)), gameID), gameID) else Inl NullDeref))"

definition GetNextSessionId :: "size_w \<Rightarrow> size_w \<times> size_w" where
  "GetNextSessionId client_session_id = (client_session_id + 1, client_session_id + 1)"

fun game_ids :: "nat \<Rightarrow> string option \<times> size_w \<Rightarrow> size_w list result" where
  "game_ids 0 st = Inr []"
| "game_ids (Suc n) st = rbind (GetNextGameId True st) (\<lambda>(st, g). rbind (game_ids n st) (\<lambda>gs. Inr (g # gs)))"

lemma GetNextGameId_file:
  assumes "k + 1 < 2 ^ 63"
  shows "GetNextGameId True (Some (to_string (int k)), c) =
    Inr ((Some (to_string (int (k + 1))), word_of_nat (k + 1)), word_of_nat (k + 1))"
proof -
  have "k < 2 ^ 63"
    using assms by simp
  also have "(2 :: nat) ^ 63 < 10 ^ 256"
    by simp
  finally have "k < 10 ^ 256" .
  then have "take 256 (to_string (int k)) = to_string (int k)"
    using length_dec [of k 256] by (simp add: to_string_def)
  moreover have "int k < 2 ^ 63"
    using assms by simp
  then have "strtol (to_string (int k)) = int k"
    using clamp_long_id [of "int k"] by (simp add: strtol_to_string)
  moreover have "unat (word_of_nat (k + 1) :: size_w) = k + 1"
    unfolding unat_of_nat using assms by (intro mod_less) simp
  then have "uint (word_of_nat (k + 1) :: size_w) = int (k + 1)"
    by (simp only: uint_nat)
  ultimately show ?thesis
    by (simp add: GetNextGameId_def Let_def add.commute)
qed

text \<open>Game ids run on across restarts: from a file that holds the last id, the following calls return
  the consecutive ids, whatever number the process itself last saw.\<close>

theorem game_ids_are_consecutive:
  assumes "k + n < 2 ^ 63"
  shows "game_ids n (Some (to_string (int k)), c) = Inr (map word_of_nat [Suc k..<Suc k + n])"
  using assms
proof (induction n arbitrary: k c)
  case (Suc n)
  have "game_ids n (Some (to_string (int (k + 1))), word_of_nat (k + 1)) = Inr (map word_of_nat [Suc (k + 1)..<Suc (k + 1) + n])"
    using Suc.prems by (intro Suc.IH) simp
  moreover have "[Suc k..<Suc k + Suc n] = Suc k # [Suc (k + 1)..<Suc (k + 1) + n]"
    by (simp add: upt_rec)
  moreover have "k + 1 < 2 ^ 63"
    using Suc.prems by simp
  ultimately show ?case
    using GetNextGameId_file [of k c] by simp
qed simp

theorem game_ids_are_consecutive_witness:
  "game_ids 2 (Some ''41'', 10000) = Inr [42, 43]"
proof -
  have "to_string (int 41) = ''41''"
    by code_simp
  then show ?thesis
    using game_ids_are_consecutive [of 41 2 10000] by (simp add: upt_rec)
qed

section \<open>Random ranges\<close>

definition rand64 :: "size_w \<Rightarrow> size_w \<Rightarrow> size_w \<Rightarrow> size_w \<Rightarrow> size_w \<Rightarrow> size_w" where
  "rand64 r1 r2 r3 r4 r5 = r1 XOR push_bit 15 r2 XOR push_bit 30 r3 XOR push_bit 45 r4 XOR push_bit 60 r5"

definition rand_between :: "size_w \<Rightarrow> size_w \<Rightarrow> size_w \<Rightarrow> size_w result" where
  "rand_between rnd from_n to_n =
     (if to_n - from_n + 1 = 0 then Inl DivByZero else Inr (rnd mod (to_n - from_n + 1) + from_n))"

text \<open>\<open>rand()\<close> is not negative, so the remainder has the sign of zero or more.\<close>

definition createRandom :: "nat \<Rightarrow> int \<Rightarrow> int \<Rightarrow> int result" where
  "createRandom rnd llbegin llend =
     (if llend - llbegin + 1 = 0 then Inl DivByZero else Inr (llbegin + int rnd mod \<bar>llend - llbegin + 1\<bar>))"

text \<open>Random numbers stay in their range: both ends included, with no wrap-around, for every value of
  the generator; the one exception is the full range of 64 bits, which divides by zero.\<close>

theorem rand_between_in_range:
  assumes "from_n \<le> to_n"
  shows "if from_n = 0 \<and> to_n = - 1 then rand_between rnd from_n to_n = Inl DivByZero
    else \<exists>v. rand_between rnd from_n to_n = Inr v \<and> from_n \<le> v \<and> v \<le> to_n"
proof (cases "to_n - from_n + 1 = 0")
  case True
  then have "to_n = from_n - 1"
    by (simp add: eq_diff_eq algebra_simps)
  have "from_n = 0"
  proof (rule ccontr)
    assume "from_n \<noteq> 0"
    then have "unat (from_n - 1) = unat from_n - 1" "0 < unat from_n"
      by (simp_all add: unat_minus_one unat_gt_0)
    then show False
      using assms \<open>to_n = _\<close> by (simp add: word_le_nat_alt)
  qed
  then show ?thesis
    using True \<open>to_n = _\<close> by (simp add: rand_between_def)
next
  case False
  let ?d = "to_n - from_n + 1"
  have sub: "unat (to_n - from_n) = unat to_n - unat from_n"
    using assms by (rule unat_sub)
  have d: "unat ?d = unat to_n - unat from_n + 1"
    using False sub unatSuc [of "to_n - from_n"] by (simp add: add.commute)
  have "unat (rnd mod ?d) < unat ?d"
    using False by (simp add: unat_mod_distrib unat_gt_0)
  then have "unat (rnd mod ?d) + unat from_n \<le> unat to_n"
    using d assms by (simp add: word_le_nat_alt)
  moreover from this have "unat (rnd mod ?d + from_n) = unat (rnd mod ?d) + unat from_n"
    by (intro unat_add_lem [THEN iffD1] order_le_less_trans [OF _ unsigned_less])
  ultimately show ?thesis
    using False by (auto simp: rand_between_def word_le_nat_alt)
qed

theorem rand_between_in_range_witness: "\<exists>v. rand_between 1234567 3 9 = Inr v \<and> 3 \<le> v \<and> v \<le> 9"
  using rand_between_in_range [of 3 9 1234567] by simp

section \<open>Dates\<close>

record tm =
  tm_year :: int
  tm_mon :: int
  tm_mday :: int
  tm_hour :: int
  tm_min :: int
  tm_sec :: int

text \<open>\<open>%0wd\<close> and \<open>%wd\<close> of \<open>printf\<close>.\<close>

definition pad0 :: "nat \<Rightarrow> int \<Rightarrow> string" where
  "pad0 w i =
     (if i < 0 then CHR ''-'' # replicate (w - 1 - length (dec (nat (- i)))) (CHR ''0'') @ dec (nat (- i))
      else replicate (w - length (dec (nat i))) (CHR ''0'') @ dec (nat i))"

definition pad_space :: "nat \<Rightarrow> int \<Rightarrow> string" where
  "pad_space w i = replicate (w - length (to_string i)) (CHR '' '') @ to_string i"

text \<open>The two formats print into an array of 16.\<close>

definition format_time :: "tm \<Rightarrow> string" where
  "format_time t = take 15 (pad_space 4 (tm_year t + 1900) @ pad0 2 (tm_mon t + 1) @ pad0 2 (tm_mday t) @
     pad0 2 (tm_hour t) @ pad0 2 (tm_min t) @ pad0 2 (tm_sec t))"

definition format_current_time :: "(int \<Rightarrow> tm) \<Rightarrow> int \<Rightarrow> string" where
  "format_current_time localtime now = format_time (localtime now)"

definition format_expiredate_time :: "(int \<Rightarrow> tm) \<Rightarrow> int \<Rightarrow> string" where
  "format_expiredate_time localtime now = format_time (localtime (now + 43200))"

definition GetCurrentDayInt :: "tm \<Rightarrow> int" where
  "GetCurrentDayInt t = (tm_year t + 1900) * 10000 + (tm_mon t + 1) * 100 + tm_mday t"

definition GetCurTimeInt :: "tm \<Rightarrow> int" where
  "GetCurTimeInt t = tm_hour t * 3600 + tm_min t * 60 + tm_sec t"

definition GetCurMonDayFormat :: "tm option \<Rightarrow> int" where
  "GetCurMonDayFormat p_tm = (case p_tm of Some t \<Rightarrow> (tm_mon t + 1) * 100 + tm_mday t | None \<Rightarrow> 0)"

definition GetCurDateFormat :: "tm option \<Rightarrow> int" where
  "GetCurDateFormat p_tm =
     (case p_tm of Some t \<Rightarrow> (tm_year t + 1900) * 10000 + (tm_mon t + 1) * 100 + tm_mday t | None \<Rightarrow> 0)"

definition getCurrentSystemDate :: "tm \<Rightarrow> string" where
  "getCurrentSystemDate t = to_string (tm_year t + 1900) @ ''-'' @ pad0 2 (tm_mon t + 1) @ ''-'' @ pad0 2 (tm_mday t)"

text \<open>\<open>serial_num\<close> is static; the caller's array has room for 32 characters and the terminator.\<close>

definition generate_sequence :: "(int \<Rightarrow> tm) \<Rightarrow> int \<Rightarrow> int \<Rightarrow> int \<Rightarrow> (string \<times> int) result" where
  "generate_sequence localtime now type_n serial_num =
     (let serial_num = (if serial_num + 1 > 999999 then 0 else serial_num + 1);
          table_id = 0;
          sequence = pad0 4 type_n @ pad0 4 1 @ pad0 4 table_id @ format_expiredate_time localtime now @ pad0 6 serial_num
      in if length sequence \<le> 32 then Inr (sequence, serial_num) else Inl OutOfBounds)"

text \<open>\<open>sscanf\<close> with \<open>%d:%d:%d\<close>: a field that is not matched keeps its value.\<close>

definition scan_int :: "string \<Rightarrow> (int \<times> string) option" where
  "scan_int s =
     (let s = dropWhile is_space s;
          neg = (s \<noteq> [] \<and> hd s = CHR ''-'');
          ds = (if s \<noteq> [] \<and> (hd s = CHR ''-'' \<or> hd s = CHR ''+'') then tl s else s);
          v = int (digits_val (takeWhile is_digit ds))
      in if takeWhile is_digit ds = [] then None else Some (if neg then - v else v, dropWhile is_digit ds))"

fun scan_fields :: "nat \<Rightarrow> string \<Rightarrow> int list" where
  "scan_fields 0 s = []"
| "scan_fields (Suc n) s = (case scan_int s of
     None \<Rightarrow> []
   | Some (v, rest) \<Rightarrow> v # (case rest of c # cs \<Rightarrow> if c = CHR '':'' then scan_fields n cs else [] | [] \<Rightarrow> []))"

definition convert_time_to_int :: "string \<Rightarrow> int" where
  "convert_time_to_int str_date =
     (let fs = scan_fields 3 str_date;
          field = (\<lambda>i. if i < length fs then word_of_int (fs ! i) else 0) :: nat \<Rightarrow> int32_w
      in uint ((field 0 * 60 + field 1) * 60 + field 2))"

definition tm_ok :: "tm \<Rightarrow> bool" where
  "tm_ok t \<longleftrightarrow> 1000 \<le> tm_year t + 1900 \<and> tm_year t + 1900 \<le> 9999 \<and> 0 \<le> tm_mon t \<and> tm_mon t \<le> 11 \<and>
     1 \<le> tm_mday t \<and> tm_mday t \<le> 31 \<and> 0 \<le> tm_hour t \<and> tm_hour t \<le> 23 \<and> 0 \<le> tm_min t \<and> tm_min t \<le> 59 \<and>
     0 \<le> tm_sec t \<and> tm_sec t \<le> 60"

lemma length_pad0: "0 \<le> i \<Longrightarrow> i < 10 ^ w \<Longrightarrow> 0 < w \<Longrightarrow> length (pad0 w i) = w"
  using length_dec [of "nat i" w] by (simp add: pad0_def nat_less_iff)

lemma length_dec_min: "10 ^ k \<le> n \<Longrightarrow> k < length (dec n)"
proof (induction k arbitrary: n)
  case 0
  then show ?case
    using dec_digits [of n] by simp
next
  case (Suc k)
  then have "10 ^ k \<le> n div 10"
    by (simp add: less_eq_div_iff_mult_less_eq mult.commute)
  moreover have "\<not> n < 10"
    using Suc.prems by (metis le_trans linorder_not_less mult_le_mono2 nat_mult_1_right one_le_numeral one_le_power power_Suc)
  ultimately show ?case
    using Suc.IH by (subst dec.simps) simp
qed

lemma length_tm_fields:
  assumes "tm_ok t"
  shows "length (pad_space 4 (tm_year t + 1900)) = 4" "length (pad0 2 (tm_mon t + 1)) = 2" "length (pad0 2 (tm_mday t)) = 2"
    "length (pad0 2 (tm_hour t)) = 2" "length (pad0 2 (tm_min t)) = 2" "length (pad0 2 (tm_sec t)) = 2"
proof -
  let ?y = "nat (tm_year t + 1900)"
  have "10 ^ 3 \<le> ?y" "?y < 10 ^ 4"
    using assms by (simp_all add: tm_ok_def nat_less_iff le_nat_iff)
  then have "length (dec ?y) = 4"
    using length_dec [of ?y 4] length_dec_min [of 3 ?y] by simp
  then show "length (pad_space 4 (tm_year t + 1900)) = 4"
    using assms by (simp add: pad_space_def to_string_def tm_ok_def)
qed (use assms in \<open>simp_all add: length_pad0 tm_ok_def\<close>)

lemma length_format_time: "tm_ok t \<Longrightarrow> length (format_time t) = 14"
  by (simp add: format_time_def length_tm_fields)

text \<open>A sequence fits its array: for a type of at most four digits and a year of four digits, the
  sequence has exactly the 32 characters its caller has room for, and the running number stays
  below a million; a type of five digits writes past the array.\<close>

theorem sequence_fits_its_buffer:
  assumes "tm_ok (localtime (now + 43200))" and "0 \<le> serial" and "serial \<le> 999999" and "0 \<le> type_n" and "type_n < 100000"
  shows "if type_n < 10000
    then \<exists>sequence serial'. generate_sequence localtime now type_n serial = Inr (sequence, serial') \<and>
      length sequence = 32 \<and> 0 \<le> serial' \<and> serial' \<le> 999999 \<and> serial' \<noteq> serial
    else generate_sequence localtime now type_n serial = Inl OutOfBounds"
proof -
  let ?serial = "if serial + 1 > 999999 then 0 else serial + 1"
  have parts: "length (pad0 4 1) = 4" "length (pad0 4 0) = 4" "length (pad0 6 ?serial) = 6"
      "length (format_expiredate_time localtime now) = 14"
    using assms(1-3) by (simp_all add: length_pad0 format_expiredate_time_def length_format_time)
  show ?thesis
  proof (cases "type_n < 10000")
    case True
    then have "length (pad0 4 type_n) = 4"
      using assms(4) by (simp add: length_pad0)
    then show ?thesis
      using True parts assms(2,3) by (auto simp: generate_sequence_def Let_def)
  next
    case False
    then have "10 ^ 4 \<le> nat type_n"
      by (simp add: le_nat_iff)
    then have "4 < length (pad0 4 type_n)"
      using length_dec_min [of 4 "nat type_n"] assms(4) by (simp add: pad0_def)
    then show ?thesis
      using False parts by (simp add: generate_sequence_def Let_def)
  qed
qed

theorem sequence_fits_its_buffer_witness:
  "\<exists>sequence serial'.
     generate_sequence (\<lambda>_. \<lparr>tm_year = 118, tm_mon = 10, tm_mday = 12, tm_hour = 9, tm_min = 30, tm_sec = 0\<rparr>) 0 17 999999 =
       Inr (sequence, serial') \<and> length sequence = 32"
  using sequence_fits_its_buffer
    [of "\<lambda>_. \<lparr>tm_year = 118, tm_mon = 10, tm_mday = 12, tm_hour = 9, tm_min = 30, tm_sec = 0\<rparr>" 0 999999 17]
  by (auto simp: tm_ok_def)

text \<open>Day numbers order as the days do.\<close>

lemma day_numbers_are_ordered:
  assumes "tm_ok a" and "tm_ok b"
  shows "GetCurrentDayInt a < GetCurrentDayInt b \<longleftrightarrow>
    tm_year a < tm_year b \<or> tm_year a = tm_year b \<and> (tm_mon a < tm_mon b \<or> tm_mon a = tm_mon b \<and> tm_mday a < tm_mday b)"
proof -
  have m: "0 \<le> tm_mon a" "tm_mon a \<le> 11" "0 \<le> tm_mon b" "tm_mon b \<le> 11"
    and d: "1 \<le> tm_mday a" "tm_mday a \<le> 31" "1 \<le> tm_mday b" "tm_mday b \<le> 31"
    using assms by (simp_all add: tm_ok_def)
  consider "tm_year a < tm_year b" | "tm_year b < tm_year a" | "tm_year a = tm_year b" "tm_mon a < tm_mon b"
    | "tm_year a = tm_year b" "tm_mon b < tm_mon a" | "tm_year a = tm_year b" "tm_mon a = tm_mon b"
    by linarith
  then show ?thesis
    by cases (use m d in \<open>simp_all add: GetCurrentDayInt_def\<close>)
qed

lemma scan_int_dec: "(case rest of [] \<Rightarrow> True | c # _ \<Rightarrow> \<not> is_digit c) \<Longrightarrow> scan_int (dec n @ rest) = Some (int n, rest)"
proof -
  assume rest: "case rest of [] \<Rightarrow> True | c # _ \<Rightarrow> \<not> is_digit c"
  obtain c cs where dec: "dec n = c # cs" and c: "is_digit c"
    using dec_digits [of n] by (cases "dec n") auto
  have digits: "\<forall>x \<in> set (dec n). is_digit x"
    using dec_digits [of n] by (simp add: list_all_iff)
  have "takeWhile is_digit (dec n @ rest) = dec n" "dropWhile is_digit (dec n @ rest) = rest"
    using digits rest by (cases rest; simp)+
  moreover have "dropWhile is_space (dec n @ rest) = dec n @ rest"
      "hd (dec n @ rest) \<noteq> CHR ''-''" "hd (dec n @ rest) \<noteq> CHR ''+''"
    using dec c digit_not_special by simp_all
  ultimately show ?thesis
    using dec_digits [of n] by (simp add: scan_int_def digits_val_dec)
qed

text \<open>A time of day \<open>h:m:s\<close> becomes its seconds.\<close>

lemma convert_time_to_int_clock:
  assumes "h < 24" and "m < 60" and "s < 60"
  shows "convert_time_to_int (dec h @ '':'' @ dec m @ '':'' @ dec s) = int (h * 3600 + m * 60 + s)"
proof -
  have "scan_int (dec h @ CHR '':'' # dec m @ CHR '':'' # dec s) = Some (int h, CHR '':'' # dec m @ CHR '':'' # dec s)"
    "scan_int (dec m @ CHR '':'' # dec s) = Some (int m, CHR '':'' # dec s)" "scan_int (dec s) = Some (int s, [])"
    using scan_int_dec [of "[]" s] by (simp_all add: scan_int_dec is_digit_def)
  then have fields: "scan_fields 3 (dec h @ '':'' @ dec m @ '':'' @ dec s) = [int h, int m, int s]"
    by (simp add: numeral_3_eq_3)
  have "h * 3600 + m * 60 + s < 2 ^ 32"
    using assms by simp
  then have "unat (word_of_nat (h * 3600 + m * 60 + s) :: int32_w) = h * 3600 + m * 60 + s"
    unfolding unat_of_nat by (intro mod_less) simp
  moreover have "(of_nat h * 60 + of_nat m) * 60 + of_nat s = (word_of_nat (h * 3600 + m * 60 + s) :: int32_w)"
    by (simp add: algebra_simps)
  moreover have "convert_time_to_int (dec h @ '':'' @ dec m @ '':'' @ dec s) =
      uint ((of_nat h * 60 + of_nat m) * 60 + of_nat s :: int32_w)"
    unfolding convert_time_to_int_def fields Let_def by simp
  ultimately show ?thesis
    by (simp only: uint_nat)
qed

end
