(* ===== verification/LogStream.thy ===== *)
theory LogStream
  imports BetAlgorithm "HOL-Library.Signed_Division"
begin

text \<open>
  The front half of Net/logging: the fixed buffer, the conversion of numbers to text, the log
  stream with its \<open>operator<<\<close> overloads, the log level macros and the line a \<open>Logger\<close> prints
  (Logging.cpp, Logging.hpp, Timestamp.cpp). The \<open>%.12g\<close> format of doubles is an argument.
\<close>

section \<open>The fixed buffer\<close>

text \<open>\<open>SwapBuffer<SIZE>\<close>: the characters before \<open>writeIndex_\<close>. \<open>add\<close> follows a write at \<open>beginWrite()\<close>,
  so the model adds the characters written.\<close>

definition kSmallBuffer :: nat where
  "kSmallBuffer = 4000"

definition kLargeBuffer :: nat where
  "kLargeBuffer = 4000 * 1000"

definition sb_writable :: "nat \<Rightarrow> string \<Rightarrow> nat" where
  "sb_writable sz buf = sz - length buf"

definition sb_append :: "nat \<Rightarrow> string \<Rightarrow> string \<Rightarrow> string" where
  "sb_append sz s buf = (if sb_writable sz buf > length s then buf @ s else buf)"

text \<open>A raw write behind \<open>beginWrite()\<close>, with its terminating zero byte, must stay in the array.\<close>

definition sb_write :: "nat \<Rightarrow> string \<Rightarrow> string \<Rightarrow> string result" where
  "sb_write sz s buf = (if length buf + length s < sz then Inr (buf @ s) else Inl OutOfBounds)"

section \<open>Numbers\<close>

text \<open>\<open>zero[lsd]\<close> for \<open>-9 <= lsd <= 9\<close>, where \<open>zero\<close> points into the middle of the table.\<close>

definition digits_table :: string where
  "digits_table = ''9876543210123456789''"

definition zero_at :: "int \<Rightarrow> char" where
  "zero_at lsd = digits_table ! nat (9 + lsd)"

text \<open>The loop works on the signed value; \<open>/\<close> and \<open>%\<close> truncate towards zero.\<close>

function convert_loop :: "int \<Rightarrow> string \<Rightarrow> string" where
  "convert_loop i p =
     (let lsd = i smod 10; j = i sdiv 10; p = p @ [zero_at lsd]
      in if j \<noteq> 0 then convert_loop j p else p)"
  by pat_completeness auto
termination
proof (relation "measure (\<lambda>(i, p). nat \<bar>i\<bar>)")
  fix i :: int and lsd j p q
  assume "j = i sdiv 10" "j \<noteq> 0"
  then have "\<bar>j\<bar> = \<bar>i\<bar> div 10" "i \<noteq> 0"
    by (auto simp: signed_divide_int_def abs_mult)
  then show "((j, q), i, p) \<in> measure (\<lambda>(i, p). nat \<bar>i\<bar>)"
    by auto
qed auto

declare convert_loop.simps [simp del]

definition convert :: "int \<Rightarrow> string" where
  "convert v = rev (convert_loop v [] @ (if v < 0 then ''-'' else []))"

definition digitsHex :: string where
  "digitsHex = ''0123456789ABCDEF''"

fun convertHex_loop :: "nat \<Rightarrow> string \<Rightarrow> string" where
  "convertHex_loop i p =
     (let p = p @ [digitsHex ! (i mod 16)] in if i div 16 \<noteq> 0 then convertHex_loop (i div 16) p else p)"

declare convertHex_loop.simps [simp del]

definition convertHex :: "nat \<Rightarrow> string" where
  "convertHex v = rev (convertHex_loop v [])"

section \<open>The stream\<close>

definition kMaxNumericSize :: nat where
  "kMaxNumericSize = 32"

definition formatInteger :: "int \<Rightarrow> string \<Rightarrow> string result" where
  "formatInteger v buf =
     (if sb_writable kSmallBuffer buf \<ge> kMaxNumericSize then sb_write kSmallBuffer (convert v) buf else Inr buf)"

text \<open>The argument types of \<open>operator<<\<close>. All integer overloads end in \<open>formatInteger\<close> with the value;
  the text of a double is what \<open>snprintf\<close> gives for \<open>%.12g\<close>.\<close>

datatype log_item =
  LBool bool | LInt int | LPointer nat | LDouble string | LChar char | LCStr "string option" | LStr string

fun log_put :: "log_item \<Rightarrow> string \<Rightarrow> string result" where
  "log_put (LBool b) buf = Inr (sb_append kSmallBuffer (if b then ''1'' else ''0'') buf)"
| "log_put (LInt v) buf = formatInteger v buf"
| "log_put (LPointer v) buf =
     (if sb_writable kSmallBuffer buf \<ge> kMaxNumericSize then sb_write kSmallBuffer (''0x'' @ convertHex v) buf else Inr buf)"
| "log_put (LDouble s) buf =
     (if sb_writable kSmallBuffer buf \<ge> kMaxNumericSize then sb_write kSmallBuffer s buf else Inr buf)"
| "log_put (LChar c) buf = Inr (sb_append kSmallBuffer [c] buf)"
| "log_put (LCStr s) buf = Inr (sb_append kSmallBuffer (case s of Some s \<Rightarrow> s | None \<Rightarrow> ''(null)'') buf)"
| "log_put (LStr s) buf = Inr (sb_append kSmallBuffer s buf)"

section \<open>Numbers are printed right\<close>

lemma zero_at_digit: "\<bar>d\<bar> < 10 \<Longrightarrow> zero_at d = digit_char (nat \<bar>d\<bar>)"
proof -
  assume "\<bar>d\<bar> < 10"
  then have "d \<in> {- 9, - 8, - 7, - 6, - 5, - 4, - 3, - 2, - 1, 0, 1, 2, 3, 4, 5, 6, 7, 8, 9}"
    unfolding insert_iff empty_iff by presburger
  then show ?thesis
    by (elim insertE emptyE) (simp_all add: zero_at_def digits_table_def digit_char_def char_of_def bit_Suc_0_iff)
qed

lemma sdiv_smod_10: "\<bar>i sdiv 10\<bar> = \<bar>i\<bar> div 10" "\<bar>i smod 10\<bar> = \<bar>i\<bar> mod (10 :: int)"
  by (cases "i = 0"; simp add: signed_divide_int_def signed_modulo_int_def abs_mult abs_sgn_eq)+

lemma convert_loop_dec: "convert_loop i p = p @ rev (dec (nat \<bar>i\<bar>))"
proof (induction i p rule: convert_loop.induct)
  case (1 i p)
  have lsd: "zero_at (i smod 10) = digit_char (nat \<bar>i\<bar> mod 10)"
    using zero_at_digit [of "i smod 10"] sdiv_smod_10(2) [of i] by (simp add: nat_mod_distrib)
  have nat: "nat \<bar>i sdiv 10\<bar> = nat \<bar>i\<bar> div 10"
    using sdiv_smod_10(1) [of i] by (simp add: nat_div_distrib)
  have zero: "i sdiv 10 = 0 \<longleftrightarrow> nat \<bar>i\<bar> < 10"
    using sdiv_smod_10(1) [of i] by auto
  show ?case
  proof (cases "i sdiv 10 = 0")
    case True
    then have "dec (nat \<bar>i\<bar>) = [digit_char (nat \<bar>i\<bar> mod 10)]"
      using zero by (subst dec.simps) simp
    then show ?thesis
      using True lsd by (subst convert_loop.simps) simp
  next
    case False
    then have "dec (nat \<bar>i\<bar>) = dec (nat \<bar>i\<bar> div 10) @ [digit_char (nat \<bar>i\<bar> mod 10)]"
      using zero by (subst dec.simps) simp
    moreover have "convert_loop (i sdiv 10) (p @ [zero_at (i smod 10)]) =
        (p @ [zero_at (i smod 10)]) @ rev (dec (nat \<bar>i sdiv 10\<bar>))"
      using 1 [OF refl refl refl False] .
    ultimately show ?thesis
      using False lsd nat by (subst convert_loop.simps) simp
  qed
qed

lemma convert_eq: "convert v = to_string v"
  by (simp add: convert_def convert_loop_dec to_string_def)

lemma length_to_string64: "- (2 ^ 63) \<le> v \<Longrightarrow> v < 2 ^ 64 \<Longrightarrow> length (to_string v) \<le> 20"
proof (cases "v < 0")
  case True
  assume "- (2 ^ 63) \<le> v"
  then have "nat (- v) < 10 ^ 19"
    using True by (simp add: nat_less_iff)
  then show ?thesis
    using True length_dec [of "nat (- v)" 19] by (simp add: to_string_def)
next
  case False
  assume "v < 2 ^ 64"
  then have "nat v < 10 ^ 20"
    using False by (simp add: nat_less_iff)
  then show ?thesis
    using False length_dec [of "nat v" 20] by (simp add: to_string_def)
qed

text \<open>C35: The fast conversion prints what \<open>to_string\<close> prints, for every integer: the table with the
  digits on both sides of its zero makes the smallest negative number come out right too, since
  the value is never negated. A 64-bit value takes at most 20 characters, so it fits the 32 that
  are checked for.\<close>

theorem convert_is_to_string:
  "convert v = to_string v \<and> (- (2 ^ 63) \<le> v \<and> v < 2 ^ 64 \<longrightarrow> length (convert v) \<le> 20)"
  using length_to_string64 by (simp add: convert_eq)

theorem convert_is_to_string_witness:
  "convert (- 9223372036854775808) = to_string (- 9223372036854775808) \<and> length (convert (- 9223372036854775808)) \<le> 20"
proof -
  have "- (2 ^ 63) \<le> (- 9223372036854775808 :: int) \<and> (- 9223372036854775808 :: int) < 2 ^ 64"
    by simp
  then show ?thesis
    using convert_is_to_string [of "- 9223372036854775808"] by blast
qed

definition hex_val :: "char \<Rightarrow> nat" where
  "hex_val c = (if is_digit c then digit_val c else of_char c - 55)"

lemma hex_val_digit: "d < 16 \<Longrightarrow> hex_val (digitsHex ! d) = d"
proof -
  assume "d < 16"
  then have "d \<in> {0, 1, 2, 3, 4, 5, 6, 7, 8, 9, 10, 11, 12, 13, 14, 15}"
    unfolding insert_iff empty_iff by presburger
  then show ?thesis
    by (elim insertE emptyE) (simp_all add: hex_val_def digitsHex_def is_digit_def digit_val_def)
qed

lemma convertHex_loop_val:
  "\<exists>q. convertHex_loop i p = p @ q \<and> foldr (\<lambda>c acc. hex_val c + 16 * acc) q 0 = i \<and> (\<forall>k > 0. i < 16 ^ k \<longrightarrow> length q \<le> k)"
proof (induction i p rule: convertHex_loop.induct)
  case (1 i p)
  show ?case
  proof (cases "i div 16 = 0")
    case True
    then show ?thesis
      by (subst convertHex_loop.simps) (simp add: hex_val_digit div_eq_0_iff)
  next
    case False
    from 1 [OF refl False] obtain q where q: "convertHex_loop (i div 16) (p @ [digitsHex ! (i mod 16)]) = (p @ [digitsHex ! (i mod 16)]) @ q"
        "foldr (\<lambda>c acc. hex_val c + 16 * acc) q 0 = i div 16" "\<forall>k > 0. i div 16 < 16 ^ k \<longrightarrow> length q \<le> k"
      by blast
    have "length (digitsHex ! (i mod 16) # q) \<le> k" if k: "0 < k" "i < 16 ^ k" for k
    proof -
      obtain k' where k': "k = Suc k'"
        using k(1) by (cases k) auto
      then have "0 < k'" "i div 16 < 16 ^ k'"
        using k False by (cases k'; simp add: less_mult_imp_div_less mult.commute)+
      then show ?thesis
        using q(3) k' by simp
    qed
    moreover have "convertHex_loop i p = p @ digitsHex ! (i mod 16) # q"
      using False q(1) by (subst convertHex_loop.simps) simp
    ultimately show ?thesis
      using q(2) by (intro exI [of _ "digitsHex ! (i mod 16) # q"]) (simp add: hex_val_digit)
  qed
qed

text \<open>Pointers are printed in hexadecimal: reading the digits back gives the value, and 64 bits take at
  most 16 of them.\<close>

lemma convertHex_reads_back:
  "foldl (\<lambda>acc c. hex_val c + 16 * acc) 0 (convertHex v) = v"
  "v < 2 ^ 64 \<Longrightarrow> length (convertHex v) \<le> 16"
  using convertHex_loop_val [of v "[]"] by (auto simp: convertHex_def foldl_conv_foldr)

section \<open>The stream stays in its buffer\<close>

fun item_text :: "log_item \<Rightarrow> string" where
  "item_text (LBool b) = (if b then ''1'' else ''0'')"
| "item_text (LInt v) = to_string v"
| "item_text (LPointer v) = ''0x'' @ convertHex v"
| "item_text (LDouble s) = s"
| "item_text (LChar c) = [c]"
| "item_text (LCStr s) = (case s of Some s \<Rightarrow> s | None \<Rightarrow> ''(null)'')"
| "item_text (LStr s) = s"

fun item_ok :: "log_item \<Rightarrow> bool" where
  "item_ok (LInt v) = (- (2 ^ 63) \<le> v \<and> v < 2 ^ 64)"
| "item_ok (LPointer v) = (v < 2 ^ 64)"
| "item_ok (LDouble s) = (length s < 32)"
| "item_ok _ = True"

text \<open>\<open>log_put\<close> adds the whole text or nothing; what has fewer than 32 characters is added whenever 32
  are free.\<close>

lemma log_put_spec:
  assumes "item_ok x" and "length buf < kSmallBuffer"
  shows "\<exists>buf'. log_put x buf = Inr buf' \<and> length buf' < kSmallBuffer \<and> (buf' = buf \<or> buf' = buf @ item_text x) \<and>
    (length buf + max 31 (length (item_text x)) < kSmallBuffer \<longrightarrow> buf' = buf @ item_text x)"
proof -
  have raw: "\<exists>buf'. (if sb_writable kSmallBuffer buf \<ge> kMaxNumericSize then sb_write kSmallBuffer s buf else Inr buf) = Inr buf' \<and>
      length buf' < kSmallBuffer \<and> (buf' = buf \<or> buf' = buf @ s) \<and>
      (length buf + max 31 (length s) < kSmallBuffer \<longrightarrow> buf' = buf @ s)" if "length s < 32" for s
    using that assms(2) by (auto simp: sb_writable_def sb_write_def kMaxNumericSize_def)
  have app: "\<exists>buf'. Inr (sb_append kSmallBuffer s buf) = (Inr buf' :: string result) \<and>
      length buf' < kSmallBuffer \<and> (buf' = buf \<or> buf' = buf @ s) \<and>
      (length buf + max 31 (length s) < kSmallBuffer \<longrightarrow> buf' = buf @ s)" for s
    using assms(2) by (auto simp: sb_append_def sb_writable_def)
  show ?thesis
  proof (cases x)
    case (LInt v)
    then have "length (to_string v) < 32"
      using length_to_string64 [of v] assms(1) by simp
    then show ?thesis
      unfolding LInt log_put.simps formatInteger_def convert_eq item_text.simps by (rule raw)
  next
    case (LPointer v)
    then have "length (''0x'' @ convertHex v) < 32"
      using convertHex_reads_back(2) [of v] assms(1) by simp
    then show ?thesis
      unfolding LPointer log_put.simps item_text.simps by (rule raw)
  next
    case (LDouble s)
    then have "length s < 32"
      using assms(1) by simp
    then show ?thesis
      unfolding LDouble log_put.simps item_text.simps by (rule raw)
  qed (simp_all only: log_put.simps item_text.simps app)
qed

section \<open>Log lines\<close>

datatype LogLevel = TRACE | DEBUg | INFO | WARN | ERROR | FATAL

fun level_no :: "LogLevel \<Rightarrow> nat" where
  "level_no TRACE = 0" | "level_no DEBUg = 1" | "level_no INFO = 2" | "level_no WARN = 3" | "level_no ERROR = 4" | "level_no FATAL = 5"

text \<open>Enumerators are compared by their position.\<close>

lemma level_no_inj: "level_no l = level_no m \<Longrightarrow> l = m"
  by (cases l; cases m) simp_all

instantiation LogLevel :: linorder
begin

definition less_eq_LogLevel :: "LogLevel \<Rightarrow> LogLevel \<Rightarrow> bool" where
  "l \<le> m \<longleftrightarrow> level_no l \<le> level_no m"

definition less_LogLevel :: "LogLevel \<Rightarrow> LogLevel \<Rightarrow> bool" where
  "l < m \<longleftrightarrow> level_no l < level_no m"

instance
  by intro_classes (auto simp: less_eq_LogLevel_def less_LogLevel_def intro: level_no_inj)

end

lemma TRACE_least [simp]: "TRACE \<le> l"
  by (simp add: less_eq_LogLevel_def)

fun LogLevelName :: "LogLevel \<Rightarrow> string" where
  "LogLevelName TRACE = ''TRACE ''" | "LogLevelName DEBUg = ''DEBUG ''" | "LogLevelName INFO = ''INFO  ''"
| "LogLevelName WARN = ''WARN  ''" | "LogLevelName ERROR = ''ERROR ''" | "LogLevelName FATAL = ''FATAL ''"

definition initLogLevel :: "bool \<Rightarrow> bool \<Rightarrow> LogLevel" where
  "initLogLevel env_trace env_debug = (if env_trace then TRACE else if env_debug then DEBUg else INFO)"

text \<open>The macros LOG_TRACE, LOG_DEBUG and LOG_MINFO compare with \<open>Logger::LogLevel()\<close>, which is not the
  function \<open>logLevel()\<close> but a value-initialised \<open>LogLevel\<close>, the first enumerator.\<close>

definition macro_enabled :: "LogLevel \<Rightarrow> LogLevel \<Rightarrow> bool" where
  "macro_enabled g_logLevel l \<longleftrightarrow> TRACE \<le> l"

lemma log_level_is_ignored: "macro_enabled g l"
  by (simp add: macro_enabled_def)

text \<open>\<open>SourceFile\<close>: the name after the last slash (\<open>strrchr\<close>).\<close>

fun strrchr :: "string \<Rightarrow> char \<Rightarrow> string option" where
  "strrchr [] c = None"
| "strrchr (x # xs) c = (case strrchr xs c of Some s \<Rightarrow> Some s | None \<Rightarrow> if x = c then Some (x # xs) else None)"

definition SourceFile :: "string \<Rightarrow> string" where
  "SourceFile filename = (case strrchr filename (CHR ''/'') of Some slash \<Rightarrow> tl slash | None \<Rightarrow> filename)"

lemma strrchr_None: "strrchr s c = None \<longleftrightarrow> c \<notin> set s"
  by (induction s) (auto split: option.splits)

lemma strrchr_Some: "strrchr s c = Some t \<Longrightarrow> \<exists>pre post. s = pre @ t \<and> t = c # post \<and> c \<notin> set post"
proof (induction s)
  case (Cons x xs)
  show ?case
  proof (cases "strrchr xs c")
    case None
    then show ?thesis
      using Cons.prems strrchr_None [of xs c] by (auto split: if_splits)
  next
    case (Some u)
    then obtain pre post where "xs = pre @ u" "u = c # post" "c \<notin> set post" "t = u"
      using Cons by auto
    then show ?thesis
      by (intro exI [of _ "x # pre"] exI [of _ post]) simp
  qed
qed simp

lemma SourceFile_is_the_basename:
  "CHR ''/'' \<notin> set (SourceFile s) \<and> (SourceFile s = s \<or> (\<exists>dir. s = dir @ ''/'' @ SourceFile s))"
proof (cases "strrchr s (CHR ''/'')")
  case None
  then show ?thesis
    using strrchr_None [of s "CHR ''/''"] unfolding SourceFile_def None by simp
next
  case (Some t)
  then show ?thesis
    using strrchr_Some [OF Some] by (auto simp: SourceFile_def)
qed

text \<open>\<open>formatTime\<close> with the cached text of the last second (\<open>t_lastSecond\<close>, \<open>t_time\<close>).\<close>

definition time_text :: "tm \<Rightarrow> string" where
  "time_text t = take 63 (pad_space 4 (tm_year t + 1900) @ pad0 2 (tm_mon t + 1) @ pad0 2 (tm_mday t) @ '' '' @
     pad0 2 (tm_hour t) @ '':'' @ pad0 2 (tm_min t) @ '':'' @ pad0 2 (tm_sec t))"

definition formatTime :: "(int \<Rightarrow> tm) \<Rightarrow> int \<Rightarrow> int \<times> string \<Rightarrow> ((int \<times> string) \<times> log_item list) result" where
  "formatTime localtime microSeconds cache =
     (let seconds = microSeconds sdiv 1000000; us = ''.'' @ pad0 6 (microSeconds smod 1000000) @ ''Z ''
      in rbind (if seconds \<noteq> fst cache
                then rassert (length (time_text (localtime seconds)) = 17) (Inr (seconds, time_text (localtime seconds)))
                else Inr cache) (\<lambda>cache.
         rassert (length us = 9) (rassert (length (snd cache) = 17) (Inr (cache, [LStr (snd cache), LStr us])))))"

text \<open>\<open>Impl::Impl\<close>, the \<open>func\<close> of the macros, what the caller streams, and \<open>finish\<close>. \<open>strerror_r\<close> returns
  a number here, which is what is streamed.\<close>

definition errno_items :: "int \<Rightarrow> int \<Rightarrow> log_item list" where
  "errno_items strerror_ret savedErrno =
     (if savedErrno \<noteq> 0 then [LInt strerror_ret, LCStr (Some '' (errno= ''), LInt savedErrno, LCStr (Some '') '')] else [])"

definition finish_items :: "string \<Rightarrow> int \<Rightarrow> log_item list" where
  "finish_items basename line = [LCStr (Some '' - ''), LStr basename, LChar (CHR '':''), LInt line, LChar (CHR 0x0A)]"

definition Logger_line ::
  "(int \<Rightarrow> tm) \<Rightarrow> int \<Rightarrow> int \<times> string \<Rightarrow> LogLevel \<Rightarrow> int \<Rightarrow> int \<Rightarrow> string \<Rightarrow> log_item list \<Rightarrow> string \<Rightarrow> int \<Rightarrow> ((int \<times> string) \<times> string) result"
where
  "Logger_line localtime now cache level strerror_ret savedErrno func items file line =
     rbind (formatTime localtime now cache) (\<lambda>(cache, time_items).
     rbind (rfold log_put (time_items @ [LStr (LogLevelName level)] @ errno_items strerror_ret savedErrno @
              [LCStr (Some func), LChar (CHR '' '')] @ items @ finish_items (SourceFile file) line) []) (\<lambda>buf.
     Inr (cache, buf)))"

section \<open>Timestamps\<close>

definition Timestamp_toString :: "int \<Rightarrow> string" where
  "Timestamp_toString us = take 30 (to_string (us sdiv 1000000) @ ''.'' @ pad0 6 (us smod 1000000))"

definition Timestamp_toFormattedString :: "(int \<Rightarrow> tm) \<Rightarrow> bool \<Rightarrow> int \<Rightarrow> string" where
  "Timestamp_toFormattedString gmtime showMicroseconds us =
     (let t = gmtime (us sdiv 1000000)
      in if showMicroseconds then take 63 (time_text t @ ''.'' @ pad0 6 (us smod 1000000)) else time_text t)"

definition fromUnixTime :: "int \<Rightarrow> int \<Rightarrow> int" where
  "fromUnixTime t microseconds = t * 1000000 + microseconds"

lemma sdiv_smod_nonneg: "0 \<le> i \<Longrightarrow> i sdiv 1000000 = i div 1000000 \<and> i smod 1000000 = i mod (1000000 :: int)"
  by (cases "i = 0") (simp_all add: signed_divide_int_def signed_modulo_int_def)

lemma fromUnixTime_parts:
  "0 \<le> t \<Longrightarrow> 0 \<le> us \<Longrightarrow> us < 1000000 \<Longrightarrow> fromUnixTime t us sdiv 1000000 = t \<and> fromUnixTime t us smod 1000000 = us"
  by (simp add: fromUnixTime_def sdiv_smod_nonneg)

section \<open>A line is printed whole\<close>

lemma log_items_spec:
  assumes "list_all item_ok items" and "length buf < kSmallBuffer"
  shows "\<exists>buf'. rfold log_put items buf = Inr buf' \<and> length buf' < kSmallBuffer \<and>
    (length buf + length (concat (map item_text items)) + 31 < kSmallBuffer \<longrightarrow> buf' = buf @ concat (map item_text items))"
  using assms
proof (induction items arbitrary: buf)
  case (Cons x items)
  then obtain buf1 where 1: "log_put x buf = Inr buf1" "length buf1 < kSmallBuffer"
      "length buf + max 31 (length (item_text x)) < kSmallBuffer \<longrightarrow> buf1 = buf @ item_text x"
    using log_put_spec [of x buf] by auto
  then obtain buf2 where 2: "rfold log_put items buf1 = Inr buf2" "length buf2 < kSmallBuffer"
      "length buf1 + length (concat (map item_text items)) + 31 < kSmallBuffer \<longrightarrow> buf2 = buf1 @ concat (map item_text items)"
    using Cons.IH [of buf1] Cons.prems by auto
  have "buf2 = buf @ concat (map item_text (x # items))"
    if len: "length buf + length (concat (map item_text (x # items))) + 31 < kSmallBuffer"
  proof -
    have "buf1 = buf @ item_text x"
      using len 1(3) by simp
    then show ?thesis
      using len 2(3) by simp
  qed
  then show ?case
    using 1(1) 2 by simp
qed simp

lemma length_time_text: "tm_ok t \<Longrightarrow> length (time_text t) = 17"
  by (simp add: time_text_def length_tm_fields)

lemma formatTime_ok:
  assumes "tm_ok (localtime (now sdiv 1000000))" and "0 \<le> now"
    and "fst cache = now sdiv 1000000 \<longrightarrow> snd cache = time_text (localtime (now sdiv 1000000))"
  shows "formatTime localtime now cache =
    Inr ((now sdiv 1000000, time_text (localtime (now sdiv 1000000))),
         [LStr (time_text (localtime (now sdiv 1000000))), LStr (''.'' @ pad0 6 (now smod 1000000) @ ''Z '')])"
proof -
  have "0 \<le> now smod 1000000" "now smod 1000000 < 10 ^ 6"
    using assms(2) by (simp_all add: sdiv_smod_nonneg)
  then have "length (pad0 6 (now smod 1000000)) = 6"
    by (simp add: length_pad0)
  then show ?thesis
    using assms(1,3) length_time_text [OF assms(1)] by (cases cache) (auto simp: formatTime_def Let_def)
qed

definition line_text :: "(int \<Rightarrow> tm) \<Rightarrow> int \<Rightarrow> LogLevel \<Rightarrow> string \<Rightarrow> log_item list \<Rightarrow> string \<Rightarrow> int \<Rightarrow> string" where
  "line_text localtime now level func items file line =
     time_text (localtime (now sdiv 1000000)) @ ''.'' @ pad0 6 (now smod 1000000) @ ''Z '' @ LogLevelName level @ func @ '' '' @
     concat (map item_text items) @ '' - '' @ SourceFile file @ '':'' @ to_string line @ [CHR 0x0A]"

definition cache_ok :: "(int \<Rightarrow> tm) \<Rightarrow> int \<Rightarrow> int \<times> string \<Rightarrow> bool" where
  "cache_ok localtime now cache \<longleftrightarrow>
     (fst cache = now sdiv 1000000 \<longrightarrow> snd cache = time_text (localtime (now sdiv 1000000)))"

lemma Logger_line_text:
  assumes "tm_ok (localtime (now sdiv 1000000))" and "0 \<le> now" and "cache_ok localtime now cache"
    and "list_all item_ok items" and "- (2 ^ 31) \<le> line" and "line < 2 ^ 31"
  shows "\<exists>buf. Logger_line localtime now cache level 0 0 func items file line =
      Inr ((now sdiv 1000000, time_text (localtime (now sdiv 1000000))), buf) \<and> length buf < 4000 \<and>
    (length (line_text localtime now level func items file line) + 31 < 4000 \<longrightarrow> buf = line_text localtime now level func items file line)"
proof -
  let ?time = "[LStr (time_text (localtime (now sdiv 1000000))), LStr (''.'' @ pad0 6 (now smod 1000000) @ ''Z '')]"
  let ?all = "?time @ [LStr (LogLevelName level)] @ [LCStr (Some func), LChar (CHR '' '')] @ items @ finish_items (SourceFile file) line"
  have "list_all item_ok ?all"
    using assms(4-6) by (simp add: finish_items_def)
  moreover have "concat (map item_text ?all) = line_text localtime now level func items file line"
    by (simp add: finish_items_def line_text_def)
  ultimately obtain buf where "rfold log_put ?all [] = Inr buf" "length buf < kSmallBuffer"
      "length (line_text localtime now level func items file line) + 31 < kSmallBuffer \<longrightarrow> buf = line_text localtime now level func items file line"
    using log_items_spec [of ?all "[]"] by (auto simp: kSmallBuffer_def)
  then show ?thesis
    using formatTime_ok [of localtime now cache] assms(1-3)
    by (simp add: Logger_line_def errno_items_def kSmallBuffer_def cache_ok_def)
qed

text \<open>A log line is printed whole and in order: date, time, level, function, what the caller streams,
  file, line number and the newline, as long as they fit the 4000 characters with a reserve of
  31; and whatever is streamed, the stream never leaves its buffer and no assertion fails.\<close>

theorem log_line_is_complete:
  fixes level :: LogLevel and func fname :: string
  assumes "tm_ok (localtime (now sdiv 1000000))" and "0 \<le> now"
    and "fst cache = now sdiv 1000000 \<longrightarrow> snd cache = time_text (localtime (now sdiv 1000000))"
    and "list_all item_ok items" and "- (2 ^ 31) \<le> line" and "line < 2 ^ 31"
  defines "text_line \<equiv> time_text (localtime (now sdiv 1000000)) @ ''.'' @ pad0 6 (now smod 1000000) @ ''Z '' @
      LogLevelName level @ func @ '' '' @ concat (map item_text items) @ '' - '' @ SourceFile fname @ '':'' @ to_string line @ [CHR 0x0A]"
  shows "\<exists>cache' buf. Logger_line localtime now cache level 0 0 func items fname line = Inr (cache', buf) \<and>
    length buf < 4000 \<and> (length text_line + 31 < 4000 \<longrightarrow> buf = text_line)"
  using Logger_line_text [of localtime now cache items line level func fname] assms(1-6)
  unfolding text_line_def by (auto simp: line_text_def cache_ok_def)

theorem log_line_is_complete_witness:
  "\<exists>cache' buf. Logger_line (\<lambda>_. \<lparr>tm_year = 118, tm_mon = 6, tm_mday = 21, tm_hour = 9, tm_min = 30, tm_sec = 1\<rparr>)
     1532165401000042 (0, []) INFO 0 0 ''run'' [LStr ''started'', LInt 3] ''/src/main.cpp'' 42 = Inr (cache', buf) \<and> length buf < 4000"
proof -
  let ?lt = "\<lambda>_ :: int. \<lparr>tm_year = 118, tm_mon = 6, tm_mday = 21, tm_hour = 9, tm_min = 30, tm_sec = 1\<rparr>"
  have "tm_ok (?lt (1532165401000042 sdiv 1000000))"
    by (simp add: tm_ok_def)
  moreover have "(0 :: int, [] :: string) = (0, [])" "(1532165401000042 :: int) sdiv 1000000 \<noteq> 0"
    by (simp_all add: sdiv_smod_nonneg)
  ultimately show ?thesis
    using log_line_is_complete [of ?lt 1532165401000042 "(0, [])" "[LStr ''started'', LInt 3]" 42 INFO "''run''" "''/src/main.cpp''"]
    by auto
qed

end
