(* ===== verification/LogBackend.thy ===== *)
theory LogBackend
  imports LogStream
begin

text \<open>
  The back half of Net/logging: the file that is appended to, the rolling log file and the
  asynchronous logger with its two spare buffers (\<open>AppendFile\<close>, \<open>LogFile\<close>, \<open>AsyncLogging\<close> of
  Logging.cpp). The system is an argument: how many characters each \<open>fwrite\<close> takes, whether a
  file can be opened, the clock and \<open>localtime\<close>.
\<close>

section \<open>Appending to a file\<close>

record AppendFile =
  af_name :: string
  af_text :: string
  af_writtenBytes :: nat

text \<open>\<open>wr k\<close> is what the \<open>k\<close>th \<open>fwrite\<close> of the call accepts. The result is what reached the file.\<close>

function append_loop :: "(nat \<Rightarrow> nat) \<Rightarrow> nat \<Rightarrow> string \<Rightarrow> string" where
  "append_loop wr k rest =
     (if rest = [] then []
      else let x = min (wr k) (length rest)
        in if x = 0 then [] else take x rest @ append_loop wr (k + 1) (drop x rest))"
  by pat_completeness auto
termination
  by (relation "measure (\<lambda>(wr, k, rest). length rest)") auto

declare append_loop.simps [simp del]

definition af_append :: "(nat \<Rightarrow> nat) \<Rightarrow> string \<Rightarrow> AppendFile \<Rightarrow> AppendFile" where
  "af_append wr logline f =
     (let n = min (wr 0) (length logline)
      in f\<lparr>af_text := af_text f @ take n logline @ append_loop wr 1 (drop n logline),
           af_writtenBytes := af_writtenBytes f + length logline\<rparr>)"

lemma append_loop_all: "(\<And>k. 0 < wr k) \<Longrightarrow> append_loop wr k rest = rest"
proof (induction wr k rest rule: append_loop.induct)
  case (1 wr k rest)
  show ?case
  proof (cases "rest = []")
    case False
    then have "min (wr k) (length rest) \<noteq> 0"
      using 1(2) [of k] by auto
    then show ?thesis
      using 1(1) [OF False refl] 1(2) False by (subst append_loop.simps) (simp add: Let_def)
  qed (simp add: append_loop.simps)
qed

lemma af_append_all: "(\<And>k. 0 < wr k) \<Longrightarrow> af_text (af_append wr logline f) = af_text f @ logline"
  by (simp add: af_append_def append_loop_all Let_def)

section \<open>The rolling file\<close>

record log_env =
  env_open :: "string \<Rightarrow> bool"
  env_write :: "nat \<Rightarrow> nat"
  env_now :: int
  env_now_roll :: int
  env_localtime :: "int \<Rightarrow> tm"

record LogFile =
  lf_basename :: string
  lf_rollSize :: int
  lf_flushInterval :: int
  lf_checkEveryN :: int
  lf_count :: int
  lf_startOfPeriod :: int
  lf_lastRoll :: int
  lf_lastFlush :: int
  lf_file :: "AppendFile option"
  lf_closed :: "AppendFile list"

definition kRollPerSeconds :: int where
  "kRollPerSeconds = 60 * 60 * 24"

definition getLogFileName :: "(int \<Rightarrow> tm) \<Rightarrow> string \<Rightarrow> int \<Rightarrow> string" where
  "getLogFileName localtime basename now =
     (let t = localtime now
      in basename @ ''.'' @ to_string (tm_year t + 1900) @ pad0 2 (tm_mon t + 1) @ pad0 2 (tm_mday t) @ ''-'' @
         pad0 2 (tm_hour t) @ pad0 2 (tm_min t) @ pad0 2 (tm_sec t) @ ''.'' @ ''.log'')"

definition rollFile :: "log_env \<Rightarrow> LogFile \<Rightarrow> LogFile result" where
  "rollFile env f =
     (let now = env_now_roll env;
          filename = getLogFileName (env_localtime env) (lf_basename f) now;
          start = now sdiv kRollPerSeconds * kRollPerSeconds
      in if now > lf_lastRoll f
         then rassert (env_open env filename)
           (Inr (f\<lparr>lf_lastRoll := now, lf_lastFlush := now, lf_startOfPeriod := start,
                   lf_file := Some \<lparr>af_name = filename, af_text = [], af_writtenBytes = 0\<rparr>,
                   lf_closed := lf_closed f @ (case lf_file f of Some a \<Rightarrow> [a] | None \<Rightarrow> [])\<rparr>))
         else Inr f)"

definition LogFile_new :: "log_env \<Rightarrow> string \<Rightarrow> int \<Rightarrow> int \<Rightarrow> int \<Rightarrow> LogFile result" where
  "LogFile_new env basename rollSize flushInterval checkEveryN =
     rollFile env \<lparr>lf_basename = basename, lf_rollSize = rollSize, lf_flushInterval = flushInterval,
       lf_checkEveryN = checkEveryN, lf_count = 0, lf_startOfPeriod = 0, lf_lastRoll = 0, lf_lastFlush = 0,
       lf_file = None, lf_closed = []\<rparr>"

text \<open>\<open>append\<close> is \<open>appendUnlocked\<close> under the mutex, when there is one. Flushing moves nothing the model
  sees.\<close>

definition appendUnlocked :: "log_env \<Rightarrow> string \<Rightarrow> LogFile \<Rightarrow> LogFile result" where
  "appendUnlocked env logline f = (case lf_file f of
     None \<Rightarrow> Inl NullDeref
   | Some a \<Rightarrow>
       (let a = af_append (env_write env) logline a; f = f\<lparr>lf_file := Some a\<rparr>
        in if int (af_writtenBytes a) > lf_rollSize f then rollFile env f
           else let f = f\<lparr>lf_count := lf_count f + 1\<rparr>
             in if lf_count f \<ge> lf_checkEveryN f
                then let f = f\<lparr>lf_count := 0\<rparr>;
                         thisPeriod = env_now env sdiv kRollPerSeconds * kRollPerSeconds
                  in if thisPeriod \<noteq> lf_startOfPeriod f then rollFile env f
                     else if env_now env - lf_lastFlush f > lf_flushInterval f then Inr (f\<lparr>lf_lastFlush := env_now env\<rparr>)
                     else Inr f
                else Inr f))"

definition lf_texts :: "LogFile \<Rightarrow> string list" where
  "lf_texts f = map af_text (lf_closed f @ (case lf_file f of Some a \<Rightarrow> [a] | None \<Rightarrow> []))"

definition env_ok :: "log_env \<Rightarrow> bool" where
  "env_ok env \<longleftrightarrow> (\<forall>name. env_open env name) \<and> (\<forall>k. 0 < env_write env k)"

lemma rollFile_texts:
  assumes "env_ok env" and "lf_file f = Some a"
  shows "\<exists>f' a'. rollFile env f = Inr f' \<and> lf_file f' = Some a' \<and> (lf_texts f' = lf_texts f \<or> lf_texts f' = lf_texts f @ [[]])"
  using assms by (auto simp: rollFile_def Let_def env_ok_def lf_texts_def)

text \<open>A line goes whole to the end of the last file, and a new file may be begun after it.\<close>

definition line_added :: "string \<Rightarrow> LogFile \<Rightarrow> LogFile result \<Rightarrow> bool" where
  "line_added logline f r \<longleftrightarrow> (\<exists>f' a'. r = Inr f' \<and> lf_file f' = Some a' \<and>
     (lf_texts f' = butlast (lf_texts f) @ [last (lf_texts f) @ logline] \<or>
      lf_texts f' = butlast (lf_texts f) @ [last (lf_texts f) @ logline, []]))"

lemma appendUnlocked_texts:
  assumes env: "env_ok env" and a: "lf_file f = Some a"
  shows "line_added logline f (appendUnlocked env logline f)"
proof -
  let ?a = "af_append (env_write env) logline a"
  have whole: "af_text ?a = af_text a @ logline"
    using env by (intro af_append_all) (simp add: env_ok_def)
  have t: "lf_texts g = butlast (lf_texts f) @ [last (lf_texts f) @ logline]"
    if "lf_file g = Some ?a" "lf_closed g = lf_closed f" for g
    using that a whole by (simp add: lf_texts_def)
  have roll: "line_added logline f (rollFile env g)"
    if "lf_file g = Some ?a" "lf_closed g = lf_closed f" for g
    using rollFile_texts [OF env that(1)] t [OF that] by (auto simp: line_added_def)
  have keep: "line_added logline f (Inr g)"
    if "lf_file g = Some ?a" "lf_closed g = lf_closed f" for g
    using t [OF that] that by (simp add: line_added_def)
  show ?thesis
    unfolding appendUnlocked_def a option.case Let_def by (simp add: roll keep)
qed

lemma LogFile_new_texts:
  assumes "env_ok env" and "0 < env_now_roll env"
  shows "\<exists>f a. LogFile_new env basename rollSize flushInterval checkEveryN = Inr f \<and> lf_file f = Some a \<and> lf_texts f = [[]]"
  using assms by (auto simp: LogFile_new_def rollFile_def Let_def env_ok_def lf_texts_def)

fun appends :: "(log_env \<times> string) list \<Rightarrow> LogFile \<Rightarrow> LogFile result" where
  "appends [] f = Inr f"
| "appends ((env, logline) # rest) f = rbind (appendUnlocked env logline f) (appends rest)"

definition whole_lines :: "string list \<Rightarrow> string list \<Rightarrow> bool" where
  "whole_lines lines texts \<longleftrightarrow> (\<exists>groups. concat groups = lines \<and> map concat groups = texts)"

lemma whole_lines_added:
  assumes "whole_lines lines ts" and "ts \<noteq> []"
  shows "whole_lines (lines @ [l]) (butlast ts @ [last ts @ l])" "whole_lines (lines @ [l]) (butlast ts @ [last ts @ l, []])"
proof -
  obtain groups where g: "concat groups = lines" "map concat groups = ts"
    using assms(1) by (auto simp: whole_lines_def)
  then obtain init g1 where groups: "groups = init @ [g1]"
    using assms(2) by (cases groups rule: rev_cases) auto
  have "concat (init @ [g1 @ [l]]) = lines @ [l]" "map concat (init @ [g1 @ [l]]) = butlast ts @ [last ts @ l]"
    "concat (init @ [g1 @ [l], []]) = lines @ [l]" "map concat (init @ [g1 @ [l], []]) = butlast ts @ [last ts @ l, []]"
    using g groups by auto
  then show "whole_lines (lines @ [l]) (butlast ts @ [last ts @ l])" "whole_lines (lines @ [l]) (butlast ts @ [last ts @ l, []])"
    unfolding whole_lines_def by blast+
qed

lemma appends_whole_lines:
  assumes "list_all (\<lambda>(env, l). env_ok env) ls" and "lf_file f = Some a" and "whole_lines lines (lf_texts f)"
  shows "\<exists>f' a'. appends ls f = Inr f' \<and> lf_file f' = Some a' \<and> whole_lines (lines @ map snd ls) (lf_texts f')"
  using assms
proof (induction ls arbitrary: f a lines)
  case (Cons x ls)
  obtain env l where x: "x = (env, l)"
    by fastforce
  have ne: "lf_texts f \<noteq> []"
    using Cons.prems(2) by (simp add: lf_texts_def)
  from appendUnlocked_texts [of env f a l] obtain f1 a1 where f1: "appendUnlocked env l f = Inr f1" "lf_file f1 = Some a1"
      "lf_texts f1 = butlast (lf_texts f) @ [last (lf_texts f) @ l] \<or> lf_texts f1 = butlast (lf_texts f) @ [last (lf_texts f) @ l, []]"
    using Cons.prems x by (auto simp: line_added_def)
  then have "whole_lines (lines @ [l]) (lf_texts f1)"
    using whole_lines_added [OF Cons.prems(3) ne, of l] by auto
  then show ?case
    using Cons.IH [OF _ f1(2), of "lines @ [l]"] Cons.prems(1) f1(1) x by simp
qed simp

text \<open>The log file keeps every line, whole and in order: however often it rolls, by size or by day,
  the files one after the other hold the appended lines, and no line is split between two files
  (as long as files can be opened and every \<open>fwrite\<close> makes progress).\<close>

theorem log_file_keeps_whole_lines:
  assumes "env_ok env" and "0 < env_now_roll env" and "list_all (\<lambda>(env, l). env_ok env) ls"
  shows "\<exists>f groups. rbind (LogFile_new env basename rollSize flushInterval checkEveryN) (appends ls) = Inr f \<and>
    map af_text (lf_closed f) @ [af_text (the (lf_file f))] = map concat groups \<and> concat groups = map snd ls"
proof -
  obtain f0 a0 where f0: "LogFile_new env basename rollSize flushInterval checkEveryN = Inr f0" "lf_file f0 = Some a0" "lf_texts f0 = [[]]"
    using LogFile_new_texts [OF assms(1,2)] by blast
  have "whole_lines [] (lf_texts f0)"
    unfolding whole_lines_def f0(3) by (intro exI [of _ "[[]]"]) simp
  from appends_whole_lines [OF assms(3) f0(2) this] obtain f a where
    f: "appends ls f0 = Inr f" "lf_file f = Some a" "whole_lines (map snd ls) (lf_texts f)"
    by auto
  then obtain groups where "concat groups = map snd ls" "map concat groups = map af_text (lf_closed f) @ [af_text (the (lf_file f))]"
    by (auto simp: whole_lines_def lf_texts_def)
  then show ?thesis
    using f0(1) f(1) by (intro exI [of _ f] exI [of _ groups]) simp
qed

definition sample_env :: "int \<Rightarrow> log_env" where
  "sample_env now = \<lparr>env_open = (\<lambda>_. True), env_write = (\<lambda>_. 3), env_now = now, env_now_roll = now,
     env_localtime = (\<lambda>_. \<lparr>tm_year = 118, tm_mon = 6, tm_mday = 21, tm_hour = 9, tm_min = 30, tm_sec = 1\<rparr>)\<rparr>"

theorem log_file_keeps_whole_lines_witness:
  "\<exists>f groups. rbind (LogFile_new (sample_env 100) ''log'' 8 3 1024) (appends [(sample_env 101, ''first line''), (sample_env 102, ''second'')]) = Inr f \<and>
     map af_text (lf_closed f) @ [af_text (the (lf_file f))] = map concat groups \<and> concat groups = [''first line'', ''second'']"
  using log_file_keeps_whole_lines [of "sample_env 100" "[(sample_env 101, ''first line''), (sample_env 102, ''second'')]" "''log''" 8 3 1024]
  by (simp add: sample_env_def env_ok_def)

section \<open>The asynchronous logger\<close>

text \<open>\<open>al_next\<close> says whether \<open>nextBuffer_\<close> is set; a spare buffer is always empty. The thread holds
  its two spare buffers (\<open>newBuffer1\<close>, \<open>newBuffer2\<close>), the buffers it writes, and the log file.\<close>

record AsyncLogging =
  al_running :: bool
  al_current :: string
  al_next :: bool
  al_buffers :: "string list"
  al_newBuffer1 :: bool
  al_newBuffer2 :: bool
  al_toWrite :: "string list"
  al_output :: LogFile

definition AsyncLogging_new :: "LogFile \<Rightarrow> AsyncLogging" where
  "AsyncLogging_new output =
     \<lparr>al_running = False, al_current = [], al_next = True, al_buffers = [],
      al_newBuffer1 = True, al_newBuffer2 = True, al_toWrite = [], al_output = output\<rparr>"

definition al_append :: "string \<Rightarrow> AsyncLogging \<Rightarrow> AsyncLogging" where
  "al_append logline a =
     (if sb_writable kLargeBuffer (al_current a) > length logline
      then a\<lparr>al_current := sb_append kLargeBuffer logline (al_current a)\<rparr>
      else a\<lparr>al_buffers := al_buffers a @ [al_current a], al_next := False,
             al_current := sb_append kLargeBuffer logline []\<rparr>)"

definition al_start :: "AsyncLogging \<Rightarrow> AsyncLogging" where
  "al_start a = a\<lparr>al_running := True\<rparr>"

text \<open>\<open>stop\<close> assigns \<open>true\<close>, wakes the thread and joins it.\<close>

definition al_stop :: "AsyncLogging \<Rightarrow> AsyncLogging" where
  "al_stop a = a\<lparr>al_running := True\<rparr>"

text \<open>One round of \<open>threadFunc\<close>: the part under the mutex, and the writing.\<close>

definition al_collect :: "AsyncLogging \<Rightarrow> AsyncLogging result" where
  "al_collect a =
     rassert (al_newBuffer1 a \<and> al_newBuffer2 a)
       (Inr (a\<lparr>al_toWrite := al_buffers a @ [al_current a], al_buffers := [], al_current := [], al_newBuffer1 := False,
              al_next := True, al_newBuffer2 := al_next a\<rparr>))"

definition refill :: "bool \<Rightarrow> string list \<Rightarrow> (bool \<times> string list) result" where
  "refill newBuffer buffers = (if newBuffer then Inr (True, buffers) else rassert (buffers \<noteq> []) (Inr (True, butlast buffers)))"

definition al_write :: "log_env \<Rightarrow> (nat \<Rightarrow> string) \<Rightarrow> AsyncLogging \<Rightarrow> AsyncLogging result" where
  "al_write env dropped_msg a =
     rassert (al_toWrite a \<noteq> []) (
     rbind (if length (al_toWrite a) > 25 then appendUnlocked env (dropped_msg (length (al_toWrite a) - 2)) (al_output a)
            else Inr (al_output a)) (\<lambda>output.
     let toWrite = (if length (al_toWrite a) > 25 then take 2 (al_toWrite a) else al_toWrite a)
     in rbind (appends (map (Pair env) toWrite) output) (\<lambda>output.
        rbind (refill (al_newBuffer1 a) (take 2 toWrite)) (\<lambda>(n1, spare).
        rbind (refill (al_newBuffer2 a) spare) (\<lambda>(n2, spare).
          Inr (a\<lparr>al_newBuffer1 := n1, al_newBuffer2 := n2, al_toWrite := [], al_output := output\<rparr>))))))"

text \<open>The logger with the lines given to it and whether any were dropped. The thread and the callers
  of \<open>append\<close> interleave at the mutex.\<close>

record al_io =
  al :: AsyncLogging
  logged :: "string list"
  dropped :: bool

inductive al_step :: "(nat \<Rightarrow> string) \<Rightarrow> al_io \<Rightarrow> al_io \<Rightarrow> bool" for msg where
  log: "length logline < kLargeBuffer \<Longrightarrow> al_step msg c (c\<lparr>al := al_append logline (al c), logged := logged c @ [logline]\<rparr>)"
| collect: "al_toWrite (al c) = [] \<Longrightarrow> al_collect (al c) = Inr a \<Longrightarrow> al_step msg c (c\<lparr>al := a\<rparr>)"
| write_out: "al_toWrite (al c) \<noteq> [] \<Longrightarrow> env_ok env \<Longrightarrow> al_write env msg (al c) = Inr a \<Longrightarrow>
    al_step msg c (c\<lparr>al := a, dropped := dropped c \<or> length (al_toWrite (al c)) > 25\<rparr>)"
| stopping: "al_step msg c (c\<lparr>al := al_stop (al c)\<rparr>)"

inductive al_reachable :: "(nat \<Rightarrow> string) \<Rightarrow> LogFile \<Rightarrow> al_io \<Rightarrow> bool" for msg f where
  begun: "al_reachable msg f \<lparr>al = al_start (AsyncLogging_new f), logged = [], dropped = False\<rparr>"
| further: "al_reachable msg f c \<Longrightarrow> al_step msg c c' \<Longrightarrow> al_reachable msg f c'"

definition al_inv :: "al_io \<Rightarrow> bool" where
  "al_inv c \<longleftrightarrow> (let a = al c in
     al_running a \<and> (\<exists>g. lf_file (al_output a) = Some g) \<and>
     (\<not> al_next a \<longrightarrow> al_buffers a \<noteq> []) \<and>
     (al_toWrite a = [] \<longrightarrow> al_newBuffer1 a \<and> al_newBuffer2 a) \<and>
     (al_toWrite a \<noteq> [] \<longrightarrow> \<not> al_newBuffer1 a \<and> (\<not> al_newBuffer2 a \<longrightarrow> 2 \<le> length (al_toWrite a))) \<and>
     (\<not> dropped c \<longrightarrow>
       concat (lf_texts (al_output a)) @ concat (al_toWrite a) @ concat (al_buffers a) @ al_current a = concat (logged c)))"

lemma concat_whole: "concat (map concat groups) = concat (concat groups)"
  by (induction groups) simp_all

lemma whole_lines_concat: "whole_lines lines ts \<Longrightarrow> concat ts = concat lines"
  unfolding whole_lines_def by (metis concat_whole)

lemma appends_concat:
  assumes "env_ok env" and "lf_file f = Some a"
  shows "\<exists>f' a'. appends (map (Pair env) ls) f = Inr f' \<and> lf_file f' = Some a' \<and> concat (lf_texts f') = concat (lf_texts f) @ concat ls"
proof -
  have "list_all (\<lambda>(env, l). env_ok env) (map (Pair env) ls)"
    using assms(1) by (induction ls) simp_all
  moreover have "whole_lines (lf_texts f) (lf_texts f)"
    unfolding whole_lines_def by (intro exI [of _ "map (\<lambda>x. [x]) (lf_texts f)"]) (simp add: comp_def)
  ultimately obtain f' a' where "appends (map (Pair env) ls) f = Inr f'" "lf_file f' = Some a'"
      "whole_lines (lf_texts f @ map snd (map (Pair env) ls)) (lf_texts f')"
    using appends_whole_lines [of "map (Pair env) ls" f a "lf_texts f"] assms(2) by blast
  moreover from this(3) have "concat (lf_texts f') = concat (lf_texts f @ ls)"
    using whole_lines_concat by (auto simp: comp_def)
  ultimately show ?thesis
    by auto
qed

lemma al_write_spec:
  assumes env: "env_ok env" and f: "lf_file (al_output a) = Some g" and ne: "al_toWrite a \<noteq> []"
    and spare: "\<not> al_newBuffer1 a" "\<not> al_newBuffer2 a \<longrightarrow> 2 \<le> length (al_toWrite a)"
  shows "\<exists>f' g'. al_write env msg a = Inr (a\<lparr>al_newBuffer1 := True, al_newBuffer2 := True, al_toWrite := [], al_output := f'\<rparr>) \<and>
    lf_file f' = Some g' \<and>
    concat (lf_texts f') = concat (lf_texts (al_output a)) @
      (if length (al_toWrite a) > 25 then msg (length (al_toWrite a) - 2) @ concat (take 2 (al_toWrite a)) else concat (al_toWrite a))"
proof -
  let ?w = "if length (al_toWrite a) > 25 then take 2 (al_toWrite a) else al_toWrite a"
  let ?pre = "if length (al_toWrite a) > 25 then msg (length (al_toWrite a) - 2) else []"
  let ?r = "if length (al_toWrite a) > 25 then appendUnlocked env (msg (length (al_toWrite a) - 2)) (al_output a) else Inr (al_output a)"
  obtain f1 g1 where f1: "?r = Inr f1" "lf_file f1 = Some g1" "concat (lf_texts f1) = concat (lf_texts (al_output a)) @ ?pre"
  proof (cases "length (al_toWrite a) > 25")
    case True
    then show ?thesis
      using that appends_concat [OF env f, of "[msg (length (al_toWrite a) - 2)]"] by (auto simp: rbind_def split: sum.splits)
  next
    case False
    then show ?thesis
      using that f by simp
  qed
  obtain f2 g2 where f2: "appends (map (Pair env) ?w) f1 = Inr f2" "lf_file f2 = Some g2" "concat (lf_texts f2) = concat (lf_texts f1) @ concat ?w"
    using appends_concat [OF env f1(2), of ?w] by blast
  have "?w \<noteq> []" "\<not> al_newBuffer2 a \<longrightarrow> 2 \<le> length ?w"
    using ne spare(2) by auto
  then have "\<exists>rest1 rest2. refill (al_newBuffer1 a) (take 2 ?w) = Inr (True, rest1) \<and> refill (al_newBuffer2 a) rest1 = Inr (True, rest2)"
    using spare(1) by (auto simp: refill_def rassert_def butlast_take take_eq_Nil)
  then obtain rest1 rest2 where rest: "refill (al_newBuffer1 a) (take 2 ?w) = Inr (True, rest1)" "refill (al_newBuffer2 a) rest1 = Inr (True, rest2)"
    by blast
  have "al_write env msg a = Inr (a\<lparr>al_newBuffer1 := True, al_newBuffer2 := True, al_toWrite := [], al_output := f2\<rparr>)"
    unfolding al_write_def f1(1) Let_def rbind_simps f2(1) rest using ne rest by (simp add: rest)
  then show ?thesis
    using f2 f1(3) by auto
qed

lemma al_inv_step: "al_step msg c c' \<Longrightarrow> al_inv c \<Longrightarrow> al_inv c'"
proof (induction rule: al_step.induct)
  case (log logline c)
  have "sb_append kLargeBuffer logline [] = logline"
    using log.hyps by (simp add: sb_append_def sb_writable_def)
  then show ?case
    using log.prems by (auto simp: al_inv_def al_append_def sb_append_def Let_def)
next
  case (collect c a)
  then show ?case
    by (auto simp: al_inv_def al_collect_def Let_def length_Suc_conv Suc_le_eq)
next
  case (write_out c env a)
  then obtain g where g: "lf_file (al_output (al c)) = Some g" "\<not> al_newBuffer1 (al c)"
      "\<not> al_newBuffer2 (al c) \<longrightarrow> 2 \<le> length (al_toWrite (al c))"
    by (auto simp: al_inv_def Let_def)
  obtain f' g' where "a = (al c)\<lparr>al_newBuffer1 := True, al_newBuffer2 := True, al_toWrite := [], al_output := f'\<rparr>" "lf_file f' = Some g'"
      "concat (lf_texts f') = concat (lf_texts (al_output (al c))) @
        (if length (al_toWrite (al c)) > 25 then msg (length (al_toWrite (al c)) - 2) @ concat (take 2 (al_toWrite (al c))) else concat (al_toWrite (al c)))"
    using al_write_spec [OF write_out.hyps(2) g(1) write_out.hyps(1) g(2,3), of msg] write_out.hyps(3) by auto
  then show ?case
    using write_out.prems by (auto simp: al_inv_def Let_def)
next
  case (stopping c)
  then show ?case
    by (simp add: al_inv_def al_stop_def Let_def)
qed

lemma al_reachable_inv:
  assumes "al_reachable msg f c" and "lf_file f = Some g" and "lf_texts f = [[]]"
  shows "al_inv c"
  using assms
proof (induction rule: al_reachable.induct)
  case begun
  then show ?case
    by (simp add: al_inv_def al_start_def AsyncLogging_new_def Let_def)
qed (blast intro: al_inv_step)

section \<open>Properties\<close>

text \<open>C23: The asynchronous log is exact until it falls 25 buffers behind. However the logging threads and
  the writing thread interleave, and however the file rolls: the files, the buffers being written,
  the full buffers and the current buffer hold, in this order, all lines logged so far; and the
  thread never runs out of spare buffers, so none of its assertions fails.\<close>

theorem async_log_keeps_order:
  assumes "LogFile_new env basename rollSize flushInterval checkEveryN = Inr f" and "env_ok env" and "0 < env_now_roll env"
    and "al_reachable msg f c" and "env_ok env'"
  shows "(\<not> dropped c \<longrightarrow> concat (map af_text (lf_closed (al_output (al c)) @ [the (lf_file (al_output (al c)))])) @
      concat (al_toWrite (al c)) @ concat (al_buffers (al c)) @ al_current (al c) = concat (logged c)) \<and>
    (al_toWrite (al c) = [] \<longrightarrow> (\<exists>a. al_collect (al c) = Inr a)) \<and>
    (al_toWrite (al c) \<noteq> [] \<longrightarrow> (\<exists>a. al_write env' msg (al c) = Inr a))"
proof -
  obtain g where "lf_file f = Some g" "lf_texts f = [[]]"
    using LogFile_new_texts [OF assms(2,3), of basename rollSize flushInterval checkEveryN] assms(1) by auto
  then have inv: "al_inv c"
    using al_reachable_inv [OF assms(4)] by blast
  then obtain g' where g': "lf_file (al_output (al c)) = Some g'"
    by (auto simp: al_inv_def Let_def)
  have "\<exists>a. al_write env' msg (al c) = Inr a" if "al_toWrite (al c) \<noteq> []"
    using al_write_spec [OF assms(5) g' that, of msg] inv that by (auto simp: al_inv_def Let_def)
  then show ?thesis
    using inv g' by (auto simp: al_inv_def Let_def lf_texts_def al_collect_def)
qed

lemma sample_log: "\<exists>f. LogFile_new (sample_env 100) ''log'' 8 3 1024 = Inr f \<and>
  al_reachable (\<lambda>n. ''dropped'') f
    \<lparr>al = al_append ''hello'' (al_start (AsyncLogging_new f)), logged = [''hello''], dropped = False\<rparr>"
proof -
  obtain f where "LogFile_new (sample_env 100) ''log'' 8 3 1024 = Inr f"
    using LogFile_new_texts [of "sample_env 100" "''log''" 8 3 1024] by (auto simp: sample_env_def env_ok_def)
  moreover have "al_step (\<lambda>n. ''dropped'') \<lparr>al = al_start (AsyncLogging_new f), logged = [], dropped = False\<rparr>
      \<lparr>al = al_append ''hello'' (al_start (AsyncLogging_new f)), logged = [''hello''], dropped = False\<rparr>"
    using al_step.log [of "''hello''" _ "\<lparr>al = al_start (AsyncLogging_new f), logged = [], dropped = False\<rparr>"]
    by (simp add: kLargeBuffer_def)
  ultimately show ?thesis
    using al_reachable.further [OF al_reachable.begun] by blast
qed

theorem async_log_keeps_order_witness:
  "\<exists>f. LogFile_new (sample_env 100) ''log'' 8 3 1024 = Inr f \<and>
     (let a = al_append ''hello'' (al_start (AsyncLogging_new f))
      in concat (map af_text (lf_closed (al_output a) @ [the (lf_file (al_output a))])) @ concat (al_toWrite a) @
           concat (al_buffers a) @ al_current a = ''hello'')"
proof -
  obtain f where f: "LogFile_new (sample_env 100) ''log'' 8 3 1024 = Inr f"
      "al_reachable (\<lambda>n. ''dropped'') f
        \<lparr>al = al_append ''hello'' (al_start (AsyncLogging_new f)), logged = [''hello''], dropped = False\<rparr>"
    using sample_log by blast
  have env: "env_ok (sample_env 100)" "0 < env_now_roll (sample_env 100)"
    by (simp_all add: sample_env_def env_ok_def)
  show ?thesis
    using async_log_keeps_order [OF f(1) env f(2) env(1)] f(1) by (simp add: Let_def)
qed

text \<open>Stopping does not stop: \<open>stop\<close> sets the flag that keeps the thread running, so the join that
  follows it never returns.\<close>

lemma stop_keeps_the_thread_running: "al_running (al_stop a)"
  by (simp add: al_stop_def)

end
