(* ===== verification/MatchJson.thy ===== *)
theory MatchJson
  imports MatchProfile
begin

text \<open>
  The JSON form of a match profile (\<open>to_json\<close> and \<open>from_json\<close> of CPGMatchStructHelper.cpp), through which
  matches reach and leave the web interface. A JSON object is a map from names to values of the JSON
  library; converting a value to a number takes the low 32 bits (64 for \<open>bankid\<close>) and throws for a
  value that is not numeric, as the library documents. Reading an absent member of a constant object
  fails an assertion. \<open>date\<close> is \<open>GetDateTimeIntFromFormat\<close>, which rests on \<open>strptime\<close> and \<open>mktime\<close>.
\<close>

datatype jval = JInt int | JFloat int | JBool bool | JStr string | JOther

type_synonym jobject = "string \<Rightarrow> jval option"

definition jnumber :: "jval \<Rightarrow> int result" where
  "jnumber v = (case v of JInt i \<Rightarrow> Inr i | JFloat i \<Rightarrow> Inr i | JBool b \<Rightarrow> Inr (of_bool b) | _ \<Rightarrow> Inl Thrown)"

definition jget :: "jobject \<Rightarrow> string \<Rightarrow> jval result" where
  "jget j k = (case j k of Some v \<Rightarrow> Inr v | None \<Rightarrow> Inl AssertFailed)"

definition jget_int :: "jobject \<Rightarrow> string \<Rightarrow> int32_w result" where
  "jget_int j k = rbind (jget j k) (\<lambda>v. rbind (jnumber v) (\<lambda>i. Inr (word_of_int i)))"

definition jget_string :: "jobject \<Rightarrow> string \<Rightarrow> string result" where
  "jget_string j k = rbind (jget j k) (\<lambda>v. case v of JStr s \<Rightarrow> Inr s | _ \<Rightarrow> Inl Thrown)"

definition jint :: "int32_w \<Rightarrow> jval" where
  "jint w = JInt (sint w)"

definition json_fields :: "CPGMatchProfile \<Rightarrow> (string \<times> jval) list" where
  "json_fields p =
    [(''mid'', jint (mid p)),
     (''start_time'', jint (start_time p)),
     (''total_player_amount'', jint (total_player_amount p)),
     (''remained_player_amount'', jint (remained_player_amount p)),
     (''match_state'', jint (match_state p)),
     (''current_blind_level'', jint (current_blind_level p)),
     (''entryfee'', jint (entryfee p)),
     (''init_chips_amount'', jint (init_chips_amount p)),
     (''min_players_amount'', jint (min_players_amount p)),
     (''max_players_amount'', jint (max_players_amount p)),
     (''operator_time'', jint (operator_time p)),
     (''increase_blind_time'', jint (increase_blind_time p)),
     (''first_blind_level'', jint (first_blind_level p)),
     (''delay_join_level'', jint (delay_join_level p)),
     (''stop_condition'', jint (stop_condition p)),
     (''start_condition'', jint (start_condition p)),
     (''reward_type'', jint (reward_type p)),
     (''match_type'', jint (match_type p)),
     (''bonusid'', jint (bonusid p)),
     (''guarantee_person'', jint (guarantee_person p)),
     (''name'', JStr (name p)),
     (''enter_code'', jint (enter_code p)),
     (''entry_pool'', jint (entry_pool p)),
     (''reward_coin'', jint (reward_coin p)),
     (''finish_condition'', jint (finish_condition p)),
     (''finish_param'', jint (finish_param p)),
     (''match_auto_cancel_second'', jint (match_auto_cancel_second p)),
     (''bankid'', JInt (uint (bankid p))),
     (''end_time'', jint (end_time p))]"

definition to_json :: "CPGMatchProfile \<Rightarrow> jobject" where
  "to_json p = map_of (json_fields p)"

text \<open>The members \<open>from_json\<close> demands and those it takes when they are there, in the order of the code.\<close>

type_synonym setter = "int32_w \<Rightarrow> CPGMatchProfile \<Rightarrow> CPGMatchProfile"

definition demanded :: "(string \<times> setter) list" where
  "demanded =
    [(''start_condition'', \<lambda>v p. p\<lparr>start_condition := v\<rparr>),
     (''min_players_amount'', \<lambda>v p. p\<lparr>min_players_amount := v\<rparr>),
     (''max_players_amount'', \<lambda>v p. p\<lparr>max_players_amount := v\<rparr>),
     (''first_blind_level'', \<lambda>v p. p\<lparr>first_blind_level := v\<rparr>),
     (''entryfee'', \<lambda>v p. p\<lparr>entryfee := v\<rparr>),
     (''operator_time'', \<lambda>v p. p\<lparr>operator_time := v\<rparr>),
     (''init_chips_amount'', \<lambda>v p. p\<lparr>init_chips_amount := v\<rparr>),
     (''increase_blind_time'', \<lambda>v p. p\<lparr>increase_blind_time := v\<rparr>),
     (''reward_type'', \<lambda>v p. p\<lparr>reward_type := v\<rparr>),
     (''entry_pool'', \<lambda>v p. p\<lparr>entry_pool := v\<rparr>),
     (''reward_coin'', \<lambda>v p. p\<lparr>reward_coin := v\<rparr>),
     (''bonusid'', \<lambda>v p. p\<lparr>bonusid := v\<rparr>),
     (''guarantee_person'', \<lambda>v p. p\<lparr>guarantee_person := v\<rparr>),
     (''match_type'', \<lambda>v p. p\<lparr>match_type := v\<rparr>),
     (''stop_condition'', \<lambda>v p. p\<lparr>stop_condition := v\<rparr>),
     (''delay_join_level'', \<lambda>v p. p\<lparr>delay_join_level := v\<rparr>),
     (''finish_condition'', \<lambda>v p. p\<lparr>finish_condition := v\<rparr>),
     (''finish_param'', \<lambda>v p. p\<lparr>finish_param := v\<rparr>)]"

definition taken :: "(string \<times> setter) list" where
  "taken =
    [(''mid'', \<lambda>v p. p\<lparr>mid := v\<rparr>),
     (''end_time'', \<lambda>v p. p\<lparr>end_time := v\<rparr>),
     (''match_auto_cancel_second'', \<lambda>v p. p\<lparr>match_auto_cancel_second := v\<rparr>)]"

definition taken_rest :: "(string \<times> setter) list" where
  "taken_rest =
    [(''current_blind_level'', \<lambda>v p. p\<lparr>current_blind_level := v\<rparr>),
     (''total_player_amount'', \<lambda>v p. p\<lparr>total_player_amount := v\<rparr>),
     (''remained_player_amount'', \<lambda>v p. p\<lparr>remained_player_amount := v\<rparr>),
     (''match_state'', \<lambda>v p. p\<lparr>match_state := v\<rparr>),
     (''enter_code'', \<lambda>v p. p\<lparr>enter_code := v\<rparr>)]"

definition set_demanded :: "jobject \<Rightarrow> string \<times> setter \<Rightarrow> CPGMatchProfile \<Rightarrow> CPGMatchProfile result" where
  "set_demanded j kf p = rbind (jget_int j (fst kf)) (\<lambda>v. Inr (snd kf v p))"

definition set_taken :: "jobject \<Rightarrow> string \<times> setter \<Rightarrow> CPGMatchProfile \<Rightarrow> CPGMatchProfile result" where
  "set_taken j kf p = (if j (fst kf) \<noteq> None then set_demanded j kf p else Inr p)"

definition set_bankid :: "jobject \<Rightarrow> CPGMatchProfile \<Rightarrow> CPGMatchProfile result" where
  "set_bankid j p = (case j ''bankid'' of
     None \<Rightarrow> Inr p
   | Some v \<Rightarrow> rbind (jnumber v) (\<lambda>i. Inr (p\<lparr>bankid := word_of_int i\<rparr>)))"

definition set_start_time :: "(string \<Rightarrow> int) \<Rightarrow> jobject \<Rightarrow> CPGMatchProfile \<Rightarrow> CPGMatchProfile result" where
  "set_start_time date j p = (case j ''start_time'' of
     None \<Rightarrow> Inr p
   | Some (JInt i) \<Rightarrow> Inr (p\<lparr>start_time := word_of_int i\<rparr>)
   | Some (JStr s) \<Rightarrow> Inr (p\<lparr>start_time := word_of_int (date s)\<rparr>)
   | Some _ \<Rightarrow> Inl Thrown)"

definition from_json :: "(string \<Rightarrow> int) \<Rightarrow> jobject \<Rightarrow> CPGMatchProfile \<Rightarrow> CPGMatchProfile result" where
  "from_json date j p =
     rbind (jget_string j ''name'') (\<lambda>n.
     rbind (rfold (set_demanded j) demanded (p\<lparr>name := n\<rparr>)) (\<lambda>p.
     rbind (rfold (set_taken j) taken p) (\<lambda>p.
     rbind (set_bankid j p) (\<lambda>p.
     rbind (rfold (set_taken j) taken_rest p) (set_start_time date j)))))"

section \<open>Round trip\<close>

lemma json_keys_distinct: "distinct (map fst (json_fields p))"
  by (simp add: json_fields_def)

lemma json_field: "(k, v) \<in> set (json_fields p) \<Longrightarrow> to_json p k = Some v"
  using map_of_is_SomeI [OF json_keys_distinct] by (simp add: to_json_def)

lemma json_int_field:
  "(k, jint w) \<in> set (json_fields p) \<Longrightarrow> set_demanded (to_json p) (k, f) q = Inr (f w q) \<and> set_taken (to_json p) (k, f) q = Inr (f w q)"
  using json_field [of k "jint w" p] by (simp add: set_taken_def set_demanded_def jget_int_def jget_def jnumber_def jint_def)

lemma read_demanded:
  "rfold (set_demanded (to_json p)) demanded q = Inr (q\<lparr>start_condition := start_condition p,
     min_players_amount := min_players_amount p, max_players_amount := max_players_amount p,
     first_blind_level := first_blind_level p, entryfee := entryfee p, operator_time := operator_time p,
     init_chips_amount := init_chips_amount p, increase_blind_time := increase_blind_time p, reward_type := reward_type p,
     entry_pool := entry_pool p, reward_coin := reward_coin p, bonusid := bonusid p, guarantee_person := guarantee_person p,
     match_type := match_type p, stop_condition := stop_condition p, delay_join_level := delay_join_level p,
     finish_condition := finish_condition p, finish_param := finish_param p\<rparr>)"
proof -
  have f: "set_demanded (to_json p) (''start_condition'', g) q = Inr (g (start_condition p) q)"
    "set_demanded (to_json p) (''min_players_amount'', g) q = Inr (g (min_players_amount p) q)"
    "set_demanded (to_json p) (''max_players_amount'', g) q = Inr (g (max_players_amount p) q)"
    "set_demanded (to_json p) (''first_blind_level'', g) q = Inr (g (first_blind_level p) q)"
    "set_demanded (to_json p) (''entryfee'', g) q = Inr (g (entryfee p) q)"
    "set_demanded (to_json p) (''operator_time'', g) q = Inr (g (operator_time p) q)"
    "set_demanded (to_json p) (''init_chips_amount'', g) q = Inr (g (init_chips_amount p) q)"
    "set_demanded (to_json p) (''increase_blind_time'', g) q = Inr (g (increase_blind_time p) q)"
    "set_demanded (to_json p) (''reward_type'', g) q = Inr (g (reward_type p) q)"
    "set_demanded (to_json p) (''entry_pool'', g) q = Inr (g (entry_pool p) q)"
    "set_demanded (to_json p) (''reward_coin'', g) q = Inr (g (reward_coin p) q)"
    "set_demanded (to_json p) (''bonusid'', g) q = Inr (g (bonusid p) q)"
    "set_demanded (to_json p) (''guarantee_person'', g) q = Inr (g (guarantee_person p) q)"
    "set_demanded (to_json p) (''match_type'', g) q = Inr (g (match_type p) q)"
    "set_demanded (to_json p) (''stop_condition'', g) q = Inr (g (stop_condition p) q)"
    "set_demanded (to_json p) (''delay_join_level'', g) q = Inr (g (delay_join_level p) q)"
    "set_demanded (to_json p) (''finish_condition'', g) q = Inr (g (finish_condition p) q)"
    "set_demanded (to_json p) (''finish_param'', g) q = Inr (g (finish_param p) q)" for g q
    by (rule json_int_field [THEN conjunct1], simp add: json_fields_def)+
  show ?thesis
    unfolding demanded_def rfold.simps f rbind_simps by simp
qed

lemma read_taken:
  "rfold (set_taken (to_json p)) taken q =
     Inr (q\<lparr>mid := mid p, end_time := end_time p, match_auto_cancel_second := match_auto_cancel_second p\<rparr>)"
  "rfold (set_taken (to_json p)) taken_rest q =
     Inr (q\<lparr>current_blind_level := current_blind_level p, total_player_amount := total_player_amount p,
       remained_player_amount := remained_player_amount p, match_state := match_state p, enter_code := enter_code p\<rparr>)"
proof -
  have f: "set_taken (to_json p) (''mid'', g) q = Inr (g (mid p) q)"
    "set_taken (to_json p) (''end_time'', g) q = Inr (g (end_time p) q)"
    "set_taken (to_json p) (''match_auto_cancel_second'', g) q = Inr (g (match_auto_cancel_second p) q)"
    "set_taken (to_json p) (''current_blind_level'', g) q = Inr (g (current_blind_level p) q)"
    "set_taken (to_json p) (''total_player_amount'', g) q = Inr (g (total_player_amount p) q)"
    "set_taken (to_json p) (''remained_player_amount'', g) q = Inr (g (remained_player_amount p) q)"
    "set_taken (to_json p) (''match_state'', g) q = Inr (g (match_state p) q)"
    "set_taken (to_json p) (''enter_code'', g) q = Inr (g (enter_code p) q)" for g q
    by (rule json_int_field [THEN conjunct2], simp add: json_fields_def)+
  show "rfold (set_taken (to_json p)) taken q =
     Inr (q\<lparr>mid := mid p, end_time := end_time p, match_auto_cancel_second := match_auto_cancel_second p\<rparr>)"
    unfolding taken_def rfold.simps f rbind_simps by simp
  show "rfold (set_taken (to_json p)) taken_rest q =
     Inr (q\<lparr>current_blind_level := current_blind_level p, total_player_amount := total_player_amount p,
       remained_player_amount := remained_player_amount p, match_state := match_state p, enter_code := enter_code p\<rparr>)"
    unfolding taken_rest_def rfold.simps f rbind_simps by simp
qed

text \<open>C38: A profile survives its JSON form: what \<open>from_json\<close> reads from \<open>to_json\<close> of a profile is that
  profile, every field of it (the 64-bit \<open>bankid\<close> too), whatever the profile read into held.\<close>

theorem json_round_trip: "from_json date (to_json p) q = Inr p"
proof -
  have "to_json p ''name'' = Some (JStr (name p))" "to_json p ''bankid'' = Some (JInt (uint (bankid p)))"
      "to_json p ''start_time'' = Some (JInt (sint (start_time p)))"
    by (rule json_field, simp add: json_fields_def jint_def)+
  then show ?thesis
    unfolding from_json_def jget_string_def jget_def set_bankid_def set_start_time_def
    by (simp add: read_demanded read_taken jnumber_def)
qed

end
