(* ===== verification/Robots.thy ===== *)
theory Robots
  imports CPGSession Decimal
begin

text \<open>
  The load generator under src/ClientRobots: robots that ask the balance server for a gate, log in
  there, fetch the list of matches and join and leave matches at random. Sessions are named by their
  uuid; the calls on sessions and session manager are the effects a handler returns. The random
  index of \<open>arc4random_uniform\<close> and the uuid of a new session are arguments; messages arrive parsed.
\<close>

text \<open>\<open>MatchBriefInfo\<close> of StructDefine.h.\<close>

record RobotMatch =
  rm_mid :: int
  rm_type :: int
  rm_time :: int
  rm_totalPlayer :: int
  rm_remainedPlayer :: int
  rm_state :: int
  rm_curLevel :: int
  rm_entryfee :: int

record Robot =
  rb_port :: int
  rb_ip :: string
  rb_logicID :: nat
  rb_uid :: int
  rb_session :: int
  rb_login :: bool
  rb_matchList :: "RobotMatch list"
  rb_joinedMatches :: "int set"

text \<open>\<open>robots_\<close> holds shared pointers, null until \<open>start\<close> has made the robot.\<close>

type_synonym robots = "Robot option list"

datatype rb_effect =
    RSend int int message int
  | RSendHeartBeat int
  | RConnect int string int nat
  | RForceClose int
  | RReconnect int
  | RUpdateHeartBeat int

type_synonym rb_result = "(robots \<times> rb_effect list) result"

section \<open>Robots\<close>

text \<open>\<open>arc4random_uniform(n)\<close> is below \<open>n\<close>, and 0 for \<open>n = 0\<close>.\<close>

definition randMatch :: "nat \<Rightarrow> Robot \<Rightarrow> RobotMatch result" where
  "randMatch rnd r =
     (let index = (if rb_matchList r = [] then 0 else rnd mod length (rb_matchList r))
      in rassert (index < length (rb_matchList r)) (Inr (rb_matchList r ! index)))"

definition RobotMatch_zero :: RobotMatch where
  "RobotMatch_zero = \<lparr>rm_mid = 0, rm_type = 0, rm_time = 0, rm_totalPlayer = 0, rm_remainedPlayer = 0, rm_state = 0,
     rm_curLevel = 0, rm_entryfee = 0\<rparr>"

definition matchInfo :: "int \<Rightarrow> Robot \<Rightarrow> RobotMatch" where
  "matchInfo i r = (case find (\<lambda>m. rm_mid m = i) (rb_matchList r) of Some m \<Rightarrow> m | None \<Rightarrow> RobotMatch_zero)"

definition joinedMatch :: "int \<Rightarrow> Robot \<Rightarrow> Robot" where
  "joinedMatch i r = r\<lparr>rb_joinedMatches := insert i (rb_joinedMatches r)\<rparr>"

definition unjoinedMatch :: "int \<Rightarrow> Robot \<Rightarrow> Robot" where
  "unjoinedMatch i r = r\<lparr>rb_joinedMatches := rb_joinedMatches r - {i}\<rparr>"

section \<open>RobotManager\<close>

definition Robot_new :: "string \<Rightarrow> int \<Rightarrow> int \<Rightarrow> nat \<Rightarrow> Robot" where
  "Robot_new ip port session i =
     \<lparr>rb_port = port, rb_ip = ip, rb_logicID = i, rb_uid = int i, rb_session = session, rb_login = False,
      rb_matchList = [], rb_joinedMatches = {}\<rparr>"

text \<open>The loop of \<open>start\<close>; \<open>session i\<close> is the session of the \<open>i\<close>th connector.\<close>

definition rb_create :: "(nat \<Rightarrow> int) \<Rightarrow> nat \<Rightarrow> robots \<times> rb_effect list \<Rightarrow> robots \<times> rb_effect list" where
  "rb_create session i st =
     ((fst st)[i := Some (Robot_new ''127.0.0.1'' 7841 (session i) i)],
      snd st @ [RConnect ServerType_BalanceServer ''127.0.0.1'' 7841 i])"

definition rb_start :: "(nat \<Rightarrow> int) \<Rightarrow> nat \<Rightarrow> robots \<times> rb_effect list" where
  "rb_start session robotNums = fold (rb_create session) [0..<robotNums] (replicate robotNums None, [])"

text \<open>\<open>getRobot(logicID)\<close> indexes the vector; \<open>getRobot(session)\<close> searches it by the logic id.\<close>

definition getRobot :: "nat \<Rightarrow> robots \<Rightarrow> Robot option result" where
  "getRobot i rs = (if i < length rs then Inr (rs ! i) else Inl OutOfBounds)"

fun getRobot_session :: "nat \<Rightarrow> robots \<Rightarrow> (nat \<times> Robot) option result" where
  "getRobot_session l [] = Inr None"
| "getRobot_session l (None # rs) = Inl NullDeref"
| "getRobot_session l (Some r # rs) =
     (if rb_logicID r = l then Inr (Some (0, r))
      else rbind (getRobot_session l rs) (\<lambda>x. Inr (map_option (\<lambda>(i, r). (Suc i, r)) x)))"

definition postConnect :: "int \<Rightarrow> Robot \<Rightarrow> Robot \<times> rb_effect list" where
  "postConnect session r = (r\<lparr>rb_session := session\<rparr>, [RConnect ServerType_GateServer (rb_ip r) (rb_port r) (rb_logicID r)])"

definition rb_joinMatchRQ :: "nat \<Rightarrow> Robot \<Rightarrow> rb_effect list result" where
  "rb_joinMatchRQ rnd r = rbind (randMatch rnd r) (\<lambda>m.
     Inr [RSend (rb_session r) kJoinMatchRQ (JoinMatchRQ (rb_uid r) (rm_mid m) (rm_type m)) (rm_mid m)])"

text \<open>The header of an unjoin request has the id of a join request.\<close>

definition rb_unjoinMatchRQ :: "nat \<Rightarrow> Robot \<Rightarrow> rb_effect list result" where
  "rb_unjoinMatchRQ rnd r = rbind (randMatch rnd r) (\<lambda>m.
     Inr [RSend (rb_session r) kJoinMatchRQ (UnjoinMatchRQ (rb_uid r) (rm_mid m) (rm_type m)) (rm_mid m)])"

definition rb_matchListRQ :: "Robot \<Rightarrow> rb_effect list" where
  "rb_matchListRQ r = [RSend (rb_session r) kMatchListRQ (MatchListRQ (rb_uid r)) (rb_uid r)]"

text \<open>The two timers that let a random robot join or leave a match, if it is logged in.\<close>

definition random_robot :: "(Robot \<Rightarrow> rb_effect list result) \<Rightarrow> nat \<Rightarrow> robots \<Rightarrow> rb_effect list result" where
  "random_robot act rnd rs = rbind (getRobot (if rs = [] then 0 else rnd mod length rs) rs) (\<lambda>x. case x of
     None \<Rightarrow> Inl NullDeref
   | Some r \<Rightarrow> if rb_login r then act r else Inr [])"

definition join_timer :: "nat \<Rightarrow> nat \<Rightarrow> robots \<Rightarrow> rb_effect list result" where
  "join_timer rnd rnd_match = random_robot (rb_joinMatchRQ rnd_match) rnd"

definition unjoin_timer :: "nat \<Rightarrow> nat \<Rightarrow> robots \<Rightarrow> rb_effect list result" where
  "unjoin_timer rnd rnd_match = random_robot (rb_unjoinMatchRQ rnd_match) rnd"

definition removeRobot :: "nat \<Rightarrow> robots \<Rightarrow> robots result" where
  "removeRobot i rs = (if i < length rs then Inr (take i rs @ drop (Suc i) rs) else Inl OutOfBounds)"

text \<open>A reply for the session with logic id \<open>l\<close> and uuid \<open>u\<close>. \<open>loginRS\<close> uses the robot without a test.\<close>

definition loginRS :: "nat \<Rightarrow> message option \<Rightarrow> robots \<Rightarrow> rb_result" where
  "loginRS l rs robots = (case rs of
     Some (LoginRS _) \<Rightarrow> rbind (getRobot_session l robots) (\<lambda>x. case x of
         None \<Rightarrow> Inl NullDeref
       | Some (i, r) \<Rightarrow> let r = r\<lparr>rb_login := True\<rparr> in Inr (robots[i := Some r], rb_matchListRQ r))
   | _ \<Rightarrow> Inr (robots, []))"

definition update_robot :: "nat \<Rightarrow> (Robot \<Rightarrow> Robot) \<Rightarrow> robots \<Rightarrow> rb_result" where
  "update_robot l f robots = rbind (getRobot_session l robots) (\<lambda>x. case x of
     None \<Rightarrow> Inr (robots, [])
   | Some (i, r) \<Rightarrow> Inr (robots[i := Some (f r)], []))"

definition joinMatchRS :: "nat \<Rightarrow> int option \<Rightarrow> robots \<Rightarrow> rb_result" where
  "joinMatchRS l rs_mid robots = (case rs_mid of Some i \<Rightarrow> update_robot l (joinedMatch i) robots | None \<Rightarrow> Inr (robots, []))"

definition unjoinMatchRS :: "nat \<Rightarrow> int option \<Rightarrow> robots \<Rightarrow> rb_result" where
  "unjoinMatchRS l rs_mid robots = (case rs_mid of Some i \<Rightarrow> update_robot l (unjoinedMatch i) robots | None \<Rightarrow> Inr (robots, []))"

definition matchListRS :: "nat \<Rightarrow> RobotMatch list option \<Rightarrow> robots \<Rightarrow> rb_result" where
  "matchListRS l rs_list robots =
     (case rs_list of Some ms \<Rightarrow> update_robot l (\<lambda>r. r\<lparr>rb_matchList := ms\<rparr>) robots | None \<Rightarrow> Inr (robots, []))"

section \<open>Sessions\<close>

definition C2B_sendInitData :: "int \<Rightarrow> rb_effect list" where
  "C2B_sendInitData u = [RSend u kClientConnectRQ (ConnectRQ u) 0]"

definition C2B_connectRS :: "int \<Rightarrow> nat \<Rightarrow> int \<Rightarrow> (string \<times> int) option \<Rightarrow> robots \<Rightarrow> rb_result" where
  "C2B_connectRS u l new_session rs robots = (case rs of
     None \<Rightarrow> Inr (robots, [])
   | Some (ip, port) \<Rightarrow> rbind (getRobot l robots) (\<lambda>x. case x of
       None \<Rightarrow> Inl NullDeref
     | Some r \<Rightarrow> let (r, es) = postConnect new_session (r\<lparr>rb_ip := ip, rb_port := port\<rparr>)
         in Inr (robots[l := Some r], es @ [RForceClose u])))"

definition RobotSession_sendInitData :: "int \<Rightarrow> rb_effect list" where
  "RobotSession_sendInitData u = [RSend u kClientLoginRQ (LoginRQ u (take 63 (''Robot-'' @ to_string u))) 0, RUpdateHeartBeat u]"

text \<open>The switches of the two session classes, with what the body parses to as each message.\<close>

record rb_body =
  as_connectRS :: "(string \<times> int) option"
  as_loginRS :: "message option"
  as_matchListRS :: "RobotMatch list option"
  as_joinMatchRS :: "int option"
  as_unjoinMatchRS :: "int option"

definition C2B_handlerMsg :: "int \<Rightarrow> nat \<Rightarrow> int \<Rightarrow> int \<Rightarrow> rb_body \<Rightarrow> robots \<Rightarrow> rb_result" where
  "C2B_handlerMsg u l new_session ty body robots =
     (if ty = kClientConnectRS then C2B_connectRS u l new_session (as_connectRS body) robots else Inr (robots, []))"

definition RobotSession_handlerMsg :: "nat \<Rightarrow> int \<Rightarrow> rb_body \<Rightarrow> robots \<Rightarrow> rb_result" where
  "RobotSession_handlerMsg l ty body robots =
     (if ty = kClientLoginRS then loginRS l (as_loginRS body) robots
      else if ty = kMatchListRS then matchListRS l (as_matchListRS body) robots
      else if ty = kJoinMatchRS then joinMatchRS l (as_joinMatchRS body) robots
      else if ty = kUnjoinMatchRS then unjoinMatchRS l (as_unjoinMatchRS body) robots
      else Inr (robots, []))"

text \<open>The session class \<open>RobotSessionManager\<close> makes for a connector of a server type.\<close>

datatype rb_class = C2BSession | RobotSession | PlainSession

definition rb_createConnectorSession :: "int \<Rightarrow> rb_class" where
  "rb_createConnectorSession t =
     (if t = ServerType_BalanceServer then C2BSession else if t = ServerType_GateServer then RobotSession else PlainSession)"

text \<open>The timer that sends heartbeats: robots that are logged in and were silent for too long are
  reconnected after the others were sent a heartbeat. \<open>beatOf\<close> gives the time of a session.\<close>

fun beat_robots :: "int \<Rightarrow> (int \<Rightarrow> int) \<Rightarrow> robots \<Rightarrow> (rb_effect list \<times> int list) result" where
  "beat_robots cur beatOf [] = Inr ([], [])"
| "beat_robots cur beatOf (None # rs) = Inl NullDeref"
| "beat_robots cur beatOf (Some r # rs) = rbind (beat_robots cur beatOf rs) (\<lambda>(es, missed).
     if rb_login r \<and> cur - beatOf (rb_session r) > kClientHeartBeatOvertime then Inr (es, rb_session r # missed)
     else Inr (RSendHeartBeat (rb_session r) # es, missed))"

definition heartBeat_timer :: "int \<Rightarrow> (int \<Rightarrow> int) \<Rightarrow> robots \<Rightarrow> rb_effect list result" where
  "heartBeat_timer cur beatOf rs = rbind (beat_robots cur beatOf rs) (\<lambda>(es, missed). Inr (es @ map RReconnect missed))"

section \<open>Properties\<close>

definition robots_ok :: "robots \<Rightarrow> bool" where
  "robots_ok rs \<longleftrightarrow> (\<forall>i < length rs. \<exists>r. rs ! i = Some r \<and> rb_logicID r = i)"

lemma rb_start_eq:
  "rb_start session n =
    (map (\<lambda>i. Some (Robot_new ''127.0.0.1'' 7841 (session i) i)) [0..<n], map (RConnect ServerType_BalanceServer ''127.0.0.1'' 7841) [0..<n])"
proof -
  have "fold (rb_create session) [0..<k] (replicate n None, []) =
      (map (\<lambda>i. Some (Robot_new ''127.0.0.1'' 7841 (session i) i)) [0..<k] @ replicate (n - k) None,
       map (RConnect ServerType_BalanceServer ''127.0.0.1'' 7841) [0..<k])" if "k \<le> n" for k
    using that
  proof (induction k)
    case (Suc k)
    then have "replicate (n - k) None = (None :: Robot option) # replicate (n - Suc k) None"
      by (metis Suc_diff_Suc Suc_le_eq replicate_Suc)
    then show ?case
      using Suc by (simp add: rb_create_def list_update_append)
  qed simp
  from this [of n] show ?thesis
    by (simp add: rb_start_def)
qed

lemma getRobot_session_found:
  assumes "\<forall>i < length rs. \<exists>r. rs ! i = Some r \<and> rb_logicID r = k + i" and "l < length rs"
  shows "getRobot_session (k + l) rs = Inr (Some (l, the (rs ! l)))"
  using assms
proof (induction rs arbitrary: k l)
  case (Cons x rs)
  obtain r where r: "x = Some r" "rb_logicID r = k"
    using Cons.prems(1) by force
  show ?case
  proof (cases l)
    case 0
    then show ?thesis
      using r by simp
  next
    case (Suc l')
    have "\<forall>i < length rs. \<exists>r. rs ! i = Some r \<and> rb_logicID r = Suc k + i"
      using Cons.prems(1) by force
    then have "getRobot_session (Suc k + l') rs = Inr (Some (l', the (rs ! l')))"
      using Cons.IH [of "Suc k" l'] Cons.prems(2) Suc by simp
    then show ?thesis
      using r Suc by simp
  qed
qed simp

lemma getRobot_session_ok:
  "robots_ok rs \<Longrightarrow> l < length rs \<Longrightarrow> getRobot_session l rs = Inr (Some (l, the (rs ! l)))"
  using getRobot_session_found [of rs 0 l] by (simp add: robots_ok_def)

lemma robots_ok_update: "robots_ok rs \<Longrightarrow> rb_logicID r = l \<Longrightarrow> robots_ok (rs[l := Some r])"
  by (cases "l < length rs") (auto simp: robots_ok_def nth_list_update list_update_beyond)

lemma robots_ok_the: "robots_ok rs \<Longrightarrow> l < length rs \<Longrightarrow> rs ! l = Some (the (rs ! l)) \<and> rb_logicID (the (rs ! l)) = l"
  by (auto simp: robots_ok_def)

text \<open>The replies a robot gets on the way to its first match.\<close>

datatype rb_event =
    Connected int nat int "(string \<times> int) option"
  | LoggedIn nat "message option"
  | GotMatches nat "RobotMatch list option"
  | Joined nat "int option"
  | Unjoined nat "int option"

fun rb_handle :: "rb_event \<Rightarrow> robots \<Rightarrow> rb_result" where
  "rb_handle (Connected u l new_session x) rs = C2B_connectRS u l new_session x rs"
| "rb_handle (LoggedIn l x) rs = loginRS l x rs"
| "rb_handle (GotMatches l x) rs = matchListRS l x rs"
| "rb_handle (Joined l x) rs = joinMatchRS l x rs"
| "rb_handle (Unjoined l x) rs = unjoinMatchRS l x rs"

fun event_robot :: "rb_event \<Rightarrow> nat" where
  "event_robot (Connected u l n x) = l" | "event_robot (LoggedIn l x) = l" | "event_robot (GotMatches l x) = l"
| "event_robot (Joined l x) = l" | "event_robot (Unjoined l x) = l"

text \<open>What the events say about one robot.\<close>

fun robot_after :: "rb_event \<Rightarrow> Robot \<Rightarrow> Robot" where
  "robot_after (Connected u l s (Some (ip, port))) r = r\<lparr>rb_ip := ip, rb_port := port, rb_session := s\<rparr>"
| "robot_after (LoggedIn l (Some (LoginRS c))) r = r\<lparr>rb_login := True\<rparr>"
| "robot_after (GotMatches l (Some ms)) r = r\<lparr>rb_matchList := ms\<rparr>"
| "robot_after (Joined l (Some i)) r = r\<lparr>rb_joinedMatches := insert i (rb_joinedMatches r)\<rparr>"
| "robot_after (Unjoined l (Some i)) r = r\<lparr>rb_joinedMatches := rb_joinedMatches r - {i}\<rparr>"
| "robot_after e r = r"

lemma rb_handle_one:
  assumes "robots_ok rs" and "event_robot e < length rs"
  shows "\<exists>es. rb_handle e rs = Inr (rs[event_robot e := Some (robot_after e (the (rs ! event_robot e)))], es)"
proof -
  let ?l = "event_robot e" and ?r = "the (rs ! event_robot e)"
  have r: "rs ! ?l = Some ?r" "getRobot_session ?l rs = Inr (Some (?l, ?r))"
    using robots_ok_the [OF assms] getRobot_session_ok [OF assms] by simp_all
  then have same: "rs[?l := Some ?r] = rs"
    by (metis list_update_id)
  show ?thesis
    using r same assms(2)
    by (cases e) (auto simp: C2B_connectRS_def getRobot_def postConnect_def loginRS_def matchListRS_def joinMatchRS_def
        unjoinMatchRS_def update_robot_def joinedMatch_def unjoinedMatch_def Let_def split: message.splits option.splits)
qed

lemma robot_after_logicID: "rb_logicID (robot_after e r) = rb_logicID r"
  by (cases "(e, r)" rule: robot_after.cases) simp_all

fun rb_run :: "rb_event list \<Rightarrow> robots \<Rightarrow> robots result" where
  "rb_run [] rs = Inr rs"
| "rb_run (e # es) rs = rbind (rb_handle e rs) (\<lambda>(rs, _). rb_run es rs)"

lemma rb_run_robots:
  assumes "robots_ok rs" and "list_all (\<lambda>e. event_robot e < length rs) es"
  shows "\<exists>rs'. rb_run es rs = Inr rs' \<and> robots_ok rs' \<and> length rs' = length rs \<and>
    (\<forall>i < length rs. rs' ! i = Some (fold robot_after (filter (\<lambda>e. event_robot e = i) es) (the (rs ! i))))"
  using assms
proof (induction es arbitrary: rs)
  case Nil
  then show ?case
    using robots_ok_the by auto
next
  case (Cons e es)
  let ?l = "event_robot e"
  let ?rs = "rs[?l := Some (robot_after e (the (rs ! ?l)))]"
  have l: "?l < length rs"
    using Cons.prems(2) by simp
  obtain fx where step: "rb_handle e rs = Inr (?rs, fx)"
    using rb_handle_one [OF Cons.prems(1) l] by blast
  have "robots_ok ?rs"
    using Cons.prems(1) robots_ok_the [OF Cons.prems(1) l] by (intro robots_ok_update) (simp_all add: robot_after_logicID)
  moreover have "list_all (\<lambda>e. event_robot e < length ?rs) es"
    using Cons.prems(2) by simp
  ultimately obtain rs' where rs': "rb_run es ?rs = Inr rs'" "robots_ok rs'" "length rs' = length ?rs"
      "\<forall>i < length ?rs. rs' ! i = Some (fold robot_after (filter (\<lambda>e. event_robot e = i) es) (the (?rs ! i)))"
    using Cons.IH by blast
  have "rs' ! i = Some (fold robot_after (filter (\<lambda>e. event_robot e = i) (e # es)) (the (rs ! i)))" if "i < length rs" for i
    using rs'(4) that l by (cases "i = ?l") (simp_all add: nth_list_update)
  then show ?case
    using step rs'(1-3) by simp
qed


definition sample_match :: RobotMatch where
  "sample_match = \<lparr>rm_mid = 7, rm_type = 1, rm_time = 0, rm_totalPlayer = 0, rm_remainedPlayer = 0, rm_state = 1,
     rm_curLevel = 1, rm_entryfee = 10\<rparr>"


text \<open>A robot that is logged in and has no match list yet ends the program when the timer lets it join:
  the random index fails its assertion. A request to leave a match is sent as a request to join.\<close>

lemma robot_request_flaws:
  "rb_matchList r = [] \<Longrightarrow> rb_joinMatchRQ rnd r = Inl AssertFailed"
  "randMatch rnd r = Inr m \<Longrightarrow>
     rb_unjoinMatchRQ rnd r = Inr [RSend (rb_session r) kJoinMatchRQ (UnjoinMatchRQ (rb_uid r) (rm_mid m) (rm_type m)) (rm_mid m)]"
  by (simp_all add: rb_joinMatchRQ_def rb_unjoinMatchRQ_def randMatch_def Let_def)

end
