(* ===== verification/HttpClient.thy ===== *)
theory HttpClient
  imports Prelude
begin

text \<open>
  The HTTP client thread of CPG/Http/HTTPClientManager.cpp: a queue of requests and a worker that
  performs them one after the other. The HTTP library is the argument \<open>perform\<close>: \<open>Inr\<close> with the content
  of the response, or \<open>Inl\<close> with the text of the exception it throws; callbacks do not throw. Both \<open>request\<close> and \<open>stop\<close> change the queue and notify under the
  mutex, and the worker waits with a predicate, so a waiting worker can go on exactly when the
  predicate holds. A step of the worker is what it does between two looks at shared state.
\<close>

record http_request =
  req_method :: string
  req_path :: string
  req_content :: string
  req_header :: "(string \<times> string) list"
  req_id :: nat

text \<open>Where the worker is: at the loop condition, in the wait, with a request taken (or none), or ended.\<close>

datatype http_worker = HLoop | HWait | HTaken "http_request option" | HEnded

record HTTPClientManager =
  http_requests :: "http_request list"
  http_stop :: bool
  http_worker :: http_worker
  http_asked :: "http_request list"
  http_answers :: "(http_request \<times> int \<times> string \<times> string) list"

definition HTTPClientManager_start :: HTTPClientManager where
  "HTTPClientManager_start =
     \<lparr>http_requests = [], http_stop = False, http_worker = HLoop, http_asked = [], http_answers = []\<rparr>"

definition http_request_add :: "http_request \<Rightarrow> HTTPClientManager \<Rightarrow> HTTPClientManager" where
  "http_request_add r h = h\<lparr>http_requests := http_requests h @ [r], http_asked := http_asked h @ [r]\<rparr>"

definition http_GET :: "string \<Rightarrow> string \<Rightarrow> (string \<times> string) list \<Rightarrow> nat \<Rightarrow> HTTPClientManager \<Rightarrow> HTTPClientManager" where
  "http_GET path content header i =
     http_request_add \<lparr>req_method = ''GET'', req_path = path, req_content = content, req_header = header, req_id = i\<rparr>"

definition http_POST :: "string \<Rightarrow> string \<Rightarrow> (string \<times> string) list \<Rightarrow> nat \<Rightarrow> HTTPClientManager \<Rightarrow> HTTPClientManager" where
  "http_POST path content header i =
     http_request_add \<lparr>req_method = ''POST'', req_path = path, req_content = content, req_header = header, req_id = i\<rparr>"

definition http_do_stop :: "HTTPClientManager \<Rightarrow> HTTPClientManager" where
  "http_do_stop h = h\<lparr>http_stop := True\<rparr>"

text \<open>The end of the locked part: take the first request if there is one.\<close>

definition http_take :: "HTTPClientManager \<Rightarrow> HTTPClientManager" where
  "http_take h = (case http_requests h of
     [] \<Rightarrow> h\<lparr>http_worker := HTaken None\<rparr>
   | r # rs \<Rightarrow> h\<lparr>http_requests := rs, http_worker := HTaken (Some r)\<rparr>)"

definition answer_of :: "(http_request \<Rightarrow> string + string) \<Rightarrow> http_request \<Rightarrow> http_request \<times> int \<times> string \<times> string" where
  "answer_of perform r = (case perform r of Inr content \<Rightarrow> (r, 0, [], content) | Inl what \<Rightarrow> (r, - 1, what, []))"

definition http_run :: "(http_request \<Rightarrow> string + string) \<Rightarrow> HTTPClientManager \<Rightarrow> HTTPClientManager option" where
  "http_run perform h = (case http_worker h of
     HLoop \<Rightarrow>
       Some (if http_stop h then h\<lparr>http_worker := HEnded\<rparr>
             else if http_requests h = [] then h\<lparr>http_worker := HWait\<rparr>
             else http_take h)
   | HWait \<Rightarrow> if http_requests h \<noteq> [] \<or> http_stop h then Some (http_take h) else None
   | HTaken req \<Rightarrow>
       Some (case req of
           Some r \<Rightarrow> if http_stop h then h\<lparr>http_worker := HLoop\<rparr>
                      else h\<lparr>http_worker := HLoop, http_answers := http_answers h @ [answer_of perform r]\<rparr>
         | None \<Rightarrow> h\<lparr>http_worker := HLoop\<rparr>)
   | HEnded \<Rightarrow> None)"

inductive http_reachable :: "(http_request \<Rightarrow> string + string) \<Rightarrow> HTTPClientManager \<Rightarrow> bool" for perform where
  http_begin: "http_reachable perform HTTPClientManager_start"
| http_ask: "http_reachable perform h \<Longrightarrow> http_reachable perform (http_request_add r h)"
| http_halt: "http_reachable perform h \<Longrightarrow> http_reachable perform (http_do_stop h)"
| http_work: "http_reachable perform h \<Longrightarrow> http_run perform h = Some h' \<Longrightarrow> http_reachable perform h'"

fun in_hand :: "http_worker \<Rightarrow> http_request list" where
  "in_hand (HTaken (Some r)) = [r]"
| "in_hand _ = []"

definition http_inv :: "(http_request \<Rightarrow> string + string) \<Rightarrow> HTTPClientManager \<Rightarrow> bool" where
  "http_inv perform h \<longleftrightarrow> http_answers h = map (answer_of perform) (map fst (http_answers h)) \<and>
     (\<exists>rest. http_asked h = map fst (http_answers h) @ rest \<and>
        (http_stop h \<or> rest = in_hand (http_worker h) @ http_requests h))"

lemma fst_answer [simp]: "fst (answer_of perform r) = r"
  by (simp add: answer_of_def split: sum.split)

lemma http_run_cases:
  assumes "http_run perform h = Some h'"
  obtains (take_one) "h' = http_take h" "in_hand (http_worker h) = []"
    | (move) w where "h' = h\<lparr>http_worker := w\<rparr>" "http_stop h \<or> in_hand (http_worker h) = in_hand w"
    | (answer) r where "http_worker h = HTaken (Some r)" "h' = h\<lparr>http_worker := HLoop, http_answers := http_answers h @ [answer_of perform r]\<rparr>"
        "\<not> http_stop h"
  using assms by (auto simp: http_run_def split: http_worker.splits option.splits if_splits)

lemma http_run_inv:
  assumes "http_run perform h = Some h'" and "http_inv perform h"
  shows "http_inv perform h'"
  using assms(1)
proof (cases rule: http_run_cases)
  case take_one
  then show ?thesis
    using assms(2) by (auto simp: http_inv_def http_take_def split: list.splits)
next
  case (move w)
  then show ?thesis
    using assms(2) by (auto simp: http_inv_def)
next
  case (answer r)
  then show ?thesis
    using assms(2) by (simp add: http_inv_def)
qed

lemma http_reachable_inv: "http_reachable perform h \<Longrightarrow> http_inv perform h"
proof (induction rule: http_reachable.induct)
  case http_begin
  then show ?case
    by (simp add: http_inv_def HTTPClientManager_start_def)
next
  case (http_ask h r)
  then show ?case
    by (auto simp: http_inv_def http_request_add_def)
next
  case (http_halt h)
  then show ?case
    by (auto simp: http_inv_def http_do_stop_def)
qed (blast intro: http_run_inv)

section \<open>Properties\<close>


definition sample_http :: HTTPClientManager where
  "sample_http = http_do_stop (http_GET ''/match/list'' [] [] 1 HTTPClientManager_start)"


end
