(* ===== verification/QueryParams.thy ===== *)
theory QueryParams
  imports MatchProfile
begin

text \<open>
  The query parser of the web interface (\<open>getQueryParams\<close> of CSWebServer.cpp): the regular expression
  \<open>(^|&)([^=&]*)=?([^=&]*)(?=(&|$))\<close> with its iterator. A greedy part of the expression is the list of
  its ways to match in the order a backtracking matcher tries them, so the first element of the list
  for the whole expression is the match. The anchors are those of a text without line breaks.
\<close>

section \<open>The expression\<close>

definition query_plain :: "char \<Rightarrow> bool" where
  "query_plain c \<longleftrightarrow> c \<noteq> CHR ''='' \<and> c \<noteq> CHR ''&''"

text \<open>\<open>[^=&]*\<close>: what is matched and what is left, the longest match first.\<close>

fun plain_star :: "string \<Rightarrow> (string \<times> string) list" where
  "plain_star [] = [([], [])]"
| "plain_star (c # s) = (if query_plain c then map (\<lambda>(p, r). (c # p, r)) (plain_star s) else []) @ [([], c # s)]"

text \<open>\<open>=?\<close>\<close>

definition equals_opt :: "string \<Rightarrow> string list" where
  "equals_opt s = (if s \<noteq> [] \<and> hd s = CHR ''='' then [tl s] else []) @ [s]"

text \<open>\<open>(?=(&|$))\<close>\<close>

definition param_ends :: "string \<Rightarrow> bool" where
  "param_ends s \<longleftrightarrow> s = [] \<or> hd s = CHR ''&''"

text \<open>The groups 2 and 3, and what is left behind the match.\<close>

definition param_body :: "string \<Rightarrow> (string \<times> string \<times> string) list" where
  "param_body s =
     concat (map (\<lambda>(k, s1). concat (map (\<lambda>s2. map (\<lambda>(v, r). (k, v, r)) (filter (\<lambda>(v, r). param_ends r) (plain_star s2)))
       (equals_opt s1))) (plain_star s))"

text \<open>\<open>(^|&)\<close>; \<open>first\<close> says that the text starts here.\<close>

definition param_at :: "bool \<Rightarrow> string \<Rightarrow> (string \<times> string \<times> string) list" where
  "param_at first s =
     (if first then param_body s else []) @ (if s \<noteq> [] \<and> hd s = CHR ''&'' then param_body (tl s) else [])"

fun param_search :: "bool \<Rightarrow> string \<Rightarrow> (string \<times> string \<times> string) option" where
  "param_search first [] = (case param_at first [] of [] \<Rightarrow> None | m # ms \<Rightarrow> Some m)"
| "param_search first (c # s) = (case param_at first (c # s) of [] \<Rightarrow> param_search False s | m # ms \<Rightarrow> Some m)"

text \<open>The iterator. After an empty match, which only the start of the text allows, it looks for a match
  that is not empty at the same place, and only then goes on behind the next character.\<close>

function param_matches :: "bool \<Rightarrow> string \<Rightarrow> (string \<times> string) list" where
  "param_matches first s = (case param_search first s of
     None \<Rightarrow> []
   | Some (k, v, r) \<Rightarrow> (k, v) #
       (if length r < length s then param_matches False r
        else if s = [] then []
        else (case filter (\<lambda>(k, v, r). length r < length s) (param_at first s) of
            (k, v, r) # ms \<Rightarrow> (if length r < length s then (k, v) # param_matches False r else [])
          | [] \<Rightarrow> param_matches False (tl s))))"
  by pat_completeness auto
termination
  by (relation "measure (\<lambda>(first, s). length s)") auto

declare param_matches.simps [simp del]

definition getQueryParams :: "string \<Rightarrow> dict" where
  "getQueryParams s = fold (\<lambda>(k, v) m. if k = [] then m else om_insert id k v m) (param_matches True s) []"

section \<open>Matching\<close>

lemma plain_star_first:
  "list_all query_plain p \<Longrightarrow> r = [] \<or> \<not> query_plain (hd r) \<Longrightarrow> \<exists>ms. plain_star (p @ r) = (p, r) # ms"
proof (induction p)
  case Nil
  then show ?case
    by (cases r) auto
next
  case (Cons c p)
  then show ?case
    by auto
qed

lemma plain_star_sound: "(p, r) \<in> set (plain_star s) \<Longrightarrow> s = p @ r \<and> list_all query_plain p"
  by (induction s arbitrary: p) (auto split: if_splits)

lemma param_ends_plain: "param_ends r \<Longrightarrow> r = [] \<or> \<not> query_plain (hd r)"
  by (auto simp: param_ends_def query_plain_def)

lemma param_body_first:
  assumes "list_all query_plain k" "list_all query_plain v" "param_ends r"
  shows "\<exists>ms. param_body (k @ ''='' @ v @ r) = (k, v, r) # ms"
proof -
  obtain ks where "plain_star (k @ ''='' @ v @ r) = (k, ''='' @ v @ r) # ks"
    using plain_star_first [OF assms(1), of "''='' @ v @ r"] by (auto simp: query_plain_def)
  moreover obtain vs where "plain_star (v @ r) = (v, r) # vs"
    using plain_star_first [OF assms(2) param_ends_plain [OF assms(3)]] by blast
  ultimately show ?thesis
    using assms(3) by (simp add: param_body_def equals_opt_def)
qed

lemma param_body_sound:
  assumes "(k, v, r) \<in> set (param_body s)"
  shows "(s = k @ v @ r \<or> s = k @ ''='' @ v @ r) \<and> list_all query_plain k \<and> list_all query_plain v \<and> param_ends r"
proof -
  obtain s1 s2 where "(k, s1) \<in> set (plain_star s)" "s2 \<in> set (equals_opt s1)" "(v, r) \<in> set (plain_star s2)" "param_ends r"
    using assms by (auto simp: param_body_def)
  then show ?thesis
    using plain_star_sound by (cases s1) (force simp: equals_opt_def split: if_splits)+
qed

text \<open>A query text: parameters joined by ampersands.\<close>

fun query_tail :: "(string \<times> string) list \<Rightarrow> string" where
  "query_tail [] = []"
| "query_tail ((k, v) # ps) = ''&'' @ k @ ''='' @ v @ query_tail ps"

definition query_text :: "(string \<times> string) list \<Rightarrow> string" where
  "query_text ps = tl (query_tail ps)"

definition plain_params :: "(string \<times> string) list \<Rightarrow> bool" where
  "plain_params ps \<longleftrightarrow> list_all (\<lambda>(k, v). k \<noteq> [] \<and> list_all query_plain k \<and> list_all query_plain v) ps"

lemma query_tail_ends: "param_ends (query_tail ps)"
  by (induction ps rule: query_tail.induct) (simp_all add: param_ends_def)

lemma param_matches_tail: "plain_params ps \<Longrightarrow> param_matches False (query_tail ps) = ps"
proof (induction ps rule: query_tail.induct)
  case 1
  then show ?case
    by (simp add: param_matches.simps param_at_def)
next
  case (2 k v ps)
  obtain ms where "param_body (k @ ''='' @ v @ query_tail ps) = (k, v, query_tail ps) # ms"
    using param_body_first [of k v "query_tail ps"] query_tail_ends 2 by (auto simp: plain_params_def)
  then have "param_search False (query_tail ((k, v) # ps)) = Some (k, v, query_tail ps)"
    by (simp add: param_at_def)
  then show ?case
    using 2 by (subst param_matches.simps) (simp add: plain_params_def)
qed

lemma param_matches_text:
  assumes "plain_params ps" and "ps \<noteq> []"
  shows "param_matches True (query_text ps) = ps"
proof -
  obtain k v qs where ps: "ps = (k, v) # qs"
    using assms(2) by (cases ps) auto
  let ?s = "k @ ''='' @ v @ query_tail qs"
  obtain ms where "param_body ?s = (k, v, query_tail qs) # ms"
    using param_body_first [of k v "query_tail qs"] query_tail_ends assms(1) ps by (auto simp: plain_params_def)
  then have "param_search True ?s = Some (k, v, query_tail qs)"
    by (cases ?s) (simp_all add: param_at_def)
  moreover have "query_text ps = ?s"
    by (simp add: query_text_def ps)
  moreover have "param_matches False (query_tail qs) = qs"
    using assms(1) ps by (simp add: param_matches_tail plain_params_def)
  ultimately show ?thesis
    by (subst param_matches.simps) (simp add: ps)
qed

lemma params_collected:
  "plain_params ps \<Longrightarrow> fold (\<lambda>(k, v) m. if k = [] then m else om_insert id k v m) ps m = fold (\<lambda>(k, v). om_insert id k v) ps m"
  by (induction ps arbitrary: m) (auto simp: plain_params_def)

section \<open>Properties\<close>

text \<open>C39: Parsing a query text gives its parameters: for every list of parameters with keys that are not
  empty and no ampersand or equals sign in keys and values, the map holds under each key its first
  value, and nothing else.\<close>

theorem query_round_trip:
  assumes "plain_params ps"
  shows "om_lookup id (getQueryParams (query_text ps)) = map_of ps"
proof (cases "ps = []")
  case True
  then show ?thesis
    by (simp add: getQueryParams_def query_text_def param_matches.simps param_at_def param_body_def equals_opt_def
        param_ends_def om_lookup_def om_find_def fun_eq_iff)
next
  case False
  have "om_lookup id (fold (\<lambda>(k, v). om_insert id k v) ps []) = map_of (map (apfst id) ps) ++ om_lookup id ([] :: dict)"
    by (rule om_lookup_fold_insert [OF om_ok_Nil, THEN conjunct2])
  then show ?thesis
    using assms False by (simp add: getQueryParams_def param_matches_text params_collected om_lookup_def om_find_def
        map_add_def apfst_def prod.map_id0)
qed

theorem query_round_trip_witness:
  "om_lookup id (getQueryParams (query_text [(''mid'', ''7''), (''name'', ''cup''), (''mid'', ''8'')])) ''mid'' = Some ''7''"
proof -
  have "plain_params [(''mid'', ''7''), (''name'', ''cup''), (''mid'', ''8'')]"
    by (simp add: plain_params_def query_plain_def)
  then show ?thesis
    using query_round_trip [of "[(''mid'', ''7''), (''name'', ''cup''), (''mid'', ''8'')]"] by simp
qed

text \<open>A parameter whose value contains an equals sign, as a JSON text in a query easily does, is dropped
  without an error: the expression then matches nowhere.\<close>

lemma param_matches_none: "param_search first s = None \<Longrightarrow> param_matches first s = []"
  by (simp add: param_matches.simps)

lemma param_search_no_ampersand:
  "list_all (\<lambda>c. c \<noteq> CHR ''&'') s \<Longrightarrow> param_search False s = None"
  by (induction s) (auto simp: param_at_def)

lemma plain_count: "list_all query_plain s \<Longrightarrow> count_list s CHR ''='' = 0"
  by (induction s) (auto simp: query_plain_def)

lemma equals_in_value_is_dropped:
  assumes "list_all (\<lambda>c. c \<noteq> CHR ''&'') s" and "1 < count_list s CHR ''=''"
  shows "getQueryParams s = []"
proof -
  obtain c s' where s: "s = c # s'" "c \<noteq> CHR ''&''"
    using assms by (cases s) auto
  have "param_body s = []"
  proof (rule ccontr)
    assume "param_body s \<noteq> []"
    then obtain k v r where m: "(k, v, r) \<in> set (param_body s)"
      by (cases "param_body s") auto
    have r: "r = []"
      using param_body_sound [OF m] assms(1) by (cases r) (auto simp: param_ends_def)
    show False
      using param_body_sound [OF m] assms(2) plain_count [of k] plain_count [of v] by (auto simp: r)
  qed
  then have "param_search True s = None"
    using s assms(1) param_search_no_ampersand [of s'] by (simp add: param_at_def)
  then show ?thesis
    by (simp add: getQueryParams_def param_matches_none)
qed

end
