(* ===== verification/NetUtil.thy ===== *)
theory NetUtil
  imports Decimal
begin

text \<open>
  Small helpers of the network library: the event loop of each thread (Net/Conv.cpp), the round robin
  over event loops (Net/IOContextPool.hpp), the static memory for parsed messages
  (Net/Util/ParseProto.hpp and .cpp) and \<open>jointContainer\<close> of CPG/Util/ConvFunctional.hpp. Threads are
  named by their \<open>pthread_t\<close>, event loops by the order of their construction.
\<close>

section \<open>The event loop of a thread\<close>

record Conv =
  ioContexts :: "int \<Rightarrow> nat option"
  nameThreads :: "string \<Rightarrow> int option"
  contextsMade :: nat

definition Conv_new :: Conv where
  "Conv_new = \<lparr>ioContexts = Map.empty, nameThreads = Map.empty, contextsMade = 0\<rparr>"

text \<open>\<open>operator[]\<close> constructs the event loop of a thread that has none.\<close>

definition getIoContext :: "int \<Rightarrow> Conv \<Rightarrow> nat \<times> Conv" where
  "getIoContext self c = (case ioContexts c self of
     Some x \<Rightarrow> (x, c)
   | None \<Rightarrow> (contextsMade c,
       c\<lparr>ioContexts := (ioContexts c)(self \<mapsto> contextsMade c), contextsMade := Suc (contextsMade c)\<rparr>))"

definition hasIoContext :: "int \<Rightarrow> Conv \<Rightarrow> bool" where
  "hasIoContext self c \<longleftrightarrow> ioContexts c self \<noteq> None"

definition getIoContext_id :: "int \<Rightarrow> Conv \<Rightarrow> (nat \<times> Conv) result" where
  "getIoContext_id tid c = rassert (ioContexts c tid \<noteq> None) (Inr (getIoContext tid c))"

definition getIoContext_name :: "string \<Rightarrow> Conv \<Rightarrow> (nat \<times> Conv) result" where
  "getIoContext_name nm c = (case nameThreads c nm of
     None \<Rightarrow> Inl AssertFailed
   | Some tid \<Rightarrow> Inr (getIoContext tid c))"

definition setCurThreadName :: "int \<Rightarrow> string \<Rightarrow> Conv \<Rightarrow> Conv" where
  "setCurThreadName self nm c = c\<lparr>nameThreads := (nameThreads c)(nm \<mapsto> self)\<rparr>"

section \<open>The pool of event loops\<close>

text \<open>\<open>IOContextPool(num)\<close>: the position in the vector of \<open>num\<close> event loops. \<open>curIndex_ %= 0\<close> is undefined.\<close>

definition getNextIOContext :: "nat \<Rightarrow> nat \<Rightarrow> (nat \<times> nat) result" where
  "getNextIOContext num curIndex =
     (let index = curIndex
      in if num = 0 then Inl DivByZero
         else let curIndex = (curIndex + 1) mod num
           in if index < num then Inr (index, curIndex) else Inl OutOfBounds)"

definition getIOContext_at :: "nat \<Rightarrow> int \<Rightarrow> nat result" where
  "getIOContext_at num index =
     rassert (index \<ge> 0) (if num = 0 then Inl DivByZero else Inr (nat index mod num))"

fun next_contexts :: "nat \<Rightarrow> nat \<Rightarrow> nat \<Rightarrow> (nat list \<times> nat) result" where
  "next_contexts num 0 cur = Inr ([], cur)"
| "next_contexts num (Suc k) cur = rbind (getNextIOContext num cur) (\<lambda>(x, cur).
     rbind (next_contexts num k cur) (\<lambda>(xs, cur). Inr (x # xs, cur)))"

section \<open>Memory for parsed messages\<close>

text \<open>Where a parsed message lives: in the one static block or in memory of its own.\<close>

datatype msg_place = BigMemory | OwnMemory

record ParseProto =
  bigMemoryIsUse :: bool
  parsedMsgs :: "(nat \<times> msg_place) list"

definition ParseProto_new :: ParseProto where
  "ParseProto_new = \<lparr>bigMemoryIsUse = False, parsedMsgs = []\<rparr>"

text \<open>The deleter of a message in the static block gives the block back.\<close>

definition drop_msg :: "nat \<Rightarrow> ParseProto \<Rightarrow> ParseProto" where
  "drop_msg i st =
     st\<lparr>bigMemoryIsUse := (if (i, BigMemory) \<in> set (parsedMsgs st) then False else bigMemoryIsUse st),
        parsedMsgs := filter (\<lambda>m. fst m \<noteq> i) (parsedMsgs st)\<rparr>"

text \<open>\<open>parseProtoMsg\<close> for message number \<open>i\<close>; when the bytes do not parse, the message is dropped.\<close>

definition parseProtoMsg :: "bool \<Rightarrow> nat \<Rightarrow> ParseProto \<Rightarrow> msg_place option \<times> ParseProto" where
  "parseProtoMsg parses i st =
     (let place = (if bigMemoryIsUse st then OwnMemory else BigMemory);
          st1 = st\<lparr>parsedMsgs := (i, place) # parsedMsgs st\<rparr>
      in if parses then (Some place, st1) else (None, drop_msg i st1))"

section \<open>Printing containers\<close>

fun jointContainer :: "int list \<Rightarrow> string" where
  "jointContainer [] = []"
| "jointContainer (x # xs) = to_string x @ '', '' @ jointContainer xs"

section \<open>Properties\<close>

datatype conv_call = OwnLoop int | NameThread int string | LoopOf string

text \<open>The calls of threads; a lookup of an unknown name fails.\<close>

fun conv_op :: "conv_call \<Rightarrow> Conv \<Rightarrow> Conv result" where
  "conv_op (OwnLoop t) c = Inr (snd (getIoContext t c))"
| "conv_op (NameThread t nm) c = Inr (setCurThreadName t nm c)"
| "conv_op (LoopOf nm) c = rbind (getIoContext_name nm c) (\<lambda>(x, c). Inr c)"

definition conv_ok :: "Conv \<Rightarrow> bool" where
  "conv_ok c \<longleftrightarrow> inj_on (ioContexts c) (dom (ioContexts c)) \<and> (\<forall>t x. ioContexts c t = Some x \<longrightarrow> x < contextsMade c)"

lemma getIoContext_ok:
  assumes "conv_ok c"
  shows "conv_ok (snd (getIoContext t c))" "ioContexts c \<subseteq>\<^sub>m ioContexts (snd (getIoContext t c))"
    "ioContexts (snd (getIoContext t c)) t = Some (fst (getIoContext t c))"
    "nameThreads (snd (getIoContext t c)) = nameThreads c"
proof -
  show "conv_ok (snd (getIoContext t c))"
  proof (cases "ioContexts c t")
    case None
    then have "Some (contextsMade c) \<notin> ioContexts c ` dom (ioContexts c)"
      using assms by (force simp: conv_ok_def)
    then show ?thesis
      using assms None by (auto simp: getIoContext_def conv_ok_def inj_on_def less_Suc_eq dest: sym)
  qed (use assms in \<open>simp add: getIoContext_def\<close>)
qed (auto simp: getIoContext_def map_le_def split: option.split)

lemma getIoContext_name_ok:
  "getIoContext_name nm c = Inr (x, c') \<Longrightarrow> conv_ok c \<Longrightarrow> conv_ok c' \<and> ioContexts c \<subseteq>\<^sub>m ioContexts c'"
proof (cases "nameThreads c nm")
  case (Some t)
  moreover assume "getIoContext_name nm c = Inr (x, c')" "conv_ok c"
  ultimately show ?thesis
    using getIoContext_ok(1,2) [of c t] by (simp add: getIoContext_name_def)
qed (simp add: getIoContext_name_def)

lemma conv_op_ok: "conv_op e c = Inr c' \<Longrightarrow> conv_ok c \<Longrightarrow> conv_ok c' \<and> ioContexts c \<subseteq>\<^sub>m ioContexts c'"
proof (cases e)
  case (OwnLoop t)
  moreover assume "conv_op e c = Inr c'" "conv_ok c"
  ultimately show ?thesis
    using getIoContext_ok(1,2) [of c t] by auto
next
  case (LoopOf nm)
  moreover assume "conv_op e c = Inr c'" "conv_ok c"
  ultimately show ?thesis
    using getIoContext_name_ok by (cases "getIoContext_name nm c") auto
qed (auto simp: setCurThreadName_def conv_ok_def)

lemma conv_run_ok: "rfold conv_op es c = Inr c' \<Longrightarrow> conv_ok c \<Longrightarrow> conv_ok c' \<and> ioContexts c \<subseteq>\<^sub>m ioContexts c'"
proof (induction es arbitrary: c)
  case (Cons e es)
  obtain c1 where "conv_op e c = Inr c1" "rfold conv_op es c1 = Inr c'"
    using Cons.prems(1) by (cases "conv_op e c") auto
  then show ?case
    using conv_op_ok Cons.IH Cons.prems(2) map_le_trans by meson
qed simp

text \<open>Each thread has one event loop of its own: whatever the threads called before and call after it,
  the loop \<open>getIoContext\<close> gives a thread is the one it gets at every later call, no other thread gets
  it, and a lookup by the name a thread has last taken finds that loop.\<close>

theorem thread_has_its_own_loop:
  assumes "rfold conv_op es Conv_new = Inr c" and "getIoContext t c = (x, c1)" and "rfold conv_op es' c1 = Inr c2"
  shows "getIoContext t c2 = (x, c2) \<and> (\<forall>t'. t' \<noteq> t \<longrightarrow> fst (getIoContext t' c2) \<noteq> x) \<and>
    (\<forall>nm. nameThreads c2 nm = Some t \<longrightarrow> getIoContext_name nm c2 = Inr (x, c2))"
proof -
  have "conv_ok Conv_new"
    by (simp add: conv_ok_def Conv_new_def)
  then have "conv_ok c"
    using conv_run_ok assms(1) by blast
  then have c1: "conv_ok c1" "ioContexts c1 t = Some x"
    using getIoContext_ok [of c t] assms(2) by simp_all
  then have ok: "conv_ok c2" and "ioContexts c1 \<subseteq>\<^sub>m ioContexts c2"
    using conv_run_ok [OF assms(3)] by simp_all
  then have x: "ioContexts c2 t = Some x"
    using c1(2) by (metis domI map_le_def)
  have "fst (getIoContext t' c2) \<noteq> x" if "t' \<noteq> t" for t'
  proof (cases "ioContexts c2 t'")
    case None
    then show ?thesis
      using ok x by (auto simp: getIoContext_def conv_ok_def)
  next
    case (Some y)
    then show ?thesis
      using ok x that inj_onD [of "ioContexts c2" "dom (ioContexts c2)" t' t]
      by (auto simp: getIoContext_def conv_ok_def)
  qed
  then show ?thesis
    using x by (auto simp: getIoContext_def getIoContext_name_def)
qed

theorem thread_has_its_own_loop_witness:
  "\<exists>x c2. rfold conv_op [OwnLoop 1, NameThread 2 ''db'', OwnLoop 2, OwnLoop 3] Conv_new = Inr c2 \<and>
     getIoContext_name ''db'' c2 = Inr (x, c2) \<and> fst (getIoContext 3 c2) \<noteq> x"
proof -
  obtain c where c: "rfold conv_op [OwnLoop 1, NameThread 2 ''db''] Conv_new = Inr c"
    by simp
  obtain x c1 where c1: "getIoContext 2 c = (x, c1)"
    by (cases "getIoContext 2 c")
  obtain c2 where c2: "rfold conv_op [OwnLoop 3] c1 = Inr c2"
    by simp
  have "nameThreads c ''db'' = Some 2"
    using c by (auto simp: setCurThreadName_def)
  then have "nameThreads c2 ''db'' = Some 2"
    using c1 c2 by (auto simp: getIoContext_def split: option.splits)
  then show ?thesis
    using thread_has_its_own_loop [OF c c1 c2] c c1 c2 by (intro exI [of _ x] exI [of _ c2]) auto
qed

text \<open>Handing out event loops takes them in turn.\<close>

lemma round_robin:
  "cur < num \<Longrightarrow> next_contexts num k cur = Inr (map (\<lambda>i. (cur + i) mod num) [0..<k], (cur + k) mod num)"
proof (induction k arbitrary: cur)
  case (Suc k)
  have shift: "map (\<lambda>i. (cur + i) mod num) [0..<Suc k] = cur # map (\<lambda>i. (Suc cur mod num + i) mod num) [0..<k]"
    using Suc.prems by (simp add: map_upt_Suc mod_add_left_eq del: upt_Suc)
  have "Suc cur mod num < num" "(Suc cur mod num + k) mod num = (cur + Suc k) mod num"
    using Suc.prems by (simp_all add: mod_add_left_eq)
  then show ?case
    using Suc.IH [of "Suc cur mod num"] Suc.prems by (simp add: getNextIOContext_def shift del: upt_Suc)
qed simp

text \<open>The static block is never marked as in use, so every message parsed while another is alive lies in
  the same memory.\<close>

inductive parse_reachable :: "ParseProto \<Rightarrow> bool" where
  parse_begin: "parse_reachable ParseProto_new"
| parse_one: "parse_reachable st \<Longrightarrow> parse_reachable (snd (parseProtoMsg parses i st))"
| parse_drop: "parse_reachable st \<Longrightarrow> parse_reachable (drop_msg i st)"

lemma static_memory_is_shared:
  "parse_reachable st \<Longrightarrow> \<not> bigMemoryIsUse st \<and> (\<forall>m \<in> set (parsedMsgs st). snd m = BigMemory)"
  by (induction rule: parse_reachable.induct)
    (auto simp: ParseProto_new_def parseProtoMsg_def drop_msg_def Let_def)

end
