(* ===== verification/ServerStart.thy ===== *)
theory ServerStart
  imports CSKernel ServerConfig GateServer MatchServer LoginBalanceServers TCPEndpoints
begin

text \<open>
  How the servers start: \<open>start\<close> and \<open>runOneService\<close> of GSKernel.cpp, MSKernel.cpp, LSKernel.cpp and
  BSKernel.cpp, the main program of the central server, and the timers for heartbeats
  (\<open>initialize\<close> of the session managers and \<open>sendHeartBeat\<close> of CPGToCentralSession.cpp).

  \<open>connect i n\<close> is the session the session manager makes for the \<open>n\<close>-th connection of the \<open>i\<close>-th
  process. A listener is its port and what the session factory of the kernel gives for its type.
  \<open>ends i\<close> says that the event loop started after the \<open>i\<close>-th process came to an end, which \<open>run\<close>
  does only when nothing is left to wait for.
\<close>

section \<open>Starting a process\<close>

type_synonym started_port = "int \<times> int option"

definition connect_info :: "ServerNetInfo \<Rightarrow> ConnServer" where
  "connect_info c = \<lparr>cs_type = ni_type c, cs_port = ni_port c, cs_sid = INVALID_LID, cs_ip = ni_ip c\<rparr>"

definition open_ports :: "(int \<Rightarrow> int option) \<Rightarrow> ConfigInfo \<Rightarrow> started_port list" where
  "open_ports factory info = map (\<lambda>l. (ni_port l, factory (ni_type l))) (ci_listenInfos info)"

definition runOneService where
  "runOneService upd factory connect info st =
     rbind (netInitializer upd connect (map connect_info (ci_connectInfos info)) (snd st)) (\<lambda>(k, cmds).
       Inr (fst st @ open_ports factory info, k))"

text \<open>The loop of \<open>start\<close> on gate and match server.\<close>

fun run_services ::
  "(session_ref \<Rightarrow> ServiceState \<Rightarrow> 'a ServiceKernel_scheme \<Rightarrow> 'a ServiceKernel_scheme) \<Rightarrow> (int \<Rightarrow> int option) \<Rightarrow>
   (nat \<Rightarrow> nat \<Rightarrow> int \<Rightarrow> session_ref option) \<Rightarrow> nat \<Rightarrow> ConfigInfo list \<Rightarrow> started_port list \<times> 'a ServiceKernel_scheme \<Rightarrow>
   (started_port list \<times> 'a ServiceKernel_scheme) result" where
  "run_services upd factory connect i [] st = Inr st"
| "run_services upd factory connect i (info # rest) st =
     rbind (runOneService upd factory (connect i) info st) (run_services upd factory connect (Suc i) rest)"

text \<open>On login and balance server \<open>runOneService\<close> itself runs the event loop. The flag says whether
  \<open>start\<close> has returned.\<close>

fun run_blocking ::
  "(session_ref \<Rightarrow> ServiceState \<Rightarrow> 'a ServiceKernel_scheme \<Rightarrow> 'a ServiceKernel_scheme) \<Rightarrow> (int \<Rightarrow> int option) \<Rightarrow>
   (nat \<Rightarrow> nat \<Rightarrow> int \<Rightarrow> session_ref option) \<Rightarrow> (nat \<Rightarrow> bool) \<Rightarrow> nat \<Rightarrow> ConfigInfo list \<Rightarrow>
   started_port list \<times> 'a ServiceKernel_scheme \<Rightarrow> ((started_port list \<times> 'a ServiceKernel_scheme) \<times> bool) result" where
  "run_blocking upd factory connect ends i [] st = Inr (st, True)"
| "run_blocking upd factory connect ends i (info # rest) st =
     rbind (runOneService upd factory (connect i) info st) (\<lambda>st.
       if ends i then run_blocking upd factory connect ends (Suc i) rest st else Inr (st, False))"

text \<open>\<open>setType\<close> and \<open>configForType\<close>, which all of them begin with.\<close>

definition own_config :: "int \<Rightarrow> ServerConfigManager \<Rightarrow> ServerNetConfig result" where
  "own_config t manager = rbind (cfg_setType t manager) (\<lambda>manager.
     case configForType t (cfg_services manager) of Some config \<Rightarrow> Inr config | None \<Rightarrow> Inl AssertFailed)"

definition gs_start where
  "gs_start connect manager k = rbind (own_config ServerType_GateServer manager) (\<lambda>config.
     run_services gs_updateServiceConnect gs_sessionFactory connect 0 (nc_infos config) ([], k))"

definition ms_start where
  "ms_start connect manager k = rbind (own_config ServerType_MatchServer manager) (\<lambda>config.
     run_services ms_updateServiceConnect ms_sessionFactory connect 0 (nc_infos config) ([], k))"

definition ls_start where
  "ls_start connect ends manager k = rbind (own_config ServerType_LoginServer manager) (\<lambda>config.
     run_blocking ls_updateServiceConnect ls_sessionFactory connect ends 0 (nc_infos config) ([], k))"

definition bs_start where
  "bs_start connect ends manager k = rbind (own_config ServerType_BalanceServer manager) (\<lambda>config.
     run_blocking bs_updateServiceConnect bs_sessionFactory connect ends 0 (nc_infos config) ([], k))"

text \<open>The main program of the central server. It sets the type of a match server, which only has to
  be configured, and starts the kernel if exactly one process is configured.\<close>

definition listener_of :: "ServerNetInfo \<Rightarrow> Listener" where
  "listener_of l = \<lparr>l_type = ni_type l, l_port = ni_port l, l_ip = ni_ip l\<rparr>"

definition cs_main :: "int \<Rightarrow> ServerConfigManager \<Rightarrow> CSKernel \<Rightarrow> (started_port list \<times> CSKernel) result" where
  "cs_main now manager k = rbind (cfg_setType ServerType_MatchServer manager) (\<lambda>manager.
     case configForType ServerType_CentralServer (cfg_services manager) of
       None \<Rightarrow> Inr ([], k)
     | Some config \<Rightarrow> (case nc_infos config of
         [info] \<Rightarrow> Inr (open_ports cs_sessionFactory info, cs_start now (map listener_of (ci_listenInfos info)) k)
       | _ \<Rightarrow> Inr ([], k)))"

section \<open>Timers\<close>

text \<open>Durations are given in seconds; the clock of the timers counts milliseconds.\<close>

definition S2M :: "int \<Rightarrow> int" where
  "S2M s = s * 1000"

definition cs_initialize :: "int option list \<Rightarrow> int \<Rightarrow> int list \<times> bool" where
  "cs_initialize evs now = createTimer evs now (S2M kServerHeartBeatDuration) (S2M kServerHeartBeatDuration) INT_MAX"

definition gs_initialize :: "int option list \<Rightarrow> int \<Rightarrow> int list \<times> bool" where
  "gs_initialize evs now = createTimer evs now (S2M kClientHeartBeatDuration) (S2M kClientHeartBeatDuration) INT_MAX"

text \<open>The times at which a server sends a heartbeat to the central server. A timer of an earlier connection
  is cancelled first: its list of events ends there.\<close>

definition sendHeartBeat :: "int option list \<Rightarrow> int \<Rightarrow> int list \<times> bool" where
  "sendHeartBeat evs now = createTimer evs now (S2M kServerHeartBeatDuration) (S2M kServerHeartBeatDuration) INT_MAX"

section \<open>What is connected\<close>

definition target :: "ServiceConfig \<Rightarrow> int \<times> int \<times> string" where
  "target c = (sc_type c, sc_port c, sc_ip c)"

definition wanted :: "ServerNetInfo \<Rightarrow> int \<times> int \<times> string" where
  "wanted c = (short_of (ni_type c), ushort_of (ni_port c), ni_ip c)"

definition connected_to :: "'a ServiceKernel_scheme \<Rightarrow> (int \<times> int \<times> string) list" where
  "connected_to k = map (target \<circ> snd) (connectServices k)"

lemma update_new: "u \<notin> fst ` set al \<Longrightarrow> AList.update u c al = al @ [(u, c)]"
  by (induction al) auto

context service_callback
begin

lemma connect_all_new:
  assumes "\<forall>c \<in> set cs. cs_sid c = INVALID_LID"
    and "\<forall>j. j < length cs \<longrightarrow> (\<exists>session. connect (n + j) (short_of (cs_type (cs ! j))) = Some session \<and>
      ref_uuid session = f (n + j))"
    and "inj_on f {n..<n + length cs}" and "\<forall>j \<in> {n..<n + length cs}. f j \<notin> fst ` set (connectServices k)"
  shows "\<exists>k'. connect_all upd connect cs n k = Inr (k', []) \<and>
    connected_to k' = connected_to k @ map (\<lambda>c. (short_of (cs_type c), ushort_of (cs_port c), cs_ip c)) cs \<and>
    fst ` set (connectServices k') = fst ` set (connectServices k) \<union> f ` {n..<n + length cs}"
  using assms
proof (induction cs arbitrary: n k)
  case (Cons c cs)
  obtain session where s: "connect n (short_of (cs_type c)) = Some session" "ref_uuid session = f n"
    using Cons.prems(2) [rule_format, of 0] by auto
  have new: "f n \<notin> fst ` set (connectServices k)"
    using Cons.prems(4) by simp
  let ?c = "\<lparr>sc_type = short_of (cs_type c), sc_port = ushort_of (cs_port c), sc_sid = INVALID_LID, sc_ip = cs_ip c,
      sc_session = Some session\<rparr>"
  let ?k = "upd session kConnect (k\<lparr>connectServices := connectServices k @ [(f n, ?c)]\<rparr>)"
  have step: "addNewConnect upd (connect n) (short_of (cs_type c)) (ushort_of (cs_port c)) (cs_sid c) (cs_ip c) k = Inr (?k, [])"
    using s Cons.prems(1) update_new [OF new] by (simp add: addNewConnect_def INVALID_LID_def Let_def)
  have k: "connectServices ?k = connectServices k @ [(f n, ?c)]"
    by (simp add: upd_keeps)
  have range: "{n..<n + length (c # cs)} = insert n {Suc n..<Suc n + length cs}"
    by auto
  have "\<exists>k'. connect_all upd connect cs (Suc n) ?k = Inr (k', []) \<and>
    connected_to k' = connected_to ?k @ map (\<lambda>c. (short_of (cs_type c), ushort_of (cs_port c), cs_ip c)) cs \<and>
    fst ` set (connectServices k') = fst ` set (connectServices ?k) \<union> f ` {Suc n..<Suc n + length cs}"
  proof (rule Cons.IH)
    show "\<forall>j. j < length cs \<longrightarrow> (\<exists>session. connect (Suc n + j) (short_of (cs_type (cs ! j))) = Some session \<and>
      ref_uuid session = f (Suc n + j))"
      using Cons.prems(2) by (metis Suc_less_eq add_Suc_right add_Suc_shift length_Cons nth_Cons_Suc)
    show "inj_on f {Suc n..<Suc n + length cs}"
      using Cons.prems(3) unfolding range by (rule inj_on_subset) auto
    show "\<forall>j \<in> {Suc n..<Suc n + length cs}. f j \<notin> fst ` set (connectServices ?k)"
      using Cons.prems(3,4) unfolding range k by (auto simp: inj_on_def)
  qed (use Cons.prems(1) in simp)
  then show ?case
    using step k unfolding range by (auto simp: connected_to_def target_def)
qed (simp add: connected_to_def)

lemma runOneService_new:
  assumes "\<And>n t. \<exists>session. connect n t = Some session \<and> ref_uuid session = f n" and "inj f"
    and "fst ` set (connectServices k) \<inter> range f = {}"
  shows "\<exists>k'. runOneService upd factory connect info (ls, k) = Inr (ls @ open_ports factory info, k') \<and>
    connected_to k' = connected_to k @ map wanted (ci_connectInfos info) \<and>
    fst ` set (connectServices k') \<subseteq> fst ` set (connectServices k) \<union> range f"
proof -
  let ?cs = "map connect_info (ci_connectInfos info)"
  have 1: "\<forall>c \<in> set ?cs. cs_sid c = INVALID_LID"
    by (simp add: connect_info_def)
  have 2: "\<forall>j. j < length ?cs \<longrightarrow>
      (\<exists>session. connect (0 + j) (short_of (cs_type (?cs ! j))) = Some session \<and> ref_uuid session = f (0 + j))"
    using assms(1) by simp
  have 3: "inj_on f {0..<0 + length ?cs}"
    using assms(2) by (rule inj_on_subset) simp
  have 4: "\<forall>j \<in> {0..<0 + length ?cs}. f j \<notin> fst ` set (connectServices k)"
    using assms(3) by blast
  obtain k' where k': "connect_all upd connect ?cs 0 k = Inr (k', [])"
      "connected_to k' = connected_to k @ map (\<lambda>c. (short_of (cs_type c), ushort_of (cs_port c), cs_ip c)) ?cs"
      "fst ` set (connectServices k') = fst ` set (connectServices k) \<union> f ` {0..<0 + length ?cs}"
    using connect_all_new [OF 1 2 3 4] by blast
  have "map (\<lambda>c. c\<lparr>cs_sid := INVALID_LID\<rparr>) ?cs = ?cs"
    and "map (\<lambda>c. (short_of (cs_type c), ushort_of (cs_port c), cs_ip c)) ?cs = map wanted (ci_connectInfos info)"
    by (simp_all add: connect_info_def wanted_def)
  then have "runOneService upd factory connect info (ls, k) = Inr (ls @ open_ports factory info, k')"
      "connected_to k' = connected_to k @ map wanted (ci_connectInfos info)"
    using k'(1,2) by (simp_all add: runOneService_def netInitializer_def del: map_map)
  then show ?thesis
    using k'(3) by blast
qed

lemma run_services_new:
  assumes "\<And>i n t. \<exists>session. connect i n t = Some session \<and> ref_uuid session = f (i, n)" and "inj f"
    and "fst ` set (connectServices k) \<inter> f ` ({i..} \<times> UNIV) = {}"
  shows "\<exists>k'. run_services upd factory connect i procs (ls, k) = Inr (ls @ concat (map (open_ports factory) procs), k') \<and>
    connected_to k' = connected_to k @ concat (map (\<lambda>info. map wanted (ci_connectInfos info)) procs)"
  using assms(3)
proof (induction procs arbitrary: i ls k)
  case (Cons info procs)
  have "range (\<lambda>n. f (i, n)) \<subseteq> f ` ({i..} \<times> UNIV)"
    by auto
  then have "fst ` set (connectServices k) \<inter> range (\<lambda>n. f (i, n)) = {}"
    using Cons.prems by blast
  moreover have "inj (\<lambda>n. f (i, n))"
    using assms(2) by (simp add: inj_def)
  ultimately have "\<exists>k1. runOneService upd factory (connect i) info (ls, k) = Inr (ls @ open_ports factory info, k1) \<and>
      connected_to k1 = connected_to k @ map wanted (ci_connectInfos info) \<and>
      fst ` set (connectServices k1) \<subseteq> fst ` set (connectServices k) \<union> range (\<lambda>n. f (i, n))"
    using assms(1) by (intro runOneService_new) auto
  then obtain k1 where k1: "runOneService upd factory (connect i) info (ls, k) = Inr (ls @ open_ports factory info, k1)"
      "connected_to k1 = connected_to k @ map wanted (ci_connectInfos info)"
      "fst ` set (connectServices k1) \<subseteq> fst ` set (connectServices k) \<union> range (\<lambda>n. f (i, n))"
    by blast
  have "range (\<lambda>n. f (i, n)) \<inter> f ` ({Suc i..} \<times> UNIV) = {}"
    using assms(2) by (auto dest: injD)
  moreover have "fst ` set (connectServices k) \<inter> f ` ({Suc i..} \<times> UNIV) = {}"
    using Cons.prems image_mono [of "{Suc i..} \<times> UNIV" "{i..} \<times> UNIV" f] by fastforce
  ultimately have "(fst ` set (connectServices k) \<union> range (\<lambda>n. f (i, n))) \<inter> f ` ({Suc i..} \<times> UNIV) = {}"
    by (simp only: Int_Un_distrib2 Un_empty)
  then have "fst ` set (connectServices k1) \<inter> f ` ({Suc i..} \<times> UNIV) = {}"
    using k1(3) by (meson disjoint_iff subset_iff)
  from Cons.IH [OF this, of "ls @ open_ports factory info"] show ?case
    unfolding run_services.simps k1(1) rbind_simps by (simp add: k1(2))
qed simp

end

text \<open>The configuration shipped with the servers (CPG/ServerConfig.json).\<close>

definition shipped_config :: "json_service list" where
  "shipped_config =
    [\<lparr>j_name = ''CS'', j_type = 5, j_info = [\<lparr>j_ip = ''127.0.0.1'', j_listen = [(1, 7851), (2, 7852), (3, 7853), (4, 7854)], j_connect = None\<rparr>]\<rparr>,
     \<lparr>j_name = ''MS'', j_type = 3, j_info =
       [\<lparr>j_ip = ''127.0.0.1'', j_listen = [(1, 7831)], j_connect = Some [5]\<rparr>,
        \<lparr>j_ip = ''127.0.0.1'', j_listen = [(1, 7832)], j_connect = Some [5]\<rparr>]\<rparr>,
     \<lparr>j_name = ''GS'', j_type = 1, j_info = [\<lparr>j_ip = ''127.0.0.1'', j_listen = [(0, 7811)], j_connect = Some [5, 3, 2]\<rparr>]\<rparr>,
     \<lparr>j_name = ''LS'', j_type = 2, j_info = [\<lparr>j_ip = ''127.0.0.1'', j_listen = [(1, 7821)], j_connect = Some [5]\<rparr>]\<rparr>,
     \<lparr>j_name = ''BS'', j_type = 4, j_info = [\<lparr>j_ip = ''127.0.0.1'', j_listen = [(0, 7841)], j_connect = Some [5]\<rparr>]\<rparr>]"

definition shipped_manager :: ServerConfigManager where
  "shipped_manager = ServerConfigManager_new shipped_config"

definition pair_uuid :: "nat \<times> nat \<Rightarrow> int" where
  "pair_uuid p = 2 ^ fst p * (2 * int (snd p) + 1)"

lemma pair_uuid_inj: "inj pair_uuid"
proof -
  have "i = j \<and> n = m" if "2 ^ i * (2 * int n + 1) = 2 ^ j * (2 * int m + 1)" for i j n m
    using that
  proof (induction i arbitrary: j)
    case 0
    show ?case
    proof (cases j)
      case (Suc j')
      then have "2 * int n + 1 = 2 * (2 ^ j' * (2 * int m + 1))"
        using 0 by simp
      then show ?thesis
        by presburger
    qed (use 0 in simp)
  next
    case (Suc i)
    show ?case
    proof (cases j)
      case 0
      then have "2 * (2 ^ i * (2 * int n + 1)) = 2 * int m + 1"
        using Suc.prems by simp
      then show ?thesis
        by presburger
    next
      case (Suc j')
      then show ?thesis
        using Suc.IH [of j'] Suc.prems by simp
    qed
  qed
  then show ?thesis
    by (auto simp: inj_def pair_uuid_def)
qed

definition fresh_session :: "nat \<Rightarrow> nat \<Rightarrow> int \<Rightarrow> session_ref option" where
  "fresh_session i n t = Some \<lparr>ref_uuid = pair_uuid (i, n), ref_type = t, ref_logicID = - 1\<rparr>"

lemma fresh_session_uuid: "\<exists>session. fresh_session i n t = Some session \<and> ref_uuid session = pair_uuid (i, n)"
  by (simp add: fresh_session_def)

lemma shipped_gate: "configForType ServerType_GateServer (cfg_services shipped_manager) = Some
  \<lparr>nc_type = 1, nc_name = ''GS'', nc_infos = [\<lparr>ci_ip = ''127.0.0.1'', ci_connectTypes = [5, 3, 2],
     ci_listenInfos = [\<lparr>ni_type = 0, ni_port = 7811, ni_ip = ''127.0.0.1''\<rparr>],
     ci_connectInfos = [\<lparr>ni_type = 5, ni_port = 7851, ni_ip = ''127.0.0.1''\<rparr>, \<lparr>ni_type = 3, ni_port = 7831, ni_ip = ''127.0.0.1''\<rparr>,
       \<lparr>ni_type = 3, ni_port = 7832, ni_ip = ''127.0.0.1''\<rparr>, \<lparr>ni_type = 2, ni_port = 7821, ni_ip = ''127.0.0.1''\<rparr>]\<rparr>]\<rparr>"
  by code_simp

lemma shipped_login: "configForType ServerType_LoginServer (cfg_services shipped_manager) = Some
  \<lparr>nc_type = 2, nc_name = ''LS'', nc_infos = [\<lparr>ci_ip = ''127.0.0.1'', ci_connectTypes = [5],
     ci_listenInfos = [\<lparr>ni_type = 1, ni_port = 7821, ni_ip = ''127.0.0.1''\<rparr>],
     ci_connectInfos = [\<lparr>ni_type = 5, ni_port = 7852, ni_ip = ''127.0.0.1''\<rparr>]\<rparr>]\<rparr>"
  by code_simp

section \<open>Properties of starting\<close>

lemma own_config_found: "configForType t (cfg_services manager) = Some config \<Longrightarrow> own_config t manager = Inr config"
  by (simp add: own_config_def cfg_setType_def)

text \<open>C16: A gate or match server starts as configured: every process configured for its type has its
  listeners opened, each with the sessions its kernel makes for the type of the listener, and is
  connected to each of its targets exactly once, in the order of the configuration.\<close>

theorem gate_and_match_start_all:
  assumes "\<And>i n t. \<exists>session. connect i n t = Some session \<and> ref_uuid session = f (i, n)" and "inj f"
  shows "(configForType ServerType_GateServer (cfg_services manager) = Some config \<longrightarrow>
      (\<exists>k. gs_start connect manager GSKernel_new = Inr (concat (map (open_ports gs_sessionFactory) (nc_infos config)), k) \<and>
        connected_to k = concat (map (\<lambda>info. map wanted (ci_connectInfos info)) (nc_infos config)))) \<and>
    (configForType ServerType_MatchServer (cfg_services manager) = Some config \<longrightarrow> connectServices k0 = [] \<longrightarrow>
      (\<exists>k. ms_start connect manager k0 = Inr (concat (map (open_ports ms_sessionFactory) (nc_infos config)), k) \<and>
        connected_to k = concat (map (\<lambda>info. map wanted (ci_connectInfos info)) (nc_infos config))))"
proof -
  have gs: "\<exists>k. run_services gs_updateServiceConnect gs_sessionFactory connect 0 ps ([], GSKernel_new) =
      Inr (concat (map (open_ports gs_sessionFactory) ps), k) \<and>
      connected_to k = concat (map (\<lambda>info. map wanted (ci_connectInfos info)) ps)" for ps
    using gs.run_services_new [OF assms, where i = 0 and k = GSKernel_new and ls = "[]" and procs = ps]
    by (simp add: GSKernel_new_def connected_to_def)
  have ms: "\<exists>k. run_services ms_updateServiceConnect ms_sessionFactory connect 0 ps ([], k0) =
      Inr (concat (map (open_ports ms_sessionFactory) ps), k) \<and>
      connected_to k = concat (map (\<lambda>info. map wanted (ci_connectInfos info)) ps)" if "connectServices k0 = []" for ps
    using ms.run_services_new [OF assms, where i = 0 and k = k0 and ls = "[]" and procs = ps] that
    by (simp add: connected_to_def)
  show ?thesis
    using gs ms by (simp add: gs_start_def ms_start_def own_config_found)
qed

theorem gate_and_match_start_all_witness:
  "\<exists>k. gs_start fresh_session shipped_manager GSKernel_new = Inr ([(7811, Some 0)], k) \<and>
     connected_to k = [(5, 7851, ''127.0.0.1''), (3, 7831, ''127.0.0.1''), (3, 7832, ''127.0.0.1''), (2, 7821, ''127.0.0.1'')]"
  using gate_and_match_start_all [where connect = fresh_session and f = pair_uuid and manager = shipped_manager,
      OF fresh_session_uuid pair_uuid_inj, THEN conjunct1, rule_format, OF shipped_gate]
  by (simp add: open_ports_def gs_sessionFactory_def ServerType_Client_def wanted_def short_of_def ushort_of_def)

text \<open>C17: A login or balance server with several configured processes starts only the first of them: its
  event loop runs inside the loop over the processes and goes on as long as the server listens.\<close>

theorem login_and_balance_start_one:
  assumes "\<And>i n t. \<exists>session. connect i n t = Some session \<and> ref_uuid session = f (i, n)" and "inj f"
    and "nc_infos config = info # rest" and "\<not> ends 0"
  shows "(configForType ServerType_LoginServer (cfg_services manager) = Some config \<longrightarrow>
      (\<exists>k. ls_start connect ends manager CentralClient_new = Inr ((open_ports ls_sessionFactory info, k), False) \<and>
        connected_to k = map wanted (ci_connectInfos info))) \<and>
    (configForType ServerType_BalanceServer (cfg_services manager) = Some config \<longrightarrow>
      (\<exists>k. bs_start connect ends manager CentralClient_new = Inr ((open_ports bs_sessionFactory info, k), False) \<and>
        connected_to k = map wanted (ci_connectInfos info)))"
proof -
  have f: "inj (\<lambda>n. f (0, n))"
    using assms(2) by (simp add: inj_def)
  have "\<exists>k. runOneService upd factory (connect 0) info ([], CentralClient_new) = Inr (open_ports factory info, k) \<and>
      connected_to k = map wanted (ci_connectInfos info)"
    if "service_callback upd" for upd :: "session_ref \<Rightarrow> ServiceState \<Rightarrow> CentralClient \<Rightarrow> CentralClient" and factory
    using service_callback.runOneService_new [OF that, of "connect 0" "\<lambda>n. f (0, n)" CentralClient_new factory info "[]"]
      assms(1) f by (auto simp: CentralClient_new_def connected_to_def)
  from this [OF ls.service_callback_axioms] this [OF bls.service_callback_axioms] show ?thesis
    using assms(3,4) by (force simp: ls_start_def bs_start_def own_config_found)
qed

theorem login_and_balance_start_one_witness:
  "\<exists>k. ls_start fresh_session (\<lambda>i. False) shipped_manager CentralClient_new = Inr (([(7821, Some 1)], k), False) \<and>
     connected_to k = [(5, 7852, ''127.0.0.1'')]"
  using login_and_balance_start_one [where connect = fresh_session and f = pair_uuid and manager = shipped_manager and
      rest = "[]" and ends = "\<lambda>i. False" and config = "the (configForType ServerType_LoginServer (cfg_services shipped_manager))",
      OF fresh_session_uuid pair_uuid_inj, THEN conjunct1, rule_format] shipped_login
  by (simp add: open_ports_def ls_sessionFactory_def ServerType_GateServer_def wanted_def short_of_def ushort_of_def)

section \<open>Properties of heartbeats\<close>

text \<open>The calls of a timer that is not cancelled, when the system runs each handler at most \<open>L\<close> late:
  the distance of two calls is the interval plus at most \<open>L\<close>.\<close>

lemma timer_run_late:
  assumes "int (length lates) \<le> rh_count h"
  shows "fst (timer_run (map Some lates) (Some expiry) h) =
    map (\<lambda>k. expiry + int k * rh_interval h + sum_list (take (Suc k) lates)) [0..<length lates]"
  using assms
proof (induction lates arbitrary: expiry h)
  case (Cons late lates)
  let ?h = "h\<lparr>rh_count := rh_count h - 1\<rparr>"
  have c: "rh_count h > 0" "int (length lates) \<le> rh_count ?h"
    using Cons.prems by auto
  show ?case
  proof (cases "rh_count h = 1")
    case True
    then show ?thesis
      using c(2) by (simp add: rh_call_def Let_def)
  next
    case False
    then show ?thesis
      using Cons.IH [OF c(2), of "expiry + late + rh_interval h"] c(1)
      by (simp add: rh_call_def Let_def case_prod_beta map_upt_Suc algebra_simps del: upt_Suc)
  qed
qed simp

fun gaps_within :: "int \<Rightarrow> int \<Rightarrow> int list \<Rightarrow> bool" where
  "gaps_within a d [] = True"
| "gaps_within a d (x # xs) = (a < x \<and> x \<le> a + d \<and> gaps_within x d xs)"

lemma gaps_within_hit:
  "gaps_within a d ts \<Longrightarrow> a \<le> x \<Longrightarrow> x < last (a # ts) \<Longrightarrow> \<exists>t \<in> set ts. x < t \<and> t \<le> x + d"
proof (induction ts arbitrary: a)
  case (Cons t ts)
  then show ?case
    by (cases "x < t") (auto split: if_splits)
qed simp

lemma timer_run_gaps:
  assumes "int (length lates) \<le> rh_count h" and "list_all (\<lambda>l. 0 \<le> l \<and> l \<le> L) lates" and "0 < rh_interval h"
    and "a < expiry" and "expiry \<le> a + rh_interval h"
  shows "gaps_within a (rh_interval h + L) (fst (timer_run (map Some lates) (Some expiry) h))"
  using assms
proof (induction lates arbitrary: a expiry h)
  case (Cons late lates)
  let ?h = "h\<lparr>rh_count := rh_count h - 1\<rparr>"
  have "gaps_within (expiry + late) (rh_interval h + L) (fst (timer_run (map Some lates) (Some (expiry + late + rh_interval h)) ?h))"
    using Cons.IH [of ?h "expiry + late" "expiry + late + rh_interval h"] Cons.prems by simp
  then show ?case
    using Cons.prems by (cases "rh_count h = 1"; cases lates) (auto simp: rh_call_def Let_def case_prod_beta)
qed simp

lemma gaps_within_before:
  "gaps_within a d ts \<Longrightarrow> a \<le> x \<Longrightarrow> x < last (a # ts) \<Longrightarrow> \<exists>t \<in> set (a # ts). t \<le> x \<and> x < t + d"
proof (induction ts arbitrary: a)
  case (Cons t ts)
  then show ?case
    by (cases "x < t") (auto split: if_splits)
qed simp

text \<open>The effect of one check on one session, by the second in which the session last beat.\<close>

lemma cs_check_session:
  assumes "pool_ok M (sessionMap m)" and "\<forall>q \<in> ran (slot (sessionMap m)). served M m q"
    and "p \<in> ran (slot (sessionMap m))" and "heartBeat (the (heap m p)) = b"
  shows "\<exists>m' es. cs_clientCheckOvertime M sec m = Inr (m', es) \<and>
    (if sec - b > 11 then p \<notin> ran (slot (sessionMap m')) \<and> (\<exists>s. heap m' p = Some s \<and> state s = kDisconnected)
     else p \<in> ran (slot (sessionMap m')) \<and> heap m' p = heap m p)"
  using check_overtime_spec [OF assms(1,2), of "\<lambda>s. True" kServerHeartBeatOvertime sec] assms(3,4)
  by (fastforce simp: cs_clientCheckOvertime_def kServerHeartBeatOvertime_def)

lemma server_timer_gaps:
  assumes "list_all (\<lambda>l. 0 \<le> l \<and> l \<le> L) lates" and "int (length lates) \<le> INT_MAX"
  shows "gaps_within now (5000 + L) (fst (createTimer (map Some lates) now 5000 5000 INT_MAX))"
  using timer_run_gaps [of lates "\<lparr>rh_interval = 5000, rh_count = INT_MAX\<rparr>" L now "now + 5000"] assms
  by (simp add: createTimer_def)

lemma le_seconds: "x \<le> t div 1000 \<longleftrightarrow> 1000 * x \<le> (t :: int)"
proof
  assume "x \<le> t div 1000"
  then have "1000 * x \<le> 1000 * (t div 1000)"
    by simp
  also have "\<dots> \<le> t"
    using pos_mod_sign [of 1000 t] mult_div_mod_eq [of 1000 t] by linarith
  finally show "1000 * x \<le> t" .
next
  assume "1000 * x \<le> t"
  then show "x \<le> t div 1000"
    using zdiv_mono1 [of "1000 * x" t 1000] by simp
qed

text \<open>C14: Silence is noticed in time. On the central server, whose timer checks every 5 seconds, let no
  check run more than \<open>L\<close> milliseconds late. A session whose last heartbeat came in second \<open>b\<close> is
  closed and removed by a check that runs at most 17 seconds and \<open>L\<close> milliseconds after the
  beginning of that second, in whatever state the session manager is then; every check before
  second \<open>b + 12\<close> leaves it alone.\<close>

theorem silence_is_noticed_in_time:
  assumes "list_all (\<lambda>l. 0 \<le> l \<and> l \<le> L) lates" and "int (length lates) \<le> INT_MAX"
    and "fst (cs_initialize (map Some lates) now) = checks" and "now < 1000 * (b + 12)"
    and "checks \<noteq> []" and "1000 * (b + 12) < last checks"
  shows "\<exists>t \<in> set checks. t \<le> 1000 * (b + 17) + L \<and>
    (\<forall>M m p. pool_ok M (sessionMap m) \<longrightarrow> (\<forall>q \<in> ran (slot (sessionMap m)). served M m q) \<longrightarrow>
      p \<in> ran (slot (sessionMap m)) \<longrightarrow> heartBeat (the (heap m p)) = b \<longrightarrow>
      (\<exists>m' es s. cs_clientCheckOvertime M (t div 1000) m = Inr (m', es) \<and> p \<notin> ran (slot (sessionMap m')) \<and>
        heap m' p = Some s \<and> state s = kDisconnected) \<and>
      (\<forall>t' \<in> set checks. t' < 1000 * (b + 12) \<longrightarrow> (\<exists>m' es. cs_clientCheckOvertime M (t' div 1000) m = Inr (m', es) \<and>
        p \<in> ran (slot (sessionMap m')) \<and> heap m' p = heap m p)))"
proof -
  have gaps: "gaps_within now (5000 + L) checks"
    using server_timer_gaps [OF assms(1,2), of now] assms(3)
    by (simp add: cs_initialize_def S2M_def kServerHeartBeatDuration_def)
  obtain t where t: "t \<in> set checks" "1000 * (b + 12) - 1 < t" "t \<le> 1000 * (b + 12) - 1 + (5000 + L)"
    using gaps_within_hit [OF gaps, of "1000 * (b + 12) - 1"] assms(4-6) by auto
  have late: "t div 1000 - b > 11"
    using t(2) le_seconds [of "b + 12" t] by simp
  have early: "\<not> t' div 1000 - b > 11" if "t' < 1000 * (b + 12)" for t'
    using that le_seconds [of "b + 12" t'] by simp
  show ?thesis
  proof (intro bexI [of _ t] conjI allI impI ballI)
    fix M m p
    assume m: "pool_ok M (sessionMap m)" "\<forall>q \<in> ran (slot (sessionMap m)). served M m q" "p \<in> ran (slot (sessionMap m))"
      "heartBeat (the (heap m p)) = b"
    show "\<exists>m' es s. cs_clientCheckOvertime M (t div 1000) m = Inr (m', es) \<and> p \<notin> ran (slot (sessionMap m')) \<and>
        heap m' p = Some s \<and> state s = kDisconnected"
      using cs_check_session [OF m, of "t div 1000"] late by auto
    show "\<exists>m' es. cs_clientCheckOvertime M (t' div 1000) m = Inr (m', es) \<and> p \<in> ran (slot (sessionMap m')) \<and> heap m' p = heap m p"
      if "t' < 1000 * (b + 12)" for t'
      using cs_check_session [OF m, of "t' div 1000"] early [OF that] by auto
  qed (use t in simp_all)
qed

theorem silence_is_noticed_in_time_witness:
  "\<exists>t \<in> set (fst (cs_initialize (map Some [0, 3, 0, 7]) 0)). t \<le> 17010 \<and>
    (\<exists>m' es. cs_clientCheckOvertime 3 (t div 1000) beaten_sessions = Inr (m', es) \<and> 7 \<notin> ran (slot (sessionMap m')))"
proof -
  have checks: "fst (cs_initialize (map Some [0, 3, 0, 7]) 0) = [5000, 10003, 15003, 20010]"
    by code_simp
  have m: "pool_ok 3 (sessionMap beaten_sessions)" "\<forall>q \<in> ran (slot (sessionMap beaten_sessions)). served 3 beaten_sessions q"
      "7 \<in> ran (slot (sessionMap beaten_sessions))" "heartBeat (the (heap beaten_sessions 7)) = 0"
    using beaten_sessions_ok by simp_all
  have hyps: "list_all (\<lambda>l. 0 \<le> l \<and> l \<le> 10) [0, 3, 0, 7 :: int]" "int (length [0, 3, 0, 7 :: int]) \<le> INT_MAX"
      "(0 :: int) < 1000 * (0 + 12)" "[5000, 10003, 15003, 20010 :: int] \<noteq> []"
      "1000 * (0 + 12) < last [5000, 10003, 15003, 20010 :: int]"
    by (simp_all add: INT_MAX_def)
  obtain t where t: "t \<in> set [5000, 10003, 15003, 20010]" "t \<le> 1000 * (0 + 17) + 10"
      "\<And>M m p. pool_ok M (sessionMap m) \<Longrightarrow> \<forall>q \<in> ran (slot (sessionMap m)). served M m q \<Longrightarrow>
        p \<in> ran (slot (sessionMap m)) \<Longrightarrow> heartBeat (the (heap m p)) = 0 \<Longrightarrow>
        \<exists>m' es s. cs_clientCheckOvertime M (t div 1000) m = Inr (m', es) \<and> p \<notin> ran (slot (sessionMap m')) \<and>
          heap m' p = Some s \<and> state s = kDisconnected"
    using silence_is_noticed_in_time [OF hyps(1,2) checks hyps(3-5)] by (elim bexE conjE) (rule that, assumption, assumption, blast)
  show ?thesis
    unfolding checks using t(1,2) t(3) [OF m] by (intro bexI [of _ t]) auto
qed

text \<open>The last heartbeat that has arrived at time \<open>t\<close>, or the connection.\<close>

definition last_beat :: "int \<Rightarrow> int list \<Rightarrow> int \<Rightarrow> int" where
  "last_beat now arrivals t = Max (set (now # filter (\<lambda>a. a \<le> t) arrivals))"

text \<open>C15: Heartbeats keep a session alive. Let a server send its heartbeats at most \<open>L\<close> milliseconds late and
  the network deliver each within \<open>D\<close> milliseconds, with \<open>L + D\<close> at most 6 seconds. At every time from
  the connection until the last heartbeat was due, a check of the central server that finds the session
  with the second of the last heartbeat that has arrived (or of the connection) leaves it alone.\<close>

theorem heartbeats_keep_a_session_alive:
  assumes "list_all (\<lambda>l. 0 \<le> l \<and> l \<le> L) lates" and "int (length lates) \<le> INT_MAX" and "0 \<le> L" and "0 \<le> D" and "L + D \<le> 6000"
    and "list_all2 (\<lambda>s a. s \<le> a \<and> a \<le> s + D) (fst (sendHeartBeat (map Some lates) now)) arrivals"
    and "now \<le> t" and "t < last (now # fst (sendHeartBeat (map Some lates) now))"
    and "pool_ok M (sessionMap m)" and "\<forall>q \<in> ran (slot (sessionMap m)). served M m q"
    and "p \<in> ran (slot (sessionMap m))" and "heartBeat (the (heap m p)) = last_beat now arrivals t div 1000"
  shows "\<exists>m' es. cs_clientCheckOvertime M (t div 1000) m = Inr (m', es) \<and>
    p \<in> ran (slot (sessionMap m')) \<and> heap m' p = heap m p"
proof -
  let ?sends = "fst (sendHeartBeat (map Some lates) now)"
  have gaps: "gaps_within now (5000 + L) ?sends"
    using server_timer_gaps [OF assms(1,2), of now] by (simp add: sendHeartBeat_def S2M_def kServerHeartBeatDuration_def)
  have beat: "x \<le> last_beat now arrivals t" if "x = now \<or> x \<in> set arrivals \<and> x \<le> t" for x
    using that by (auto simp: last_beat_def)
  have "t - last_beat now arrivals t \<le> 11000"
  proof (cases "now \<le> t - D")
    case True
    obtain s where s: "s \<in> set (now # ?sends)" "s \<le> t - D" "t - D < s + (5000 + L)"
      using gaps_within_before [OF gaps True] assms(4,8) by auto
    have "\<exists>x. s \<le> x \<and> x \<le> last_beat now arrivals t"
    proof (cases "s = now")
      case False
      then obtain i where "i < length ?sends" "?sends ! i = s"
        using s(1) by (auto simp: in_set_conv_nth)
      then have i: "i < length arrivals" "s \<le> arrivals ! i" "arrivals ! i \<le> s + D"
        using assms(6) by (auto simp: list_all2_conv_all_nth)
      then have "arrivals ! i \<le> last_beat now arrivals t"
        using s(2) by (intro beat) auto
      then show ?thesis
        using i(2) by blast
    qed (use beat in blast)
    then show ?thesis
      using s(3) assms(5) by linarith
  next
    case False
    then show ?thesis
      using beat [of now] assms(3,5) by auto
  qed
  then have "t div 1000 \<le> (last_beat now arrivals t + 11000) div 1000"
    by (intro zdiv_mono1) simp_all
  then have "\<not> t div 1000 - last_beat now arrivals t div 1000 > 11"
    by simp
  then show ?thesis
    using cs_check_session [OF assms(9-12), of "t div 1000"] by auto
qed

theorem heartbeats_keep_a_session_alive_witness:
  "\<exists>m' es. cs_clientCheckOvertime 3 (9000 div 1000) beaten_sessions = Inr (m', es) \<and> 7 \<in> ran (slot (sessionMap m'))"
proof -
  have sends: "fst (sendHeartBeat (map Some [0, 3, 0]) 0) = [5000, 10003, 15003]"
    by code_simp
  have hyps: "list_all (\<lambda>l. 0 \<le> l \<and> l \<le> 10) [0, 3, 0 :: int]" "int (length [0, 3, 0 :: int]) \<le> INT_MAX"
      "(0 :: int) \<le> 10" "(0 :: int) \<le> 5990" "(10 :: int) + 5990 \<le> 6000"
      "list_all2 (\<lambda>s a. s \<le> a \<and> a \<le> s + 5990) (fst (sendHeartBeat (map Some [0, 3, 0]) 0)) [9500, 12000, 16000]"
      "0 \<le> (9000 :: int)" "9000 < last (0 # fst (sendHeartBeat (map Some [0, 3, 0]) 0))"
    unfolding sends by (simp_all add: INT_MAX_def)
  have m: "pool_ok 3 (sessionMap beaten_sessions)" "\<forall>q \<in> ran (slot (sessionMap beaten_sessions)). served 3 beaten_sessions q"
      "7 \<in> ran (slot (sessionMap beaten_sessions))" "heartBeat (the (heap beaten_sessions 7)) = last_beat 0 [9500, 12000, 16000] 9000 div 1000"
    using beaten_sessions_ok by (simp_all add: last_beat_def)
  show ?thesis
    using heartbeats_keep_a_session_alive [OF hyps m] by blast
qed

end
