(* ===== verification/ClientPath.thy ===== *)
theory ClientPath
  imports Robots CSKernel GateServer LoginBalanceServers
begin

text \<open>
  The way of a client into the game, across the servers it touches: it asks the balance server for a
  gate, which asks the central server; it logs in at the gate, which passes the request to the login
  server; and it fetches the list of matches from the central server through the gate. The servers
  are composed with the handlers of their own theories. \<open>ser\<close> is the protocol buffer encoder; a body
  that was encoded parses back to its message, which is therefore handed over beside its bytes.
\<close>

section \<open>Composition\<close>

text \<open>What reaches clients from a command a server sends: the session manager of the next server gets the
  packet, and its handler passes it on to a client by uuid.\<close>

type_synonym delivery = "int \<times> int \<times> message"

definition packet_header :: "(message \<Rightarrow> byte list) \<Rightarrow> int \<Rightarrow> message \<Rightarrow> int \<Rightarrow> PacketHeader" where
  "packet_header ser ty msg x = \<lparr>ptype = word_of_int ty, psize = of_nat (length (ser msg)), extraID = word_of_int x\<rparr>"

fun to_client :: "message \<Rightarrow> command \<Rightarrow> delivery list" where
  "to_client msg (Forward (ToUuid u) h b) = [(u, sint (ptype h), msg)]"
| "to_client msg c = []"

fun pass_back :: "(message \<Rightarrow> byte list) \<Rightarrow> (byte list \<Rightarrow> PacketHeader \<Rightarrow> command list) \<Rightarrow> command \<Rightarrow> delivery list" where
  "pass_back ser handler (Send d ty msg x) = concat (map (to_client msg) (handler (ser msg) (packet_header ser ty msg x)))"
| "pass_back ser handler c = []"

text \<open>The packet a server passes on, if it is exactly one to one session.\<close>

fun passed_on :: "command list \<Rightarrow> PacketHeader option" where
  "passed_on [Forward (ToSession s) h b] = Some h"
| "passed_on cs = None"

text \<open>Client \<open>v\<close> of a balance server asks for a gate; \<open>session\<close> is the session of the balance server at the
  central server.\<close>

definition connect_path ::
  "(message \<Rightarrow> byte list) \<Rightarrow> int \<Rightarrow> int32_w \<Rightarrow> message \<Rightarrow> session_ref \<Rightarrow> CentralClient \<Rightarrow> CSKernel \<Rightarrow> (CSKernel \<times> delivery list) result"
where
  "connect_path ser now v rq session bal cs =
     (case passed_on (CBSession_handlerMsg v (ser rq) (packet_header ser kClientConnectRQ rq 0) bal) of
        None \<Rightarrow> Inr (cs, [])
      | Some h \<Rightarrow> rbind (BalanceSession_handlerMsg now session (sint (ptype h)) (Some (BConnect rq)) (sint (extraID h)) cs)
          (\<lambda>(cs, cmds). Inr (cs, concat (map (pass_back ser B2CSession_handlerMsg) cmds))))"

text \<open>Client \<open>u\<close> of a gate logs in; \<open>session\<close> is the session of the gate at the login server.\<close>

definition login_path :: "(message \<Rightarrow> byte list) \<Rightarrow> int32_w \<Rightarrow> message \<Rightarrow> session_ref \<Rightarrow> GSKernel \<Rightarrow> delivery list" where
  "login_path ser u rq session gate =
     (case passed_on (CGSession_handlerMsg u (ser rq) (packet_header ser kClientLoginRQ rq 0) gate) of
        None \<Rightarrow> []
      | Some h \<Rightarrow> concat (map (pass_back ser G2LSession_handlerMsg)
          (LSGateSession_handlerMsg session (sint (ptype h)) (Some rq) (sint (extraID h)))))"

text \<open>Client \<open>u\<close> of a gate asks for the matches; \<open>session\<close> is the session of the gate at the central server.\<close>

definition list_path ::
  "(message \<Rightarrow> byte list) \<Rightarrow> int \<Rightarrow> int32_w \<Rightarrow> int \<Rightarrow> session_ref \<Rightarrow> GSKernel \<Rightarrow> CSKernel \<Rightarrow> (CSKernel \<times> delivery list) result"
where
  "list_path ser now u uid session gate cs =
     (case passed_on (CGSession_handlerMsg u (ser (MatchListRQ uid)) (packet_header ser kMatchListRQ (MatchListRQ uid) uid) gate) of
        None \<Rightarrow> Inr (cs, [])
      | Some h \<Rightarrow> rbind (CSGateSession_handlerMsg now session (sint (ptype h)) (Some (BMatchList uid)) (sint (extraID h)) cs)
          (\<lambda>(cs, cmds). Inr (cs, concat (map (pass_back ser (\<lambda>b h. snd (G2CSession_handlerMsg None b h gate))) cmds))))"

text \<open>What a robot reads in a reply. The central server leaves the type of a match unset.\<close>

definition robot_match :: "MatchBriefInfo \<Rightarrow> RobotMatch" where
  "robot_match b = \<lparr>rm_mid = b_mid b, rm_type = 0, rm_time = b_time b, rm_totalPlayer = b_totalPlayer b,
     rm_remainedPlayer = b_remainedPlayer b, rm_state = b_state b, rm_curLevel = b_curLevel b, rm_entryfee = b_entryfee b\<rparr>"

definition robot_reads :: "message \<Rightarrow> rb_body" where
  "robot_reads msg = \<lparr>
     as_connectRS = (case msg of ConnectRS r port ip \<Rightarrow> Some (ip, port) | _ \<Rightarrow> None),
     as_loginRS = (case msg of LoginRS r \<Rightarrow> Some msg | _ \<Rightarrow> None),
     as_matchListRS = (case msg of MatchListRS r uid ms \<Rightarrow> Some (map robot_match ms) | _ \<Rightarrow> None),
     as_joinMatchRS = None, as_unjoinMatchRS = None\<rparr>"

section \<open>Properties\<close>

lemma passed_connect:
  assumes "cc_centralSession bal = Some c"
  shows "passed_on (CBSession_handlerMsg v b (packet_header ser kClientConnectRQ rq 0) bal) =
    Some \<lparr>ptype = word_of_int kClientConnectRQ, psize = of_nat (length (ser rq)), extraID = v\<rparr>"
  using assms by (simp add: CBSession_handlerMsg_def bs_range_def bs_transToCS_def packet_header_def kClientConnectRQ_def)

lemma connect_reply_back:
  "pass_back ser B2CSession_handlerMsg (Send d kClientConnectRS rs (sint (v :: int32_w))) = [(sint v, kClientConnectRS, rs)]"
  by (simp add: packet_header_def B2CSession_handlerMsg_def bs_range_def bs_transToClient_def kClientConnectRS_def)



text \<open>C13: A client that logs in gets in and sees the matches. With a gate that is connected to login and central
  server, the login and the list request of a client are answered to that client and to no other; the
  robot that gets the replies is logged in, asks for the list on its own session, and then holds
  exactly the matches of the central server, in its order. The other robots are as before.\<close>

theorem client_gets_in_and_sees_the_matches:
  assumes "loginSession gate = Some ls" and "centralSession gate = Some c" and "robots_ok robots" and "l < length robots"
  shows "\<exists>robots' es. login_path ser u (LoginRQ uid tok) lsession gate = [(sint u, kClientLoginRS, LoginRS 0)] \<and>
    RobotSession_handlerMsg l kClientLoginRS (robot_reads (LoginRS 0)) robots = Inr (robots', es) \<and>
    es = [RSend (rb_session (the (robots ! l))) kMatchListRQ (MatchListRQ (rb_uid (the (robots ! l)))) (rb_uid (the (robots ! l)))] \<and>
    (\<exists>rs. list_path ser now u (rb_uid (the (robots ! l))) csession gate cs = Inr (cs, [(sint u, kMatchListRS, rs)]) \<and>
      RobotSession_handlerMsg l kMatchListRS (robot_reads rs) robots' =
        Inr (robots[l := Some ((the (robots ! l))\<lparr>rb_login := True,
          rb_matchList := map (robot_match \<circ> brief_info) (matchList (matchManager cs))\<rparr>)], []))"
proof -
  let ?r = "the (robots ! l)"
  let ?robots = "robots[l := Some (?r\<lparr>rb_login := True\<rparr>)]"
  let ?rs = "MatchListRS 0 (rb_uid ?r) (map brief_info (matchList (matchManager cs)))"
  have r: "getRobot_session l robots = Inr (Some (l, ?r))" "rb_logicID ?r = l"
    using getRobot_session_ok [OF assms(3,4)] robots_ok_the [OF assms(3,4)] by simp_all
  have ok: "robots_ok ?robots"
    using r(2) by (intro robots_ok_update [OF assms(3)]) simp
  have r': "getRobot_session l ?robots = Inr (Some (l, ?r\<lparr>rb_login := True\<rparr>))"
    using getRobot_session_ok [OF ok] assms(4) by simp
  have "login_path ser u (LoginRQ uid tok) lsession gate = [(sint u, kClientLoginRS, LoginRS 0)]"
    using assms(1)
    by (simp add: login_path_def CGSession_handlerMsg_def in_range_def gs_transToLS_def packet_header_def kClientLoginRQ_def
        kClientLoginRS_def LSGateSession_handlerMsg_def ls_loginRQ_def G2LSession_handlerMsg_def gs_transToClient_def Let_def)
  moreover have "RobotSession_handlerMsg l kClientLoginRS (robot_reads (LoginRS 0)) robots = Inr (?robots, rb_matchListRQ (?r\<lparr>rb_login := True\<rparr>))"
    using r(1) by (simp add: RobotSession_handlerMsg_def robot_reads_def loginRS_def Let_def)
  moreover have "list_path ser now u (rb_uid ?r) csession gate cs = Inr (cs, [(sint u, kMatchListRS, ?rs)])"
    using assms(2)
    by (simp add: list_path_def CGSession_handlerMsg_def in_range_def gs_transToCS_def packet_header_def kMatchListRQ_def
        kMatchListRS_def kServerRegistRQ_def CSGateSession_handlerMsg_def matchListRQ_def as_matchList_def G2CSession_handlerMsg_def
        gs_transToClient_def Let_def)
  moreover have "RobotSession_handlerMsg l kMatchListRS (robot_reads ?rs) ?robots =
      Inr (robots[l := Some (?r\<lparr>rb_login := True, rb_matchList := map (robot_match \<circ> brief_info) (matchList (matchManager cs))\<rparr>)], [])"
    using r' by (simp add: RobotSession_handlerMsg_def robot_reads_def matchListRS_def update_robot_def kMatchListRS_def
        kClientLoginRS_def)
  ultimately show ?thesis
    by (intro exI [of _ ?robots] exI [of _ "rb_matchListRQ (?r\<lparr>rb_login := True\<rparr>)"]) (auto simp: rb_matchListRQ_def)
qed

theorem client_gets_in_and_sees_the_matches_witness:
  "login_path (\<lambda>m. []) 6 (LoginRQ 1 []) (sample_ref 2 1) (sample_gate\<lparr>loginSession := Some (sample_ref 3 2)\<rparr>) = [(6, kClientLoginRS, LoginRS 0)] \<and>
   (\<exists>rs. list_path (\<lambda>m. []) 0 6 0 (sample_ref 2 1) (sample_gate\<lparr>loginSession := Some (sample_ref 3 2)\<rparr>) sample_kernel =
      Inr (sample_kernel, [(6, kMatchListRS, rs)]))"
proof -
  have ok: "robots_ok [Some (Robot_new ''127.0.0.1'' 7841 10 0)]"
    by (simp add: robots_ok_def Robot_new_def)
  show ?thesis
    using client_gets_in_and_sees_the_matches [of "sample_gate\<lparr>loginSession := Some (sample_ref 3 2)\<rparr>" "sample_ref 3 2" _ _ 0 "\<lambda>m. []" 6
        1 "[]" "sample_ref 2 1" 0 "sample_ref 2 1" sample_kernel, OF _ _ ok]
    by (auto simp: sample_gate_def Robot_new_def)
qed

end
