(* ===== verification/LogSystem.thy ===== *)
theory LogSystem
  imports LogBackend
begin

text \<open>
  Logging put together (Net/logging): the macros, the destructor of \<open>Logger\<close> with the output and flush
  functions, and the asynchronous logger as the output, as in \<open>testAsyncLogging\<close> of the main program of
  the library. Each thread has its own cached time text. A statement of a thread, the thread of the
  logger taking the buffers, and its writing are the steps.
\<close>

section \<open>The end of a statement\<close>

datatype log_output = DefaultOutput | AsyncOutput
datatype log_flush = DefaultFlush | OwnFlush

record LogGlobals =
  g_logLevel :: LogLevel
  g_output :: log_output
  g_flush :: log_flush

definition LogGlobals_new :: "bool \<Rightarrow> bool \<Rightarrow> LogGlobals" where
  "LogGlobals_new env_trace env_debug =
     \<lparr>g_logLevel = initLogLevel env_trace env_debug, g_output = DefaultOutput, g_flush = DefaultFlush\<rparr>"

definition setLogLevel :: "LogLevel \<Rightarrow> LogGlobals \<Rightarrow> LogGlobals" where
  "setLogLevel level g = g\<lparr>g_logLevel := level\<rparr>"

definition setOutput :: "log_output \<Rightarrow> LogGlobals \<Rightarrow> LogGlobals" where
  "setOutput out g = g\<lparr>g_output := out\<rparr>"

definition setFlush :: "log_flush \<Rightarrow> LogGlobals \<Rightarrow> LogGlobals" where
  "setFlush flush g = g\<lparr>g_flush := flush\<rparr>"

datatype log_effect = ToStdout string | ToAsync string | FlushStdout | FlushOwn | Abort

definition run_output :: "log_output \<Rightarrow> string \<Rightarrow> log_effect" where
  "run_output out buf = (case out of DefaultOutput \<Rightarrow> ToStdout buf | AsyncOutput \<Rightarrow> ToAsync buf)"

definition run_flush :: "log_flush \<Rightarrow> log_effect" where
  "run_flush f = (case f of DefaultFlush \<Rightarrow> FlushStdout | OwnFlush \<Rightarrow> FlushOwn)"

definition Logger_destroy :: "LogGlobals \<Rightarrow> LogLevel \<Rightarrow> string \<Rightarrow> log_effect list" where
  "Logger_destroy g level buf =
     run_output (g_output g) buf # (if level = FATAL then [run_flush (g_flush g), Abort] else [])"

section \<open>Statements\<close>

datatype log_macro = LOG_TRACE | LOG_DEBUG | LOG_MINFO | LOG_WARN | LOG_ERROR | LOG_FETAL | LOG_SYSTEM | LOG_SYSFATAL

fun macro_level :: "log_macro \<Rightarrow> LogLevel" where
  "macro_level LOG_TRACE = TRACE" | "macro_level LOG_DEBUG = DEBUg" | "macro_level LOG_MINFO = INFO"
| "macro_level LOG_WARN = WARN" | "macro_level LOG_ERROR = ERROR" | "macro_level LOG_FETAL = FATAL"
| "macro_level LOG_SYSTEM = ERROR" | "macro_level LOG_SYSFATAL = FATAL"

text \<open>The last two macros take the constructor with \<open>errno\<close>, which prints no function name.\<close>

definition system_macro :: "log_macro \<Rightarrow> bool" where
  "system_macro m \<longleftrightarrow> m = LOG_SYSTEM \<or> m = LOG_SYSFATAL"

definition guarded_macro :: "log_macro \<Rightarrow> bool" where
  "guarded_macro m \<longleftrightarrow> m = LOG_TRACE \<or> m = LOG_DEBUG \<or> m = LOG_MINFO"

definition Logger_sysline ::
  "(int \<Rightarrow> tm) \<Rightarrow> int \<Rightarrow> int \<times> string \<Rightarrow> LogLevel \<Rightarrow> int \<Rightarrow> int \<Rightarrow> log_item list \<Rightarrow> string \<Rightarrow> int \<Rightarrow> ((int \<times> string) \<times> string) result"
where
  "Logger_sysline localtime now cache level strerror_ret errno items file line =
     rbind (formatTime localtime now cache) (\<lambda>(cache, time_items).
     rbind (rfold log_put (time_items @ [LStr (LogLevelName level)] @ errno_items strerror_ret errno @
              items @ finish_items (SourceFile file) line) []) (\<lambda>buf.
     Inr (cache, buf)))"

definition log_statement ::
  "(int \<Rightarrow> tm) \<Rightarrow> LogGlobals \<Rightarrow> int \<Rightarrow> int \<times> string \<Rightarrow> log_macro \<Rightarrow> int \<Rightarrow> int \<Rightarrow> string \<Rightarrow> log_item list \<Rightarrow> string \<Rightarrow> int \<Rightarrow>
   ((int \<times> string) \<times> log_effect list) result"
where
  "log_statement localtime g now cache m strerror_ret errno func items file line =
     (if guarded_macro m \<and> \<not> macro_enabled (g_logLevel g) (macro_level m) then Inr (cache, [])
      else rbind (if system_macro m then Logger_sysline localtime now cache (macro_level m) strerror_ret errno items file line
                  else Logger_line localtime now cache (macro_level m) strerror_ret 0 func items file line)
             (\<lambda>(cache, buf). Inr (cache, Logger_destroy g (macro_level m) buf)))"

text \<open>\<open>CheckNotNull\<close>: a statement of level FATAL without a function name for a null pointer.\<close>

definition CheckNotNull ::
  "(int \<Rightarrow> tm) \<Rightarrow> LogGlobals \<Rightarrow> int \<Rightarrow> int \<times> string \<Rightarrow> string \<Rightarrow> int \<Rightarrow> string \<Rightarrow> 'p option \<Rightarrow> ((int \<times> string) \<times> log_effect list) result"
where
  "CheckNotNull localtime g now cache file line names ptr =
     (if ptr = None
      then rbind (Logger_sysline localtime now cache FATAL 0 0 [LCStr (Some names)] file line)
        (\<lambda>(cache, buf). Inr (cache, Logger_destroy g FATAL buf))
      else Inr (cache, []))"

section \<open>The system\<close>

record log_system =
  sys_log :: al_io
  sys_cache :: "nat \<Rightarrow> int \<times> string"
  sys_said :: "string list"

text \<open>A thread starts with a zero time and an empty text. Statements are those of the macros with a function
  name below the level FATAL, which ends the program.\<close>

inductive log_reachable :: "(int \<Rightarrow> tm) \<Rightarrow> LogGlobals \<Rightarrow> (nat \<Rightarrow> string) \<Rightarrow> LogFile \<Rightarrow> log_system \<Rightarrow> bool"
  for localtime g msg f where
  log_begun: "log_reachable localtime g msg f
     \<lparr>sys_log = \<lparr>al = al_start (AsyncLogging_new f), logged = [], dropped = False\<rparr>, sys_cache = (\<lambda>t. (0, [])), sys_said = []\<rparr>"
| log_said: "log_reachable localtime g msg f s \<Longrightarrow> \<not> system_macro m \<Longrightarrow> macro_level m \<noteq> FATAL \<Longrightarrow>
    1000000 \<le> now \<Longrightarrow> list_all item_ok items \<Longrightarrow> - (2 ^ 31) \<le> line \<Longrightarrow> line < 2 ^ 31 \<Longrightarrow>
    length (line_text localtime now (macro_level m) func items fname line) + 31 < 4000 \<Longrightarrow>
    log_statement localtime g now (sys_cache s t) m 0 errno func items fname line = Inr (cache, [ToAsync buf]) \<Longrightarrow>
    log_reachable localtime g msg f (s\<lparr>sys_log := (sys_log s)\<lparr>al := al_append buf (al (sys_log s)), logged := logged (sys_log s) @ [buf]\<rparr>,
      sys_cache := (sys_cache s)(t := cache),
      sys_said := sys_said s @ [line_text localtime now (macro_level m) func items fname line]\<rparr>)"
| log_behind: "log_reachable localtime g msg f s \<Longrightarrow> al_step msg (sys_log s) c \<Longrightarrow> logged c = logged (sys_log s) \<Longrightarrow>
    log_reachable localtime g msg f (s\<lparr>sys_log := c\<rparr>)"

section \<open>Properties\<close>

definition log_caches_ok :: "(int \<Rightarrow> tm) \<Rightarrow> (nat \<Rightarrow> int \<times> string) \<Rightarrow> bool" where
  "log_caches_ok localtime cs \<longleftrightarrow> (\<forall>t. fst (cs t) \<noteq> 0 \<longrightarrow> snd (cs t) = time_text (localtime (fst (cs t))))"

lemma log_caches_ok_use:
  assumes "log_caches_ok localtime cs" and "1000000 \<le> now"
  shows "cache_ok localtime now (cs t)" "0 \<le> now" "now sdiv 1000000 \<noteq> 0"
proof -
  show "0 \<le> now"
    using assms(2) by simp
  then have "now sdiv 1000000 = now div 1000000"
    using sdiv_smod_nonneg by simp
  moreover have "1 \<le> now div 1000000"
    using zdiv_mono1 [OF assms(2), of 1000000] by simp
  ultimately show n: "now sdiv 1000000 \<noteq> 0"
    by simp
  show "cache_ok localtime now (cs t)"
    using assms(1) n by (auto simp: log_caches_ok_def cache_ok_def)
qed

text \<open>A statement is printed whole, and always: the level that was set plays no role.\<close>

lemma statement_printed:
  assumes "\<forall>i. tm_ok (localtime i)" and "log_caches_ok localtime cs" and "1000000 \<le> now" and "\<not> system_macro m" and "macro_level m \<noteq> FATAL"
    and "list_all item_ok items" and "- (2 ^ 31) \<le> line" and "line < 2 ^ 31"
    and "length (line_text localtime now (macro_level m) func items fname line) + 31 < 4000"
  shows "log_statement localtime g now (cs t) m 0 errno func items fname line =
    Inr ((now sdiv 1000000, time_text (localtime (now sdiv 1000000))),
      [run_output (g_output g) (line_text localtime now (macro_level m) func items fname line)])"
proof -
  have ok: "tm_ok (localtime (now sdiv 1000000))"
    using assms(1) by blast
  obtain buf where "Logger_line localtime now (cs t) (macro_level m) 0 0 func items fname line =
      Inr ((now sdiv 1000000, time_text (localtime (now sdiv 1000000))), buf)" "buf = line_text localtime now (macro_level m) func items fname line"
    using Logger_line_text [of localtime, OF ok log_caches_ok_use(2,1) [OF assms(2,3)] assms(6-8)] assms(9) by blast
  then show ?thesis
    using assms(4,5) by (simp add: log_statement_def macro_enabled_def Logger_destroy_def)
qed

lemma log_reachable_inv:
  assumes "log_reachable localtime g msg f s" and "\<forall>i. tm_ok (localtime i)" and "g_output g = AsyncOutput"
  shows "al_reachable msg f (sys_log s) \<and> log_caches_ok localtime (sys_cache s) \<and> logged (sys_log s) = sys_said s"
  using assms
proof (induction rule: log_reachable.induct)
  case log_begun
  then show ?case
    by (simp add: al_reachable.begun log_caches_ok_def)
next
  case (log_said s m now items line func fname t errno cache buf)
  let ?text = "line_text localtime now (macro_level m) func items fname line"
  have ih: "al_reachable msg f (sys_log s)" "log_caches_ok localtime (sys_cache s)" "logged (sys_log s) = sys_said s"
    using log_said.IH log_said.prems by simp_all
  have out: "cache = (now sdiv 1000000, time_text (localtime (now sdiv 1000000)))" "buf = ?text"
    using statement_printed [OF log_said.prems(1) ih(2) log_said.hyps(4,2,3,5-8), of g t errno] log_said.hyps(9) log_said.prems(2)
    by (simp_all add: run_output_def)
  then have "length buf < kLargeBuffer"
    using log_said.hyps(8) by (simp add: kLargeBuffer_def)
  then have "al_reachable msg f ((sys_log s)\<lparr>al := al_append buf (al (sys_log s)), logged := logged (sys_log s) @ [buf]\<rparr>)"
    using al_reachable.further [OF ih(1)] al_step.log by blast
  then show ?case
    using ih out by (simp add: log_caches_ok_def)
next
  case (log_behind s c)
  then show ?case
    using al_reachable.further by auto
qed


definition sample_localtime :: "int \<Rightarrow> tm" where
  "sample_localtime i = \<lparr>tm_year = 118, tm_mon = 6, tm_mday = 21, tm_hour = 9, tm_min = 30, tm_sec = 1\<rparr>"

definition async_globals :: LogGlobals where
  "async_globals = setOutput AsyncOutput (LogGlobals_new False False)"

lemma sample_localtime_ok: "\<forall>i. tm_ok (sample_localtime i)"
  by (simp add: sample_localtime_def tm_ok_def)

definition sample_line :: string where
  "sample_line = line_text sample_localtime 1532165401000042 ERROR ''run'' [LStr ''lost'', LInt 3] ''/src/main.cpp'' 42"

lemma sample_line_eq: "sample_line = ''20180721 09:30:01.000042Z ERROR run lost3 - main.cpp:42'' @ [CHR 0x0A]"
  by code_simp

lemma sample_statement:
  "log_statement sample_localtime async_globals 1532165401000042 (0, []) LOG_ERROR 0 0 ''run'' [LStr ''lost'', LInt 3] ''/src/main.cpp'' 42 =
     Inr ((1532165401, ''20180721 09:30:01''), [ToAsync sample_line])"
  by code_simp

lemma sample_log_system:
  "\<exists>s. log_reachable sample_localtime async_globals msg f s \<and> sys_said s = [sample_line] \<and> \<not> dropped (sys_log s) \<and>
     al (sys_log s) = al_append sample_line (al_start (AsyncLogging_new f))"
proof -
  let ?s = "\<lparr>sys_log = \<lparr>al = al_start (AsyncLogging_new f), logged = [], dropped = False\<rparr>, sys_cache = (\<lambda>t. (0, [])), sys_said = []\<rparr>"
  have "log_statement sample_localtime async_globals 1532165401000042 (sys_cache ?s 0) LOG_ERROR 0 0 ''run'' [LStr ''lost'', LInt 3] ''/src/main.cpp'' 42 =
     Inr ((1532165401, ''20180721 09:30:01''), [ToAsync sample_line])"
    using sample_statement by simp
  moreover have "length (line_text sample_localtime 1532165401000042 (macro_level LOG_ERROR) ''run'' [LStr ''lost'', LInt 3] ''/src/main.cpp'' 42) + 31 < 4000"
    using sample_line_eq by (simp add: sample_line_def)
  ultimately have "log_reachable sample_localtime async_globals msg f (?s\<lparr>sys_log := (sys_log ?s)\<lparr>al := al_append sample_line (al (sys_log ?s)),
      logged := logged (sys_log ?s) @ [sample_line]\<rparr>, sys_cache := (sys_cache ?s)(0 := (1532165401, ''20180721 09:30:01'')),
      sys_said := sys_said ?s @ [line_text sample_localtime 1532165401000042 (macro_level LOG_ERROR) ''run'' [LStr ''lost'', LInt 3] ''/src/main.cpp'' 42]\<rparr>)"
    by (intro log_said [OF log_begun]) (simp_all add: system_macro_def)
  then show ?thesis
    by - (rule exI, rule conjI, assumption, simp add: sample_line_def)
qed


text \<open>The last line is the one that is lost. With the asynchronous logger as the output and the default
  flush function, a statement of level FATAL hands its line to the logger, flushes the standard output
  and aborts; the line is then in a buffer of the logger and not in its file.\<close>

lemma fatal_line_is_lost:
  "Logger_destroy async_globals FATAL buf = [ToAsync buf, FlushStdout, Abort]"
  "al_output (al_append buf a) = al_output a"
  by (simp_all add: Logger_destroy_def async_globals_def setOutput_def LogGlobals_new_def run_output_def run_flush_def al_append_def)

end
