(* ===== verification/FactoryJson.thy ===== *)
theory FactoryJson
  imports MatchFactory MatchJson
begin

text \<open>
  The JSON side of CPGMatchCreateFactory.cpp: the two \<open>createMatch\<close> functions that take a JSON text and
  a JSON value, and the configuration file read at start. Inside a \<open>try\<close> block a member of the wrong
  type ends the reading with an exception that is caught; an absent member fails an assertion, which
  is not. \<open>parse\<close> is the parser of the JSON library, \<open>None\<close> where it throws, and \<open>date\<close> is
  \<open>GetDateTimeIntFromFormat\<close>. The statements to the database throw nothing.
\<close>

datatype jdoc = DNull | DObject jobject | DOther

section \<open>Reading with exceptions\<close>

text \<open>A sequence of assignments to one object, of which the first that fails ends the sequence: the object
  keeps what was assigned before.\<close>

fun read_steps :: "('p \<Rightarrow> 'p result) list \<Rightarrow> 'p \<Rightarrow> error option \<times> 'p" where
  "read_steps [] p = (None, p)"
| "read_steps (f # fs) p = (case f p of Inl e \<Rightarrow> (Some e, p) | Inr q \<Rightarrow> read_steps fs q)"

definition config_steps :: "(string \<Rightarrow> int) \<Rightarrow> jobject \<Rightarrow> (CPGMatchProfile \<Rightarrow> CPGMatchProfile result) list" where
  "config_steps date j =
     [\<lambda>p. rbind (jget_string j ''start_time'') (\<lambda>s. Inr (p\<lparr>start_time := word_of_int (date s)\<rparr>)),
      \<lambda>p. rbind (jget_string j ''name'') (\<lambda>n. Inr (p\<lparr>name := n\<rparr>))] @ map (set_demanded j) demanded"

definition finish_profile :: "CPGMatchProfile \<Rightarrow> CPGMatchProfile" where
  "finish_profile p =
     (let p = p\<lparr>current_blind_level := first_blind_level p\<rparr>
      in if entry_pool p = 0 then p\<lparr>entry_pool := entryfee p\<rparr> else p)"

definition createMatch_doc ::
    "'d exec \<Rightarrow> (string \<Rightarrow> int) \<Rightarrow> jdoc \<Rightarrow> SQLConnector \<times> 'd \<Rightarrow> (CPGMatchProfile option \<times> SQLConnector \<times> 'd) result" where
  "createMatch_doc exec date doc cd =
     (case doc of
        DNull \<Rightarrow> Inr (None, cd)
      | DOther \<Rightarrow> Inr (Some CPGMatchProfile_new, cd)
      | DObject j \<Rightarrow> (case read_steps (config_steps date j) CPGMatchProfile_new of
          (None, p) \<Rightarrow> factory_createMatch exec (finish_profile p) cd
        | (Some e, p) \<Rightarrow> (if e = Thrown then Inr (Some p, cd) else Inl e)))"

definition createMatch_text ::
    "(string \<Rightarrow> jdoc option) \<Rightarrow> 'd exec \<Rightarrow> (string \<Rightarrow> int) \<Rightarrow> string \<Rightarrow> SQLConnector \<times> 'd \<Rightarrow>
     (CPGMatchProfile option \<times> SQLConnector \<times> 'd) result" where
  "createMatch_text parse exec date cnt cd =
     (case parse cnt of
        None \<Rightarrow> Inr (None, cd)
      | Some doc \<Rightarrow> if doc = DNull then Inr (None, cd) else createMatch_doc exec date doc cd)"

section \<open>The configuration file\<close>

text \<open>What the file holds: nothing that parses (or there is no file), the value null, a value without an
  array under \<open>matches\<close>, or the elements of that array. Nothing catches what the first and the third throw.\<close>

datatype jfile = Unparsable | NullFile | WithoutMatches | WithMatches "jdoc list"

fun load_docs ::
    "'d exec \<Rightarrow> (string \<Rightarrow> int) \<Rightarrow> jdoc list \<Rightarrow> SQLConnector \<times> 'd \<Rightarrow> (CPGMatchProfile list \<times> SQLConnector \<times> 'd) result" where
  "load_docs exec date [] cd = Inr ([], cd)"
| "load_docs exec date (doc # rest) cd =
     rbind (createMatch_doc exec date doc cd) (\<lambda>(p, cd1).
       rbind (load_docs exec date rest cd1) (\<lambda>(ps, cd2).
         Inr (case p of None \<Rightarrow> ps | Some q \<Rightarrow> q # ps, cd2)))"

fun loadFromFile_doc ::
    "'d exec \<Rightarrow> (string \<Rightarrow> int) \<Rightarrow> jfile \<Rightarrow> SQLConnector \<times> 'd \<Rightarrow> (CPGMatchProfile list \<times> SQLConnector \<times> 'd) result" where
  "loadFromFile_doc exec date Unparsable cd = Inl Thrown"
| "loadFromFile_doc exec date NullFile cd = Inr ([], cd)"
| "loadFromFile_doc exec date WithoutMatches cd = Inl Thrown"
| "loadFromFile_doc exec date (WithMatches docs) cd = load_docs exec date docs cd"

text \<open>The constructor: the connection to the database, whose failure is only logged.\<close>

definition CPGMatchCreateFactory_new :: "bool \<Rightarrow> (address \<Rightarrow> bool) \<Rightarrow> SQLConnector" where
  "CPGMatchCreateFactory_new init_ok connect_ok =
     snd (connectDB init_ok connect_ok ''CPGLive'' ''root'' ''123456789'' ''127.0.0.1'' 3306 SQLConnector_new)"

section \<open>Types of a configured match\<close>

fun is_number :: "jval option \<Rightarrow> bool" where
  "is_number (Some (JInt i)) = True"
| "is_number (Some (JFloat i)) = True"
| "is_number (Some (JBool b)) = True"
| "is_number v = False"

fun is_text :: "jval option \<Rightarrow> bool" where
  "is_text (Some (JStr s)) = True"
| "is_text v = False"

definition config_members :: "string list" where
  "config_members = ''start_time'' # ''name'' # map fst demanded"

definition well_typed :: "jobject \<Rightarrow> bool" where
  "well_typed j = (is_text (j ''start_time'') \<and> is_text (j ''name'') \<and> list_all (is_number \<circ> j) (map fst demanded))"

text \<open>The values of a well-typed object.\<close>

fun text_of :: "jval option \<Rightarrow> string" where
  "text_of (Some (JStr s)) = s"
| "text_of v = []"

fun number_of :: "jval option \<Rightarrow> int32_w" where
  "number_of (Some (JInt i)) = word_of_int i"
| "number_of (Some (JFloat i)) = word_of_int i"
| "number_of (Some (JBool b)) = word_of_int (of_bool b)"
| "number_of v = 0"

definition typed_profile :: "(string \<Rightarrow> int) \<Rightarrow> jobject \<Rightarrow> CPGMatchProfile" where
  "typed_profile date j = fold (\<lambda>(k, f). f (number_of (j k))) demanded
     (CPGMatchProfile_new\<lparr>start_time := word_of_int (date (text_of (j ''start_time''))), name := text_of (j ''name'')\<rparr>)"

lemma jget_string_typed: "is_text (j k) \<Longrightarrow> jget_string j k = Inr (text_of (j k))"
  by (cases "j k" rule: is_text.cases) (auto simp: jget_string_def jget_def)

lemma jget_string_untyped: "j k \<noteq> None \<Longrightarrow> \<not> is_text (j k) \<Longrightarrow> jget_string j k = Inl Thrown"
  by (cases "j k" rule: is_text.cases) (auto simp: jget_string_def jget_def)

lemma set_demanded_typed: "is_number (j (fst kf)) \<Longrightarrow> set_demanded j kf p = Inr (snd kf (number_of (j (fst kf))) p)"
  by (cases "j (fst kf)" rule: is_number.cases) (auto simp: set_demanded_def jget_int_def jget_def jnumber_def)

lemma set_demanded_untyped: "j (fst kf) \<noteq> None \<Longrightarrow> \<not> is_number (j (fst kf)) \<Longrightarrow> set_demanded j kf p = Inl Thrown"
  by (cases "j (fst kf)" rule: is_number.cases) (auto simp: set_demanded_def jget_int_def jget_def jnumber_def)

lemma read_members:
  assumes "\<forall>kf \<in> set kfs. j (fst kf) \<noteq> None"
  shows "if list_all (is_number \<circ> j) (map fst kfs)
    then read_steps (map (set_demanded j) kfs) p = (None, fold (\<lambda>(k, f). f (number_of (j k))) kfs p)
    else fst (read_steps (map (set_demanded j) kfs) p) = Some Thrown"
  using assms
proof (induction kfs arbitrary: p)
  case (Cons kf kfs)
  obtain k f where kf: "kf = (k, f)"
    by (cases kf)
  show ?case
  proof (cases "is_number (j (fst kf))")
    case True
    then show ?thesis
      using Cons.IH [of "f (number_of (j k)) p"] Cons.prems
      by (simp add: set_demanded_typed kf)
  next
    case False
    then show ?thesis
      using Cons.prems by (simp add: set_demanded_untyped)
  qed
qed simp

text \<open>Reading assigns configured members only; the id in particular stays 0.\<close>

lemma read_steps_keeps:
  "(\<And>f p q. f \<in> set fs \<Longrightarrow> f p = Inr q \<Longrightarrow> g q = g p) \<Longrightarrow> g (snd (read_steps fs p)) = g p"
proof (induction fs arbitrary: p)
  case (Cons f fs)
  have IH: "g (snd (read_steps fs q)) = g q" for q
    using Cons.prems by (intro Cons.IH) (meson list.set_intros(2))
  show ?case
    using IH Cons.prems [of f p] by (cases "f p") simp_all
qed simp

lemma config_steps_keep_mid: "mid (snd (read_steps (config_steps date j) p)) = mid p"
  by (rule read_steps_keeps) (auto simp: config_steps_def demanded_def set_demanded_def)

lemma config_profile_typed: "config_profile (typed_profile date j) = finish_profile (typed_profile date j)"
  by (simp add: config_profile_def finish_profile_def typed_profile_def demanded_def CPGMatchProfile_new_def Let_def)

lemma read_config:
  assumes "\<forall>k \<in> set config_members. j k \<noteq> None"
  shows "if well_typed j then read_steps (config_steps date j) CPGMatchProfile_new = (None, typed_profile date j)
    else fst (read_steps (config_steps date j) CPGMatchProfile_new) = Some Thrown"
proof -
  have j: "j ''start_time'' \<noteq> None" "j ''name'' \<noteq> None" "\<forall>kf \<in> set demanded. j (fst kf) \<noteq> None"
    using assms by (simp_all add: config_members_def)
  consider "\<not> is_text (j ''start_time'')" | "is_text (j ''start_time'')" "\<not> is_text (j ''name'')"
    | "is_text (j ''start_time'')" "is_text (j ''name'')"
    by blast
  then show ?thesis
  proof cases
    case 1
    then show ?thesis
      using j by (simp add: config_steps_def jget_string_untyped well_typed_def)
  next
    case 2
    then show ?thesis
      using j by (simp add: config_steps_def jget_string_typed jget_string_untyped well_typed_def)
  next
    case 3
    then show ?thesis
      using read_members [OF j(3), of "CPGMatchProfile_new\<lparr>start_time := word_of_int (date (text_of (j ''start_time''))),
          name := text_of (j ''name'')\<rparr>"]
      by (simp add: config_steps_def jget_string_typed well_typed_def typed_profile_def split: if_splits)
  qed
qed


text \<open>A match with its entry fee written as a string.\<close>

definition quoted_fee :: jobject where
  "quoted_fee = (map_of (map (\<lambda>k. (k, JInt 1)) (map fst demanded)))
     (''start_time'' \<mapsto> JStr ''2018-12-01 21:30:00'', ''name'' \<mapsto> JStr ''a'', ''entryfee'' \<mapsto> JStr ''5000'')"


text \<open>The JSON form the program itself writes is not among the well-typed ones: its start time is a number.\<close>

lemma written_form_is_not_read:
  "createMatch_doc exec date (DObject (to_json p)) cd = Inr (Some CPGMatchProfile_new, cd)"
proof -
  have "to_json p ''start_time'' = Some (jint (start_time p))"
    by (rule json_field) (simp add: json_fields_def)
  then have "jget_string (to_json p) ''start_time'' = Inl Thrown"
    by (intro jget_string_untyped) (simp_all add: jint_def)
  then show ?thesis
    by (simp add: createMatch_doc_def config_steps_def)
qed

text \<open>What the factory loads from a file of well-typed matches is what \<open>loadFromFile\<close> loads from their values.\<close>

lemma load_docs_typed:
  "\<forall>j \<in> set js. (\<forall>k \<in> set config_members. j k \<noteq> None) \<and> well_typed j \<Longrightarrow>
     loadFromFile_doc exec date (WithMatches (map DObject js)) cd = loadFromFile exec (map (typed_profile date) js) cd"
proof (induction js arbitrary: cd)
  case (Cons j js)
  then have "createMatch_doc exec date (DObject j) cd = createMatch_json exec (typed_profile date j) cd"
    using read_config [of j date] by (simp add: createMatch_doc_def createMatch_json_def config_profile_typed)
  then show ?case
    using Cons by (simp add: case_prod_beta rbind_def split: sum.splits)
qed simp

end
