(* ===== verification/DateFormats.thy ===== *)
theory DateFormats
  imports BetAlgorithm
begin

text \<open>
  The functions of CPG/BetAlgorithm.cc that read dates, with the part of \<open>strptime\<close> their formats use,
  and the ones that agree with the functions that print them. \<open>mktime\<close> is an argument, since it depends
  on the time zone: it takes the broken-down time and \<open>tm_isdst\<close>, which is -1 where the code leaves the
  question open. The result pointer of \<open>strptime\<close> is ignored by all callers: of a text that does not fit,
  the fields before the misfit are set and the others are as they were.
\<close>

section \<open>strptime\<close>

text \<open>A field is read from at most \<open>n\<close> digits and must lie in its range.\<close>

definition read_num :: "nat \<Rightarrow> nat \<Rightarrow> nat \<Rightarrow> string \<Rightarrow> (int \<times> string) option" where
  "read_num n lo hi buf =
     (let ds = take n (takeWhile is_digit buf); v = digits_val ds
      in if ds = [] \<or> v < lo \<or> hi < v then None else Some (int v, drop (length ds) buf))"

definition conv_field :: "char \<Rightarrow> string \<Rightarrow> tm \<Rightarrow> (tm \<times> string) option" where
  "conv_field d buf t =
     (if d = CHR ''Y'' then map_option (\<lambda>(v, rest). (t\<lparr>tm_year := v - 1900\<rparr>, rest)) (read_num 4 0 9999 buf)
      else if d = CHR ''m'' then map_option (\<lambda>(v, rest). (t\<lparr>tm_mon := v - 1\<rparr>, rest)) (read_num 2 1 12 buf)
      else if d = CHR ''d'' then map_option (\<lambda>(v, rest). (t\<lparr>tm_mday := v\<rparr>, rest)) (read_num 2 1 31 buf)
      else if d = CHR ''H'' then map_option (\<lambda>(v, rest). (t\<lparr>tm_hour := v\<rparr>, rest)) (read_num 2 0 23 buf)
      else if d = CHR ''M'' then map_option (\<lambda>(v, rest). (t\<lparr>tm_min := v\<rparr>, rest)) (read_num 2 0 59 buf)
      else if d = CHR ''S'' then map_option (\<lambda>(v, rest). (t\<lparr>tm_sec := v\<rparr>, rest)) (read_num 2 0 60 buf)
      else None)"

function strptime :: "string \<Rightarrow> string \<Rightarrow> tm \<Rightarrow> tm" where
  "strptime fmt buf t =
     (case fmt of
        [] \<Rightarrow> t
      | c # fmt1 \<Rightarrow>
          if c = CHR ''%'' then
            (case fmt1 of
               [] \<Rightarrow> t
             | d # fmt2 \<Rightarrow> (case conv_field d buf t of None \<Rightarrow> t | Some (t', rest) \<Rightarrow> strptime fmt2 rest t'))
          else if is_space c then strptime fmt1 (dropWhile is_space buf) t
          else (case buf of [] \<Rightarrow> t | b # rest \<Rightarrow> if b = c then strptime fmt1 rest t else t))"
  by pat_completeness auto

termination
  by (relation "measure (\<lambda>(fmt, buf, t). length fmt)") auto

declare strptime.simps [simp del]

lemma strptime_simps:
  "strptime [] buf t = t"
  "strptime (CHR ''%'' # d # fmt) buf t = (case conv_field d buf t of None \<Rightarrow> t | Some (t', rest) \<Rightarrow> strptime fmt rest t')"
  "is_space c \<Longrightarrow> strptime (c # fmt) buf t = strptime fmt (dropWhile is_space buf) t"
  "c \<noteq> CHR ''%'' \<Longrightarrow> \<not> is_space c \<Longrightarrow> strptime (c # fmt) (c # rest) t = strptime fmt rest t"
  by (subst strptime.simps; auto simp: is_space_def)+

section \<open>The functions that read dates\<close>

type_synonym mktime = "tm \<times> int \<Rightarrow> int"

definition tm_zero :: tm where
  "tm_zero = \<lparr>tm_year = 0, tm_mon = 0, tm_mday = 0, tm_hour = 0, tm_min = 0, tm_sec = 0\<rparr>"

definition convert_time :: "mktime \<Rightarrow> string \<Rightarrow> int" where
  "convert_time mktime s = mktime (strptime ''%Y-%m-%d'' s tm_zero, - 1)"

definition convert_date_to_int :: "mktime \<Rightarrow> string \<Rightarrow> int" where
  "convert_date_to_int mktime s = mktime (strptime ''%Y/%m/%d'' s tm_zero, - 1)"

definition GetDateIntFromFormat :: "mktime \<Rightarrow> int \<Rightarrow> int" where
  "GetDateIntFromFormat mktime n = mktime (strptime ''%Y%m%d'' (to_string n) tm_zero, - 1)"

definition GetDateTimeIntFromFormat :: "mktime \<Rightarrow> string \<Rightarrow> int" where
  "GetDateTimeIntFromFormat mktime s = mktime (strptime ''%Y-%m-%d %H:%M:%S'' s tm_zero, - 1)"

definition GetCurDateInt :: "mktime \<Rightarrow> tm \<times> int \<Rightarrow> int" where
  "GetCurDateInt mktime p = (case p of (t, isdst) \<Rightarrow> mktime (t\<lparr>tm_sec := 0, tm_min := 0, tm_hour := 0\<rparr>, isdst))"

text \<open>\<open>fopen\<close> fails for \<open>None\<close>; the string ends at the first zero byte of the file.\<close>

definition getStringFromFile :: "string option \<Rightarrow> string" where
  "getStringFromFile content = (case content of None \<Rightarrow> [] | Some cs \<Rightarrow> takeWhile (\<lambda>c. c \<noteq> CHR 0x00) cs)"

section \<open>Reading what was printed\<close>

lemma digits_val_zeros: "digits_val (replicate k (CHR ''0'') @ cs) = digits_val cs"
  by (induction k) (simp_all add: digits_val_def digit_val_def)

lemma pad0_digits:
  assumes "0 \<le> i"
  shows "list_all is_digit (pad0 w i)" "digits_val (pad0 w i) = nat i"
proof -
  have "is_digit (CHR ''0'')"
    by (simp add: is_digit_def)
  then show "list_all is_digit (pad0 w i)"
    using assms dec_digits [of "nat i"] by (auto simp: pad0_def list_all_iff)
  show "digits_val (pad0 w i) = nat i"
    using assms by (simp add: pad0_def digits_val_zeros digits_val_dec)
qed

lemma read_num_exact:
  assumes "list_all is_digit ds" and "length ds = n" and "0 < n" and "lo \<le> digits_val ds" and "digits_val ds \<le> hi"
  shows "read_num n lo hi (ds @ rest) = Some (int (digits_val ds), rest)"
proof -
  have "takeWhile is_digit (ds @ rest) = ds @ takeWhile is_digit rest"
    using assms(1) by (simp add: list_all_iff)
  then have "take n (takeWhile is_digit (ds @ rest)) = ds"
    using assms(2) by simp
  then show ?thesis
    using assms by (auto simp: read_num_def)
qed

lemma read_pad0:
  assumes "int lo \<le> i" and "i \<le> int hi" and "hi < 100"
  shows "read_num 2 lo hi (pad0 2 i @ rest) = Some (i, rest)"
proof -
  have "read_num 2 lo hi (pad0 2 i @ rest) = Some (int (digits_val (pad0 2 i)), rest)"
    using assms pad0_digits [of i 2] by (intro read_num_exact) (simp_all add: length_pad0)
  then show ?thesis
    using assms(1) pad0_digits [of i 2] by simp
qed

lemma dec_snoc: "0 < q \<Longrightarrow> r < 10 \<Longrightarrow> dec (q * 10 + r) = dec q @ [digit_char r]"
  by (subst dec.simps) simp

lemma dec_digit: "n < 10 \<Longrightarrow> dec n = [digit_char n]"
  by (subst dec.simps) simp

lemma digit_char_0: "digit_char 0 = CHR ''0''"
  by code_simp

lemma pad0_2:
  assumes "n < 100"
  shows "pad0 2 (int n) = [digit_char (n div 10), digit_char (n mod 10)]"
proof (cases "n < 10")
  case True
  then show ?thesis
    by (simp add: pad0_def dec_digit digit_char_0)
next
  case False
  then have "dec n = [digit_char (n div 10), digit_char (n mod 10)]"
    using dec_snoc [of "n div 10" "n mod 10"] assms by (simp add: dec_digit)
  then show ?thesis
    by (simp add: pad0_def)
qed

lemma dec_split:
  assumes "0 < q" and "n < 100"
  shows "dec (q * 100 + n) = dec q @ pad0 2 (int n)"
proof -
  have "q * 100 + n = (q * 10 + n div 10) * 10 + n mod 10"
    by (simp add: algebra_simps)
  then have "dec (q * 100 + n) = dec (q * 10 + n div 10) @ [digit_char (n mod 10)]"
    using dec_snoc [of "q * 10 + n div 10" "n mod 10"] assms(1) by (simp only:)
  also have "dec (q * 10 + n div 10) = dec q @ [digit_char (n div 10)]"
    using assms by (intro dec_snoc) simp_all
  finally show ?thesis
    using assms(2) by (simp add: pad0_2)
qed

text \<open>A year of four digits is read back from its digits, whatever follows.\<close>

lemma read_year:
  assumes "tm_ok t"
  shows "read_num 4 0 9999 (dec (nat (tm_year t + 1900)) @ rest) = Some (tm_year t + 1900, rest)"
proof -
  let ?y = "nat (tm_year t + 1900)"
  have y: "10 ^ 3 \<le> ?y" "?y < 10 ^ 4"
    using assms by (simp_all add: tm_ok_def nat_less_iff le_nat_iff)
  have "length (dec ?y) = 4"
    using length_dec [of ?y 4] length_dec_min [of 3 ?y] y by simp
  then have "read_num 4 0 9999 (dec ?y @ rest) = Some (int (digits_val (dec ?y)), rest)"
    using dec_digits [of ?y] y(2) by (intro read_num_exact) (simp_all add: digits_val_dec)
  then show ?thesis
    using assms by (simp add: digits_val_dec tm_ok_def)
qed

definition midnight :: "tm \<Rightarrow> tm" where
  "midnight t = t\<lparr>tm_hour := 0, tm_min := 0, tm_sec := 0\<rparr>"

text \<open>The text of a date and a time, in the format of the configuration and the web interface.\<close>

definition date_text :: "tm \<Rightarrow> string" where
  "date_text t = getCurrentSystemDate t @ '' '' @ pad0 2 (tm_hour t) @ '':'' @ pad0 2 (tm_min t) @ '':'' @ pad0 2 (tm_sec t)"

lemma read_date_fields:
  assumes "tm_ok t"
  shows "conv_field (CHR ''Y'') (dec (nat (tm_year t + 1900)) @ rest) s = Some (s\<lparr>tm_year := tm_year t\<rparr>, rest)"
    "conv_field (CHR ''m'') (pad0 2 (tm_mon t + 1) @ rest) s = Some (s\<lparr>tm_mon := tm_mon t\<rparr>, rest)"
    "conv_field (CHR ''d'') (pad0 2 (tm_mday t) @ rest) s = Some (s\<lparr>tm_mday := tm_mday t\<rparr>, rest)"
    "conv_field (CHR ''H'') (pad0 2 (tm_hour t) @ rest) s = Some (s\<lparr>tm_hour := tm_hour t\<rparr>, rest)"
    "conv_field (CHR ''M'') (pad0 2 (tm_min t) @ rest) s = Some (s\<lparr>tm_min := tm_min t\<rparr>, rest)"
    "conv_field (CHR ''S'') (pad0 2 (tm_sec t) @ rest) s = Some (s\<lparr>tm_sec := tm_sec t\<rparr>, rest)"
  using assms by (simp_all add: conv_field_def read_year read_pad0 tm_ok_def)

lemmas read_date_ends = read_date_fields [where rest = "[]", simplified]

lemma pad0_starts: "0 \<le> i \<Longrightarrow> dropWhile is_space (pad0 w i @ rest) = pad0 w i @ rest"
proof -
  assume i: "0 \<le> i"
  have "pad0 w i \<noteq> []"
    using i dec_digits [of "nat i"] by (simp add: pad0_def)
  then obtain c cs where "pad0 w i = c # cs"
    by (cases "pad0 w i") auto
  then show ?thesis
    using pad0_digits(1) [OF i, of w] digit_not_special [of c] by simp
qed

lemma GetCurDateFormat_text:
  assumes "tm_ok t"
  shows "to_string (GetCurDateFormat (Some t)) = dec (nat (tm_year t + 1900)) @ pad0 2 (tm_mon t + 1) @ pad0 2 (tm_mday t)"
proof -
  obtain y m d where f: "tm_year t + 1900 = int y" "tm_mon t + 1 = int m" "tm_mday t = int d" and "0 < y" "m < 100" "d < 100"
  proof (rule that)
    show "tm_year t + 1900 = int (nat (tm_year t + 1900))" "tm_mon t + 1 = int (nat (tm_mon t + 1))"
        "tm_mday t = int (nat (tm_mday t))"
      using assms by (simp_all add: tm_ok_def)
    show "0 < nat (tm_year t + 1900)" "nat (tm_mon t + 1) < 100" "nat (tm_mday t) < 100"
      using assms unfolding tm_ok_def by linarith+
  qed
  then have "dec (y * 100 * 100 + m * 100 + d) = dec y @ pad0 2 (int m) @ pad0 2 (int d)"
    using dec_split [of y m] dec_split [of "y * 100 + m" d] by (simp add: algebra_simps)
  moreover have "GetCurDateFormat (Some t) = int (y * 100 * 100 + m * 100 + d)"
    unfolding GetCurDateFormat_def by (simp add: f)
  moreover have "to_string (int n) = dec n" for n
    by (simp add: to_string_def)
  ultimately show ?thesis
    by (simp only: f nat_int)
qed

text \<open>C20: Dates survive their formats. For a broken-down time with a year of four digits, the two functions
  that read dates undo the two that print them, up to the time of day; a text with date and time is
  read back completely; and the beginning of the current day is that of the day that is printed, if
  \<open>mktime\<close> answers the question of summer time as \<open>localtime\<close> did.\<close>

theorem date_formats_round_trip:
  assumes "tm_ok t"
  shows "convert_time mktime (getCurrentSystemDate t) = mktime (midnight t, - 1) \<and>
    GetDateIntFromFormat mktime (GetCurDateFormat (Some t)) = mktime (midnight t, - 1) \<and>
    GetDateTimeIntFromFormat mktime (date_text t) = mktime (t, - 1) \<and>
    (mktime (midnight t, isdst) = mktime (midnight t, - 1) \<longrightarrow>
      GetCurDateInt mktime (t, isdst) = convert_time mktime (getCurrentSystemDate t))"
proof -
  have year: "to_string (tm_year t + 1900) = dec (nat (tm_year t + 1900))"
    using assms by (simp add: to_string_def tm_ok_def)
  have space: "is_space (CHR '' '')" "\<not> is_space (CHR ''-'')" "\<not> is_space (CHR '':'')"
    by (simp_all add: is_space_def)
  have "strptime ''%Y-%m-%d'' (getCurrentSystemDate t) tm_zero = midnight t"
    using read_date_fields [OF assms] read_date_ends [OF assms] space
    by (simp add: getCurrentSystemDate_def year strptime_simps midnight_def tm_zero_def)
  moreover have "strptime ''%Y%m%d'' (to_string (GetCurDateFormat (Some t))) tm_zero = midnight t"
    unfolding GetCurDateFormat_text [OF assms] using read_date_fields [OF assms] read_date_ends [OF assms]
    by (simp add: strptime_simps midnight_def tm_zero_def)
  moreover have "strptime ''%Y-%m-%d %H:%M:%S'' (date_text t) tm_zero = t"
    using read_date_fields [OF assms] read_date_ends [OF assms] space pad0_starts [of "tm_hour t" 2] assms
    by (simp add: date_text_def getCurrentSystemDate_def year strptime_simps tm_zero_def tm_ok_def)
  moreover have "t\<lparr>tm_sec := 0, tm_min := 0, tm_hour := 0\<rparr> = midnight t"
    by (cases t) (simp add: midnight_def)
  ultimately show ?thesis
    by (simp add: convert_time_def GetDateIntFromFormat_def GetDateTimeIntFromFormat_def GetCurDateInt_def)
qed

theorem date_formats_round_trip_witness:
  "GetDateTimeIntFromFormat (\<lambda>(t, d). tm_mday t * 86400 + tm_hour t * 3600 + tm_min t * 60 + tm_sec t)
     (date_text \<lparr>tm_year = 118, tm_mon = 11, tm_mday = 1, tm_hour = 21, tm_min = 30, tm_sec = 5\<rparr>) = 163805"
  using date_formats_round_trip [of "\<lparr>tm_year = 118, tm_mon = 11, tm_mday = 1, tm_hour = 21, tm_min = 30, tm_sec = 5\<rparr>"
      "\<lambda>(t, d). tm_mday t * 86400 + tm_hour t * 3600 + tm_min t * 60 + tm_sec t" 0]
  by (simp add: tm_ok_def)

text \<open>A text that is no date is the last day of 1899 and not an error; one whose time is malformed is read
  as far as it goes.\<close>

lemma unreadable_date_is_taken:
  "GetDateTimeIntFromFormat mktime ''tomorrow'' = mktime (tm_zero, - 1)"
  "GetDateTimeIntFromFormat mktime ''2018-12-01 2130'' = mktime (tm_zero\<lparr>tm_year := 118, tm_mon := 11, tm_mday := 1, tm_hour := 21\<rparr>, - 1)"
proof -
  have "strptime ''%Y-%m-%d %H:%M:%S'' ''tomorrow'' tm_zero = tm_zero"
    by code_simp
  moreover have "strptime ''%Y-%m-%d %H:%M:%S'' ''2018-12-01 2130'' tm_zero =
      tm_zero\<lparr>tm_year := 118, tm_mon := 11, tm_mday := 1, tm_hour := 21\<rparr>"
    by code_simp
  ultimately show "GetDateTimeIntFromFormat mktime ''tomorrow'' = mktime (tm_zero, - 1)"
    "GetDateTimeIntFromFormat mktime ''2018-12-01 2130'' = mktime (tm_zero\<lparr>tm_year := 118, tm_mon := 11, tm_mday := 1, tm_hour := 21\<rparr>, - 1)"
    by (simp_all add: GetDateTimeIntFromFormat_def)
qed

end
