(* ===== verification/SessionFactories.thy ===== *)
theory SessionFactories
  imports TCPEndpoints CSKernel GateServer MatchServer LoginBalanceServers Decimal
begin

text \<open>
  The session factories of the servers (the classes derived from TCPSessionFactory in the session headers
  of src/CentralServer, src/GateWay, src/MatchServer, src/LoginServer and src/BalanceServer), and what a
  listener does with the socket it has accepted. \<open>endpoint\<close> is the answer of the socket when it is asked
  for its peer: \<open>None\<close> when the peer is gone already, for which asio's \<open>remote_endpoint\<close> throws.
\<close>

section \<open>Factories\<close>

type_synonym endpoint = "(string \<times> int) option"

record SessionFactory =
  createSession :: "endpoint \<Rightarrow> string result"
  factory_type :: int

text \<open>The name of a session, printed into an array of 64.\<close>

definition peer_name :: "string \<Rightarrow> endpoint \<Rightarrow> string result" where
  "peer_name prefix endpoint = (case endpoint of
     None \<Rightarrow> Inl Thrown
   | Some (ip, port) \<Rightarrow> Inr (take 63 (prefix @ ip @ '':'' @ to_string port)))"

definition CS_GateSessionFactory :: SessionFactory where
  "CS_GateSessionFactory = \<lparr>createSession = peer_name ''GC-'', factory_type = ServerType_GateServer\<rparr>"

definition CS_LoginSessionFactory :: SessionFactory where
  "CS_LoginSessionFactory = \<lparr>createSession = peer_name ''LC-'', factory_type = ServerType_LoginServer\<rparr>"

definition CS_MatchSessionFactory :: SessionFactory where
  "CS_MatchSessionFactory = \<lparr>createSession = peer_name ''MC-'', factory_type = ServerType_MatchServer\<rparr>"

definition CS_BalanceSessionFactory :: SessionFactory where
  "CS_BalanceSessionFactory = \<lparr>createSession = peer_name ''LC-'', factory_type = ServerType_BalanceServer\<rparr>"

definition CGSessionFactory :: SessionFactory where
  "CGSessionFactory = \<lparr>createSession = peer_name ''CG-'', factory_type = ServerType_Client\<rparr>"

definition MS_GateSessionFactory :: SessionFactory where
  "MS_GateSessionFactory = \<lparr>createSession = peer_name ''GM-'', factory_type = ServerType_GateServer\<rparr>"

definition LS_GateSessionFactory :: SessionFactory where
  "LS_GateSessionFactory = \<lparr>createSession = peer_name ''GL-'', factory_type = ServerType_GateServer\<rparr>"

definition CBSessionFactory :: SessionFactory where
  "CBSessionFactory = \<lparr>createSession = peer_name ''CB-'', factory_type = ServerType_Client\<rparr>"

text \<open>The factory a kernel makes for the type of a listener, \<open>None\<close> for a null pointer.\<close>

definition cs_factory :: "int \<Rightarrow> SessionFactory option" where
  "cs_factory t =
     (if t = ServerType_GateServer then Some CS_GateSessionFactory
      else if t = ServerType_LoginServer then Some CS_LoginSessionFactory
      else if t = ServerType_MatchServer then Some CS_MatchSessionFactory
      else if t = ServerType_BalanceServer then Some CS_BalanceSessionFactory
      else None)"

definition gs_factory :: "int \<Rightarrow> SessionFactory option" where
  "gs_factory t = (if t = ServerType_Client then Some CGSessionFactory else None)"

definition ms_factory :: "int \<Rightarrow> SessionFactory option" where
  "ms_factory t = (if t = ServerType_GateServer then Some MS_GateSessionFactory else None)"

definition ls_factory :: "int \<Rightarrow> SessionFactory option" where
  "ls_factory t = (if t = ServerType_GateServer then Some LS_GateSessionFactory else None)"

definition bs_factory :: "int \<Rightarrow> SessionFactory option" where
  "bs_factory t = (if t = ServerType_Client then Some CBSessionFactory else None)"

text \<open>\<open>TCPListener::newConnection\<close> with its factory; a null factory is called through a null pointer.\<close>

definition listener_accept ::
  "nat \<Rightarrow> int \<Rightarrow> session_ptr \<Rightarrow> SessionFactory option \<Rightarrow> endpoint \<Rightarrow> TCPSessionManager \<Rightarrow>
   (string \<times> TCPSessionManager \<times> (session_ptr \<times> effect) list) result"
where
  "listener_accept M now p factory endpoint m = (case factory of
     None \<Rightarrow> Inl NullDeref
   | Some f \<Rightarrow> rbind (createSession f endpoint) (\<lambda>name.
       rbind (listener_newConnection M now p (word_of_int (factory_type f)) m) (\<lambda>(m, es). Inr (name, m, es))))"

section \<open>Properties\<close>

text \<open>The kernels serve each type of listener with sessions of that type.\<close>

lemma factory_types:
  "map_option factory_type (cs_factory t) = cs_sessionFactory t"
  "map_option factory_type (gs_factory t) = gs_sessionFactory t"
  "map_option factory_type (ms_factory t) = ms_sessionFactory t"
  "map_option factory_type (ls_factory t) = ls_sessionFactory t"
  "map_option factory_type (bs_factory t) = bs_sessionFactory t"
  by (simp_all add: cs_factory_def gs_factory_def ms_factory_def ls_factory_def bs_factory_def cs_sessionFactory_def
      gs_sessionFactory_def ms_sessionFactory_def ls_sessionFactory_def bs_sessionFactory_def CS_GateSessionFactory_def
      CS_LoginSessionFactory_def CS_MatchSessionFactory_def CS_BalanceSessionFactory_def CGSessionFactory_def
      MS_GateSessionFactory_def LS_GateSessionFactory_def CBSessionFactory_def)

definition server_factories :: "SessionFactory list" where
  "server_factories = [CS_GateSessionFactory, CS_LoginSessionFactory, CS_MatchSessionFactory, CS_BalanceSessionFactory,
     CGSessionFactory, MS_GateSessionFactory, LS_GateSessionFactory, CBSessionFactory]"

lemma factory_prefix:
  "createSession CS_GateSessionFactory = peer_name ''GC-''" "createSession CS_LoginSessionFactory = peer_name ''LC-''"
  "createSession CS_MatchSessionFactory = peer_name ''MC-''" "createSession CS_BalanceSessionFactory = peer_name ''LC-''"
  "createSession CGSessionFactory = peer_name ''CG-''" "createSession MS_GateSessionFactory = peer_name ''GM-''"
  "createSession LS_GateSessionFactory = peer_name ''GL-''" "createSession CBSessionFactory = peer_name ''CB-''"
  by (simp_all only: CS_GateSessionFactory_def CS_LoginSessionFactory_def CS_MatchSessionFactory_def CS_BalanceSessionFactory_def
      CGSessionFactory_def MS_GateSessionFactory_def LS_GateSessionFactory_def CBSessionFactory_def SessionFactory.select_convs)

lemma factory_is_peer_name:
  assumes "f \<in> set server_factories"
  shows "\<exists>prefix. length prefix = 3 \<and> createSession f = peer_name prefix"
proof -
  let ?ps = "{''GC-'', ''LC-'', ''MC-'', ''CG-'', ''GM-'', ''GL-'', ''CB-''}"
  have "createSession f \<in> peer_name ` ?ps"
    using assms unfolding server_factories_def set_simps insert_iff empty_iff
    by (elim disjE FalseE) (simp_all only: factory_prefix, blast+)
  then obtain prefix where "prefix \<in> ?ps" "createSession f = peer_name prefix"
    by blast
  then show ?thesis
    by (intro exI [of _ prefix]) auto
qed

lemma to_string_no_colon: "0 \<le> i \<Longrightarrow> CHR '':'' \<notin> set (to_string i)"
proof -
  assume "0 \<le> i"
  moreover have "\<not> is_digit (CHR '':'')"
    by (simp add: is_digit_def)
  ultimately show ?thesis
    using dec_digits [of "nat i"] by (auto simp: to_string_def list_all_iff)
qed

lemma to_string_inj:
  assumes "0 \<le> i" and "0 \<le> j" and "to_string i = to_string j"
  shows "i = j"
proof -
  have "dec (nat i) = dec (nat j)"
    using assms by (simp add: to_string_def)
  then have "nat i = nat j"
    by (metis digits_val_dec)
  then show ?thesis
    using assms(1,2) by simp
qed

text \<open>The last colon separates address and port, whatever the address looks like.\<close>

lemma last_colon:
  assumes "a @ CHR '':'' # b = c @ CHR '':'' # d" and "CHR '':'' \<notin> set b" and "CHR '':'' \<notin> set d"
  shows "a = c \<and> b = d"
  using assms by (auto simp: append_eq_append_conv2 append_eq_Cons_conv Cons_eq_append_conv)

text \<open>C32: Names identify peers. A connection that is accepted while its peer is there gets a session that is
  connected, registered, of the type of its listener, and named after the peer: two addresses that fit
  the array have the same name at a factory only if they are the same. A peer that has gone away before
  its session is made ends the server with an exception, whatever the factory.\<close>

theorem accepted_peer_is_named:
  assumes "f \<in> set server_factories" and "mgr_ok M m" and "has_room M (sessionMap m)" and "heap m p = None" and "M < 2 ^ 31"
    and "length ip + length (to_string port) \<le> 59" and "0 \<le> port"
  shows "(\<exists>name m' s'. listener_accept M now p (Some f) (Some (ip, port)) m = Inr (name, m', [(p, AsyncRead), (p, SendInitData)]) \<and>
      mgr_ok M m' \<and> heap m' p = Some s' \<and> session_type s' = word_of_int (factory_type f) \<and> getSession M (uuid s') m' = Inr (Some p) \<and>
      (\<forall>ip' port'. length ip' + length (to_string port') \<le> 59 \<longrightarrow> 0 \<le> port' \<longrightarrow>
        createSession f (Some (ip', port')) = Inr name \<longrightarrow> ip' = ip \<and> port' = port)) \<and>
    listener_accept M now p (Some f) None m = Inl Thrown"
proof -
  obtain prefix where f: "length prefix = 3" "createSession f = peer_name prefix"
    using factory_is_peer_name [OF assms(1)] by blast
  have full: "createSession f (Some (i, k)) = Inr (prefix @ i @ '':'' @ to_string k)"
    if "length i + length (to_string k) \<le> 59" for i k
    using that f by (simp add: peer_name_def)
  have "\<exists>m' s'. listener_newConnection M now p (word_of_int (factory_type f)) m = Inr (m', [(p, AsyncRead), (p, SendInitData)]) \<and>
      mgr_ok M m' \<and> heap m' p = Some s' \<and> session_type s' = word_of_int (factory_type f) \<and> getSession M (uuid s') m' = Inr (Some p)"
    using accepted_session_is_registered [OF assms(2-5), of now "word_of_int (factory_type f)"] by blast
  moreover have "i = ip \<and> k = port"
    if "prefix @ i @ '':'' @ to_string k = prefix @ ip @ '':'' @ to_string port" "0 \<le> k" for i k
    using that assms(7) last_colon [of i "to_string k" ip "to_string port"] to_string_no_colon [of k] to_string_no_colon [of port]
      to_string_inj [of k port] by simp
  ultimately have "\<exists>name m' s'. listener_accept M now p (Some f) (Some (ip, port)) m = Inr (name, m', [(p, AsyncRead), (p, SendInitData)]) \<and>
      mgr_ok M m' \<and> heap m' p = Some s' \<and> session_type s' = word_of_int (factory_type f) \<and> getSession M (uuid s') m' = Inr (Some p) \<and>
      (\<forall>ip' port'. length ip' + length (to_string port') \<le> 59 \<longrightarrow> 0 \<le> port' \<longrightarrow>
        createSession f (Some (ip', port')) = Inr name \<longrightarrow> ip' = ip \<and> port' = port)"
    by (fastforce simp: listener_accept_def full [OF assms(6)] full)
  moreover have "listener_accept M now p (Some f) None m = Inl Thrown"
    by (simp add: listener_accept_def f(2) peer_name_def)
  ultimately show ?thesis
    by blast
qed

theorem accepted_peer_is_named_witness:
  "\<exists>name m' s'. listener_accept 3 0 9 (gs_factory 0) (Some (''10.0.0.7'', 50123)) sample_sessions =
      Inr (name, m', [(9, AsyncRead), (9, SendInitData)]) \<and> heap m' 9 = Some s' \<and> session_type s' = 0"
proof -
  have room: "has_room 3 (sessionMap sample_sessions)"
    by (simp add: sample_sessions_def has_room_def addObject_def ObjectIndexPool_new_def)
  have len: "length ''10.0.0.7'' + length (to_string 50123) \<le> 59"
    using length_dec [of 50123 5] by (simp add: to_string_def)
  have f: "CGSessionFactory \<in> set server_factories" "gs_factory 0 = Some CGSessionFactory"
      "word_of_int (factory_type CGSessionFactory) = (0 :: 8 word)"
    by (simp_all add: server_factories_def gs_factory_def ServerType_Client_def CGSessionFactory_def)
  have new: "heap sample_sessions 9 = None" and small: "3 < (2 :: nat) ^ 31" and port: "0 \<le> (50123 :: int)"
    by (simp_all add: sample_heap)
  show ?thesis
    using accepted_peer_is_named [OF f(1) sample_sessions_ok room new small len port, of 0] unfolding f(2,3) by blast
qed

text \<open>Login and balance sessions of the central server are named alike.\<close>

lemma login_and_balance_names_clash: "createSession CS_LoginSessionFactory = createSession CS_BalanceSessionFactory"
  by (simp add: CS_LoginSessionFactory_def CS_BalanceSessionFactory_def)

end
