(* ===== verification/Cluster.thy ===== *)
theory Cluster
  imports CSKernel MatchServer
begin

text \<open>
  The central server and its match servers as one system: what the central server has assigned
  and what the match servers run. Between them is a channel per session, which TCP keeps in
  order (TCPSession, PacketLoop); a packet in it is the message id and the body as the session
  to the central server (M2CSession) parses it. Packets that session does not look at, such as
  the reply to a registration, travel through the same channel.

  The consistency check after a reconnection is not a step: what it does is shown with the servers
  together in the root theory, and it does not keep the invariant.

  The state is the kernel of the central server, and for each uuid of one of its sessions the
  match server behind it and the packets under way to it. The steps are runs of whole handlers,
  one for each event of the event loops.
\<close>

section \<open>Running the effects of the match manager\<close>

text \<open>The callback of the manager is \<open>distributeMatch\<close>; its requests to the database thread
  send nothing to a match server.\<close>

fun run_callbacks :: "mm_effect list \<Rightarrow> CSKernel \<Rightarrow> cs_result" where
  "run_callbacks [] k = Inr (k, [])"
| "run_callbacks (e # es) k =
     (case e of
        ChangedMatchMap upd \<Rightarrow> rbind (distributeMatch upd k) (\<lambda>(k1, cmds).
          rbind (run_callbacks es k1) (\<lambda>(k2, cmds'). Inr (k2, cmds @ cmds')))
      | _ \<Rightarrow> run_callbacks es k)"

definition cs_redistribute :: "int \<Rightarrow> CSKernel \<Rightarrow> cs_result" where
  "cs_redistribute now k =
     rbind (updateDistMatchServices now (matchManager k)) (\<lambda>(mm, es).
       run_callbacks es (k\<lparr>matchManager := mm\<rparr>))"

definition cs_cancelMatch :: "int \<Rightarrow> int \<Rightarrow> CSKernel \<Rightarrow> cs_result" where
  "cs_cancelMatch i reason k =
     rbind (cancelMatch i reason (matchManager k)) (\<lambda>(r, mm, es).
       run_callbacks es (k\<lparr>matchManager := mm\<rparr>))"

section \<open>Channels\<close>

type_synonym packet = "int \<times> m2c_body option"

definition m2c_parse :: "message \<Rightarrow> m2c_body option" where
  "m2c_parse msg = (case msg of
     ServiceMatchDistibuteNotify s mids \<Rightarrow> Some (BDistribute mids)
   | CheckMatchDistributeRS lid t r mids \<Rightarrow> Some (BCheckRS r mids)
   | _ \<Rightarrow> None)"

fun m2c_packet :: "command \<Rightarrow> (int \<times> packet) option" where
  "m2c_packet (Send (ToUuid u) ty msg x) = Some (u, ty, m2c_parse msg)"
| "m2c_packet (Send (ToSession u) ty msg x) = Some (u, ty, m2c_parse msg)"
| "m2c_packet c = None"

definition packets_to :: "int \<Rightarrow> command list \<Rightarrow> packet list" where
  "packets_to s cmds = map snd (filter (\<lambda>p. fst p = s) (List.map_filter m2c_packet cmds))"

definition enqueue :: "command list \<Rightarrow> (int \<Rightarrow> packet list) \<Rightarrow> int \<Rightarrow> packet list" where
  "enqueue cmds ch = (\<lambda>s. ch s @ packets_to s cmds)"

section \<open>The system\<close>

record Cluster =
  central :: CSKernel
  match_servers :: "int \<Rightarrow> MSKernel"
  channels :: "int \<Rightarrow> packet list"

abbreviation manager :: "Cluster \<Rightarrow> CSMatchManager" where
  "manager c \<equiv> matchManager (central c)"

text \<open>The match servers that are connected and registered, by the uuid of their session.\<close>

definition live :: "CSKernel \<Rightarrow> int \<Rightarrow> bool" where
  "live k s = (case map_of (servers k) s of
     Some (Some info) \<Rightarrow> si_type info = ServerType_MatchServer | _ \<Rightarrow> False)"

definition deliver :: "packet \<Rightarrow> MSKernel \<Rightarrow> MSKernel" where
  "deliver p = M2CSession_handlerMsg (fst p) (snd p)"

text \<open>
  The uuid of a new session: no registered server has it, and no server that was lost so recently
  that the manager still lists it. The pool of indices (ObjectIndexPool) gives the first 10001
  sessions uuids of their own and then those given back longest ago.
\<close>

definition new_uuid :: "int \<Rightarrow> CSKernel \<Rightarrow> bool" where
  "new_uuid s k \<longleftrightarrow> 0 \<le> s \<and> s < 2 ^ 31 \<and> map_of (servers k) s = None \<and>
     s \<notin> set (sids (matchServices (matchManager k)))"

text \<open>
  The steps. A match server that registers is a new process with a new session, so the channel
  to it is empty. When a connection is lost, what was under way on it is lost too. The database
  gives new matches new ids. A match is cancelled while its service is connected. A match server
  plays: it handles any packet of a gate.
\<close>

inductive cluster_step :: "Cluster \<Rightarrow> Cluster \<Rightarrow> bool" where
  registers:
    "ref_type session = ServerType_MatchServer \<Longrightarrow> new_uuid (ref_uuid session) (central c) \<Longrightarrow> rq_sid r = INVALID_LID \<Longrightarrow>
     MatchSession_handlerMsg now session kServerRegistRQ (Some (BRegister r)) extra (central c) = Inr (k, cmds) \<Longrightarrow>
     ms_manager ms = MSMatchManager_new \<Longrightarrow>
     cluster_step c (c\<lparr>central := k, match_servers := (match_servers c)(ref_uuid session := ms),
       channels := enqueue cmds ((channels c)(ref_uuid session := []))\<rparr>)"
| other_registers:
    "ref_type session \<noteq> ServerType_MatchServer \<Longrightarrow> new_uuid (ref_uuid session) (central c) \<Longrightarrow> rq_sid r = INVALID_LID \<Longrightarrow>
     serverRegistRQ now session (Some r) (central c) = Inr (k, cmds) \<Longrightarrow>
     cluster_step c (c\<lparr>central := k, channels := enqueue cmds (channels c)\<rparr>)"
| connection_lost:
    "- (2 ^ 31) \<le> ref_logicID session \<Longrightarrow> ref_logicID session < 2 ^ 31 \<Longrightarrow>
     cs_onClose now session (central c) = Inr k \<Longrightarrow>
     cluster_step c (c\<lparr>central := k, channels := (channels c)(ref_logicID session := [])\<rparr>)"
| redistributes:
    "cs_redistribute now (central c) = Inr (k, cmds) \<Longrightarrow>
     cluster_step c (c\<lparr>central := k, channels := enqueue cmds (channels c)\<rparr>)"
| cancels:
    "getService i (manager c) \<le> 0 \<or> live (central c) (getService i (manager c)) \<Longrightarrow>
     cs_cancelMatch i reason (central c) = Inr (k, cmds) \<Longrightarrow>
     cluster_step c (c\<lparr>central := k, channels := enqueue cmds (channels c)\<rparr>)"
| updates:
    "updateMatch i properties (manager c) = (r, mm, es) \<Longrightarrow>
     cluster_step c (c\<lparr>central := (central c)\<lparr>matchManager := mm\<rparr>\<rparr>)"
| creates:
    "\<forall>p \<in> set ps. om_find id (sint (mid p)) (matches (manager c)) = None \<Longrightarrow>
     cluster_step c (c\<lparr>central := (central c)\<lparr>matchManager := createdMatches now ps (manager c)\<rparr>\<rparr>)"
| delivers:
    "channels c s = p # rest \<Longrightarrow>
     cluster_step c (c\<lparr>match_servers := (match_servers c)(s := deliver p (match_servers c s)),
       channels := (channels c)(s := rest)\<rparr>)"
| plays:
    "MSGateSession_handlerMsg session ty parsed extra (match_servers c s) = (ms, cmds) \<Longrightarrow>
     cluster_step c (c\<lparr>match_servers := (match_servers c)(s := ms)\<rparr>)"

inductive_cases cluster_stepE: "cluster_step c c'"

text \<open>The central server starts with the matches of the factory; nobody is connected.\<close>

definition cluster_start :: "(int, CPGMatchProfile) omap \<Rightarrow> int \<Rightarrow> Listener list \<Rightarrow> (int \<Rightarrow> MSKernel) \<Rightarrow> Cluster" where
  "cluster_start loadedMatches now listens ms =
     \<lparr>central = cs_start now listens
        \<lparr>servers = [], matchManager = mm_initialize loadedMatches (CSMatchManager_new now)\<rparr>,
      match_servers = ms, channels = (\<lambda>_. [])\<rparr>"

inductive cluster_reachable :: "Cluster \<Rightarrow> bool" where
  init: "om_ok id loadedMatches \<Longrightarrow> cluster_reachable (cluster_start loadedMatches now listens ms)"
| step: "cluster_reachable c \<Longrightarrow> cluster_step c c' \<Longrightarrow> cluster_reachable c'"

section \<open>What a match server makes of its packets\<close>

text \<open>The matches of a server once everything under way to it has arrived.\<close>

definition run_by :: "MSKernel \<Rightarrow> int list" where
  "run_by ms = ms_matches (ms_manager ms)"

definition will_run :: "Cluster \<Rightarrow> int \<Rightarrow> int list" where
  "will_run c s = run_by (fold deliver (channels c s) (match_servers c s))"

lemma updateMatches_matches [simp]: "ms_matches (updateMatches mids m) = mids"
  by (simp add: updateMatches_def Let_def split: prod.splits)

lemma deliver_cong: "run_by ms = run_by ms' \<Longrightarrow> run_by (deliver p ms) = run_by (deliver p ms')"
  by (auto simp: run_by_def deliver_def M2CSession_handlerMsg_def checkMatchDistributeRS_def
      ms_distibuteMatchesNotify_def split: option.splits m2c_body.splits)

lemma deliver_all_cong: "run_by ms = run_by ms' \<Longrightarrow> run_by (fold deliver ps ms) = run_by (fold deliver ps ms')"
proof (induction ps arbitrary: ms ms')
  case (Cons p ps)
  show ?case
    using Cons.IH [OF deliver_cong [OF Cons.prems, of p]] by (simp only: fold_simps)
qed simp

lemma join_keeps_matches:
  "ms_matches (snd (ms_joinMatch u i t m)) = ms_matches m"
  "ms_matches (snd (ms_unjoinMatch u i t m)) = ms_matches m"
  by (simp_all add: ms_joinMatch_def ms_unjoinMatch_def split: option.split)

lemma requests_keep_matches:
  "run_by (fst (joinMatchRQ session (ok, rq) extra ms)) = run_by ms"
  "run_by (fst (unjoinMatchRQ session (ok, rq) extra ms)) = run_by ms"
  using join_keeps_matches [of "m_uid rq" "m_mid rq" "m_mtype rq" "ms_manager ms"]
  by (simp_all add: run_by_def joinMatchRQ_def unjoinMatchRQ_def case_prod_beta)

lemma plays_same_matches:
  "run_by (fst (MSGateSession_handlerMsg session ty parsed extra ms)) = run_by ms"
  by (cases parsed) (simp add: MSGateSession_handlerMsg_def requests_keep_matches)

lemma deliver_list: "run_by (deliver (kServerMatchDistributeNotify, Some (BDistribute mids)) ms) = mids"
  by (simp add: run_by_def deliver_def M2CSession_handlerMsg_def ms_distibuteMatchesNotify_def message_ids)

lemma deliver_other: "run_by (deliver (kServerRegistRS, b) ms) = run_by ms"
  by (simp add: run_by_def deliver_def M2CSession_handlerMsg_def message_ids)

lemma deliver_gate_notice: "run_by (deliver (kServerAllMatchDistributeNotify, b) ms) = run_by ms"
  by (simp add: run_by_def deliver_def M2CSession_handlerMsg_def message_ids)

lemma packets_to_simps [simp]:
  "packets_to s [] = []"
  "packets_to s (cmd # cmds) =
     (case m2c_packet cmd of None \<Rightarrow> [] | Some p \<Rightarrow> if fst p = s then [snd p] else []) @ packets_to s cmds"
  "packets_to s (cmds @ cmds') = packets_to s cmds @ packets_to s cmds'"
  by (simp_all add: packets_to_def map_filter_def split: option.splits)

lemma packets_to_none: "\<forall>cmd \<in> set cmds. m2c_packet cmd = None \<Longrightarrow> packets_to s cmds = []"
  by (induction cmds) simp_all

text \<open>The packets of a distribution.\<close>

definition list_commands :: "(int, int list) omap \<Rightarrow> command list" where
  "list_commands upd = map (\<lambda>(s, mids). Send (ToUuid s) kServerMatchDistributeNotify (ServiceMatchDistibuteNotify s mids) 0) upd"

lemma list_commands_arrive:
  "distinct (map fst upd) \<Longrightarrow> run_by (fold deliver (packets_to s (list_commands upd)) ms) =
     (case map_of upd s of None \<Rightarrow> run_by ms | Some mids \<Rightarrow> mids)"
proof (induction upd arbitrary: ms)
  case (Cons e upd)
  have "map_of upd s = None" if "fst e = s"
    using Cons.prems that by (auto simp: map_of_eq_None_iff)
  then show ?case
    using Cons by (cases e) (auto simp: list_commands_def m2c_parse_def deliver_list split: option.splits)
qed (simp add: list_commands_def)

section \<open>The register\<close>

text \<open>Every entry is a server, under its own id, which is the uuid of a session.\<close>

definition linked :: "CSKernel \<Rightarrow> bool" where
  "linked k \<longleftrightarrow> (\<forall>u info. map_of (servers k) u = Some info \<longrightarrow>
     0 \<le> u \<and> u < 2 ^ 31 \<and> (\<exists>i. info = Some i \<and> si_sid i = u))"

lemma uint_of_small [simp]: "0 \<le> u \<Longrightarrow> u < 2147483648 \<Longrightarrow> uint_of u = u"
  by (simp add: uint_of_def)

lemma uint_of_id:
  assumes "- 2147483648 \<le> u" and "u < 2147483648" and "uint_of u < 2147483648"
  shows "uint_of u = u"
proof (cases "0 \<le> u")
  case False
  have "u mod 4294967296 = (u + 4294967296) mod 4294967296"
    by simp
  also have "\<dots> = u + 4294967296"
    using assms(1) False by (intro mod_pos_pos_trivial) simp_all
  finally show ?thesis
    using assms(1,3) by (simp add: uint_of_def)
qed (simp add: assms(2))

lemma linkedD:
  "linked k \<Longrightarrow> map_of (servers k) u = Some info \<Longrightarrow>
     0 \<le> u \<and> u < 2147483648 \<and> (\<exists>i. info = Some i \<and> si_sid i = u)"
  by (auto simp: linked_def)

lemma live_registered: "live k s \<Longrightarrow> map_of (servers k) s \<noteq> None"
  by (auto simp: live_def split: option.splits)

lemma live_same_servers: "servers k = servers k' \<Longrightarrow> live k s = live k' s"
  by (simp add: live_def)

text \<open>A distribution to registered services sends each list to its service and changes nothing.\<close>

lemma distribute_each_linked:
  "linked k \<Longrightarrow> fst ` set upd \<subseteq> dom (map_of (servers k)) \<Longrightarrow> distribute_each upd k = Inr (k, list_commands upd)"
proof (induction upd)
  case (Cons e upd)
  obtain s mids where e: "e = (s, mids)"
    by fastforce
  then obtain i where "map_of (servers k) s = Some (Some i)" "si_sid i = s" "uint_of s = s"
    using Cons.prems linkedD [OF Cons.prems(1), of s] by auto
  then show ?case
    using Cons e by (simp add: cs_getService_def list_commands_def)
qed (simp add: list_commands_def)

lemma distributeMatch_linked:
  assumes "linked k" and "fst ` set upd \<subseteq> dom (map_of (servers k))"
  shows "distributeMatch upd k =
    Inr (k, list_commands upd @ sendAllDistributeMatchInfos (ToType ServerType_GateServer) k)"
  using distribute_each_linked [OF assms] by (simp add: distributeMatch_def)

lemma notices_reach_no_match_server [simp]:
  "packets_to s (sendAllDistributeMatchInfos (ToType t) k) = []"
  by (simp add: sendAllDistributeMatchInfos_def)

lemma serverRegistRS_packets:
  "serverRegistRS session info reg = Inr cmds \<Longrightarrow>
     packets_to s cmds = (if s = ref_uuid session then [(kServerRegistRS, None)] else [])"
  by (auto simp: serverRegistRS_def m2c_parse_def packets_to_none)

text \<open>A first registration: the new entry, the pending change of a match server, and no list of
  matches to anyone.\<close>

lemma fresh_registration:
  assumes "linked k" and "0 \<le> ref_uuid session \<and> ref_uuid session < 2 ^ 31" and "rq_sid r = INVALID_LID"
    and "serverRegistRQ now session (Some r) k = Inr (k', cmds)"
  shows "linked k'"
    and "live k' = (live k)(ref_uuid session := ref_type session = ServerType_MatchServer)"
    and "matchManager k' = (if ref_type session = ServerType_MatchServer
      then updateMatchService now \<lparr>sid = ref_uuid session, loaded = 0\<rparr> (matchManager k) else matchManager k)"
    and "run_by (fold deliver (packets_to s cmds) ms) = run_by ms"
proof -
  let ?s = "ref_uuid session"
  let ?info = "(new_info session r)\<lparr>si_type := ref_type session, si_connectTimes := uint_of 1,
     si_lastHeartTimes := uint_of now\<rparr>"
  let ?reg = "AList.update ?s (Some ?info) (servers k)"
  have s: "0 \<le> ?s" "?s < 2147483648"
    using assms(2) by simp_all
  have info: "si_sid ?info = ?s" "si_loaded ?info = 0" "si_type ?info = ref_type session"
    by (simp_all add: new_info_def ServerInfo_new_def)
  have look: "lookup_registered (rq_sid r) (servers k) = (None, servers k)"
    using assms(3) by (simp add: lookup_registered_def)
  have times: "si_connectTimes (new_info session r) = 0"
    by (simp add: new_info_def ServerInfo_new_def)
  have "serverRegistRS session ?info ?reg \<noteq> Inl e" for e
    using assms(4) look times s by (auto simp: serverRegistRQ_def Let_def)
  then obtain notices where notices: "serverRegistRS session ?info ?reg = Inr notices"
    by (cases "serverRegistRS session ?info ?reg") auto
  let ?k1 = "k\<lparr>servers := ?reg\<rparr>"
  let ?k2 = "if ref_type session = ServerType_MatchServer
    then ?k1\<lparr>matchManager := updateMatchService now \<lparr>sid = ?s, loaded = 0\<rparr> (matchManager k)\<rparr> else ?k1"
  have result: "k' = ?k2" "cmds = SetLogicID ?s ?s # notices @
      (if ref_type session = ServerType_GateServer then sendAllDistributeMatchInfos (ToSession ?s) ?k2 else [])"
    using assms(4) look s times notices info by (auto simp: serverRegistRQ_def Let_def split: if_splits)
  have reg: "servers k' = ?reg"
    using result(1) by simp
  show "linked k'"
    using assms(1) s info reg by (auto simp: linked_def update_conv')
  show "live k' = (live k)(?s := ref_type session = ServerType_MatchServer)"
    using info reg by (auto simp: live_def update_conv' fun_eq_iff)
  show "matchManager k' = (if ref_type session = ServerType_MatchServer
      then updateMatchService now \<lparr>sid = ?s, loaded = 0\<rparr> (matchManager k) else matchManager k)"
    using result(1) by simp
  show "run_by (fold deliver (packets_to s cmds) ms) = run_by ms"
    using result(2) serverRegistRS_packets [OF notices]
    by (simp add: deliver_other sendAllDistributeMatchInfos_def m2c_parse_def deliver_gate_notice)
qed

lemma loss_of_a_connection:
  assumes "linked k" and "- (2 ^ 31) \<le> ref_logicID session" and "ref_logicID session < 2 ^ 31"
    and "cs_onClose now session k = Inr k'"
  shows "linked k'"
    and "live k' = (live k)(ref_logicID session := False)"
    and "\<exists>l. matchManager k' = (if live k (ref_logicID session)
      then removeMatchService now \<lparr>sid = ref_logicID session, loaded = l\<rparr> (matchManager k) else matchManager k)"
proof -
  let ?s = "ref_logicID session"
  have "linked k' \<and> live k' = (live k)(?s := False) \<and> (\<exists>l. matchManager k' = (if live k ?s
      then removeMatchService now \<lparr>sid = ?s, loaded = l\<rparr> (matchManager k) else matchManager k))"
  proof (cases "map_of (servers k) (uint_of ?s)")
    case None
    have "\<not> live k ?s"
    proof
      assume "live k ?s"
      then have "map_of (servers k) ?s \<noteq> None"
        by (rule live_registered)
      then show False
        using None linkedD [OF assms(1), of ?s] by force
    qed
    then show ?thesis
      using assms(1,4) None by (auto simp: cs_onClose_def removeService_def fun_upd_idem)
  next
    case (Some info)
    then obtain i where i: "info = Some i" "si_sid i = uint_of ?s" "uint_of ?s < 2147483648"
      using linkedD [OF assms(1)] by blast
    then have s: "uint_of ?s = ?s"
      using i(3) assms(2,3) by (intro uint_of_id) simp_all
    have "k' = (if si_type i = ServerType_MatchServer
        then k\<lparr>matchManager := removeMatchService now \<lparr>sid = ?s, loaded = si_loaded i\<rparr> (matchManager k)\<rparr>
        else k)\<lparr>servers := AList.delete ?s (servers k)\<rparr>"
      using assms(4) Some i(1,2) s by (auto simp: cs_onClose_def removeService_def Let_def split: if_splits)
    moreover have "live k ?s \<longleftrightarrow> si_type i = ServerType_MatchServer"
      using Some i(1) s by (simp add: live_def)
    moreover have "map_of (AList.delete ?s (servers k)) = (map_of (servers k))(?s := None)"
      by (rule delete_conv')
    ultimately show ?thesis
      using assms(1) by (auto simp: linked_def live_def fun_eq_iff)
  qed
  then show "linked k'" "live k' = (live k)(ref_logicID session := False)"
    "\<exists>l. matchManager k' = (if live k (ref_logicID session)
      then removeMatchService now \<lparr>sid = ref_logicID session, loaded = l\<rparr> (matchManager k) else matchManager k)"
    by blast+
qed

section \<open>What the manager's operations do to the lists\<close>

definition pending_ids :: "ChangedType \<Rightarrow> CSMatchManager \<Rightarrow> int set" where
  "pending_ids t m = set (map (sid \<circ> service) (filter (\<lambda>ch. ctype ch = t) (changedServices m)))"

lemma pending_iff: "s \<in> pending_ids t m \<longleftrightarrow> (\<exists>ch \<in> set (changedServices m). ctype ch = t \<and> sid (service ch) = s)"
  by (auto simp: pending_ids_def)

lemma pending_cong: "changedServices m = changedServices m' \<Longrightarrow> pending_ids t m = pending_ids t m'"
  by (simp add: pending_ids_def)

lemma pending_update:
  "s \<in> pending_ids t (updateMatchService now key m) \<longleftrightarrow>
     (if s = sid key then t = (if s \<in> set (sids (matchServices m)) then Update else Added) else s \<in> pending_ids t m)"
  by (auto simp: pending_iff updateMatchService_def Let_def sids_find_iff)

lemma pending_remove:
  "s \<in> pending_ids t (removeMatchService now key m) \<longleftrightarrow>
     (if s = sid key then t = Removed \<and> s \<notin> pending_ids Added m else s \<in> pending_ids t m)"
  by (auto simp: pending_iff removeMatchService_def Let_def)

lemma update_keeps [simp]:
  "matchServices (updateMatchService now key m) = matchServices m"
  "matches (updateMatchService now key m) = matches m"
  "undistMatches (updateMatchService now key m) = undistMatches m"
  "changedMatchMapCB (updateMatchService now key m) = changedMatchMapCB m"
  "matchServices (removeMatchService now key m) = matchServices m"
  "matches (removeMatchService now key m) = matches m"
  "undistMatches (removeMatchService now key m) = undistMatches m"
  "changedMatchMapCB (removeMatchService now key m) = changedMatchMapCB m"
  by (simp_all add: updateMatchService_def removeMatchService_def Let_def)

lemma dist_of_erase: "dist_of (om_erase sid q m) s = (if s = q then [] else dist_of m s)"
  by (simp add: dist_of_def om_find_erase)

lemma dist_of_removeServices:
  "dist_of (fst (removeServices cs (m, u))) s =
     (if \<exists>ch \<in> set cs. ctype ch = Removed \<and> sid (service ch) = s then [] else dist_of m s)"
  by (induction cs "(m, u)" arbitrary: m u rule: removeServices.induct) (auto simp: dist_of_erase)

lemma dist_of_addService:
  "om_ok sid m \<Longrightarrow> dist_of (addService c m) s = dist_of m s"
  by (auto simp: addService_def dist_of_def om_find_assign split: option.splits)

lemma dist_of_fold_addService:
  "om_ok sid m \<Longrightarrow> dist_of (fold addService cs m) s = dist_of m s"
  by (induction cs arbitrary: m) (simp_all add: dist_of_addService addService_spec)

lemma fold_updateService_none: "\<forall>c \<in> set cs. ctype c \<noteq> Update \<Longrightarrow> fold updateService cs m = m"
  by (induction cs) (simp_all add: updateService_def)

text \<open>The strategy reports only services of the map.\<close>

lemma strategy_reports:
  assumes "om_ok sid m"
  shows "\<exists>m' u' cs. MatchDistribution_call m all u = Inr (m', u', map uint_of cs) \<and> om_ok sid m' \<and>
    sids m' = sids m \<and> set cs \<subseteq> set (sids m) \<and> (\<forall>s. s \<notin> set cs \<longrightarrow> dist_of m' s = dist_of m s)"
proof (cases "m = []")
  case True
  then show ?thesis
    by (simp add: MatchDistribution_call_def)
next
  case False
  then show ?thesis
    using strategy_spec [OF assms, of all u] by (auto simp: conserves_def)
qed

lemma redistribution_lists:
  assumes "mm_ok m" and "pending_ids Update m = {}" and "checkDistMatchServices now m"
    and "updateDistMatchServices now m = Inr (m', es)"
  shows "\<exists>cs. es = (if changedMatchMapCB m then [ChangedMatchMap (changedMap (map uint_of cs) (matchServices m'))] else []) \<and>
    set cs \<subseteq> set (sids (matchServices m')) \<and> changedMatchMapCB m' = changedMatchMapCB m \<and>
    (\<forall>s. s \<notin> set cs \<longrightarrow> dist_of (matchServices m') s =
       (if s \<in> pending_ids Removed m then [] else dist_of (matchServices m) s))"
proof -
  obtain s1 u1 where rem: "removeServices (changedServices m) (matchServices m, []) = (s1, u1)"
    by fastforce
  have s1: "om_ok sid s1"
    using removeServices_spec [OF _ rem] assms(1) by (simp add: mm_ok_def)
  have dist1: "dist_of s1 s = (if s \<in> pending_ids Removed m then [] else dist_of (matchServices m) s)" for s
    using dist_of_removeServices [of "changedServices m" "matchServices m" "[]" s] rem by (simp add: pending_iff)
  let ?c1 = "filter (\<lambda>c. ctype c \<noteq> Removed) (changedServices m)"
  let ?s2 = "fold updateService ?c1 s1"
  have s2: "?s2 = s1"
    using assms(2) by (intro fold_updateService_none) (auto simp: pending_iff set_eq_iff)
  let ?s3 = "fold addService (filter (\<lambda>c. ctype c \<noteq> Update) ?c1) ?s2"
  have s3: "om_ok sid ?s3" "\<And>s. dist_of ?s3 s = dist_of s1 s"
    using fold_keeps_values [of addService, OF addService_spec s1] dist_of_fold_addService [OF s1] s2 by simp_all
  obtain s4 u4 cs where dist:
      "MatchDistribution_call ?s3 (matches m) (list_merge (undistMatches m) u1) = Inr (s4, u4, map uint_of cs)"
      "sids s4 = sids ?s3" "set cs \<subseteq> set (sids ?s3)" "\<forall>s. s \<notin> set cs \<longrightarrow> dist_of s4 s = dist_of ?s3 s"
    using strategy_reports [OF s3(1)] by blast
  have "checkDistMatchServices now (stopTimerCheckDistMatchServices m)"
    using assms(3) by (simp add: checkDistMatchServices_def)
  then have "m' = (stopTimerCheckDistMatchServices m)\<lparr>matchServices := s4, undistMatches := u4, changedServices := []\<rparr> \<and>
      es = (if changedMatchMapCB m then [ChangedMatchMap (changedMap (map uint_of cs) s4)] else [])"
    using assms(4) dist(1) by (auto simp: updateDistMatchServices_def Let_def rem)
  then show ?thesis
    using dist(2-4) s3(2) dist1 by (intro exI [of _ cs]) auto
qed

lemma map_of_om_find: "map_of m q = map_option snd (om_find id q m)"
  by (induction m) auto

lemma map_of_assign: "om_ok id m \<Longrightarrow> map_of (om_assign id k v m) = (map_of m)(k \<mapsto> v)"
  by (auto simp: map_of_om_find om_find_assign_id fun_eq_iff split: option.splits)

lemma fold_assign_map:
  "om_ok id m \<Longrightarrow> om_ok id (fold (\<lambda>u. om_assign id u (f u)) us m) \<and>
     map_of (fold (\<lambda>u. om_assign id u (f u)) us m) = (\<lambda>q. if q \<in> set us then Some (f q) else map_of m q)"
  by (induction us arbitrary: m) (auto simp: om_assign_ok map_of_assign fun_eq_iff)

text \<open>The lists of a distribution: for each changed service the matches it has now.\<close>

lemma changedMap_map:
  assumes "\<forall>s \<in> set cs. 0 \<le> s \<and> s < 2147483648"
  shows "map_of (changedMap (map uint_of cs) m) s = (if s \<in> set cs then Some (dist_of m s) else None)"
    and "distinct (map fst (changedMap (map uint_of cs) m))"
    and "fst ` set (changedMap (map uint_of cs) m) = set cs"
proof -
  have cs: "map uint_of cs = cs"
    using assms by (intro map_idI) simp
  note content = fold_assign_map [of "[]" "\<lambda>u. dist_of m (int_of_uint u)" cs]
  show found: "map_of (changedMap (map uint_of cs) m) s = (if s \<in> set cs then Some (dist_of m s) else None)" for s
    using content assms by (simp add: changedMap_def cs int_of_uint_def)
  show "distinct (map fst (changedMap (map uint_of cs) m))"
    using content om_ok_distinct [of id "changedMap (map uint_of cs) m"] by (simp add: changedMap_def cs)
  have "u \<in> fst ` set (changedMap (map uint_of cs) m) \<longleftrightarrow> u \<in> set cs" for u
    using found [of u] map_of_eq_None_iff [of "changedMap (map uint_of cs) m" u] by (simp split: if_splits)
  then show "fst ` set (changedMap (map uint_of cs) m) = set cs"
    by blast
qed

lemma no_callback:
  assumes "\<forall>e \<in> set es. \<not> (\<exists>u. e = ChangedMatchMap u)"
  shows "run_callbacks es k = Inr (k, [])"
  using assms by (induction es) (auto split: mm_effect.splits)

text \<open>One run of the callback: every list reaches its service, and no other packet is sent.\<close>

lemma lists_reach_their_services:
  assumes "linked k" and "fst ` set upd \<subseteq> dom (map_of (servers k))" and "distinct (map fst upd)"
    and "\<forall>e \<in> set es. \<not> (\<exists>u. e = ChangedMatchMap u)"
    and "run_callbacks (ChangedMatchMap upd # es) k = Inr (k', cmds)"
  shows "k' = k"
    and "run_by (fold deliver (ps @ packets_to s cmds) ms) =
      (case map_of upd s of None \<Rightarrow> run_by (fold deliver ps ms) | Some mids \<Rightarrow> mids)"
proof -
  have "k' = k \<and> cmds = list_commands upd @ sendAllDistributeMatchInfos (ToType ServerType_GateServer) k"
    using assms(5) distributeMatch_linked [OF assms(1,2)] no_callback [OF assms(4)] by auto
  then show "k' = k" "run_by (fold deliver (ps @ packets_to s cmds) ms) =
      (case map_of upd s of None \<Rightarrow> run_by (fold deliver ps ms) | Some mids \<Rightarrow> mids)"
    using list_commands_arrive [OF assms(3)] by simp_all
qed

section \<open>The central server alone\<close>

text \<open>
  Pending changes are those of servers that came (and are connected, not listed yet) or went (and
  are not connected); a connected server is listed or about to be, a listed one is connected or
  about to be removed.
\<close>

definition central_ok :: "CSKernel \<Rightarrow> bool" where
  "central_ok k \<longleftrightarrow> linked k \<and> mm_ok (matchManager k) \<and> changedMatchMapCB (matchManager k) \<and>
     (\<forall>s. s \<notin> pending_ids Update (matchManager k)) \<and>
     (\<forall>s \<in> pending_ids Added (matchManager k). live k s \<and> s \<notin> set (sids (matchServices (matchManager k)))) \<and>
     (\<forall>s \<in> pending_ids Removed (matchManager k). \<not> live k s) \<and>
     (\<forall>s. live k s \<longrightarrow> s \<in> set (sids (matchServices (matchManager k))) \<or> s \<in> pending_ids Added (matchManager k)) \<and>
     (\<forall>s \<in> set (sids (matchServices (matchManager k))). live k s \<or> s \<in> pending_ids Removed (matchManager k))"

lemma central_ok_manager:
  assumes "central_ok k" and "mm_ok m" and "changedMatchMapCB m = changedMatchMapCB (matchManager k)"
    and "sids (matchServices m) = sids (matchServices (matchManager k))"
    and "changedServices m = changedServices (matchManager k)"
  shows "central_ok (k\<lparr>matchManager := m\<rparr>)"
  using assms live_same_servers [of "k\<lparr>matchManager := m\<rparr>" k] pending_cong [OF assms(5)]
  by (simp add: central_ok_def linked_def)

lemma central_ok_registration:
  assumes "central_ok k" and "new_uuid (ref_uuid session) k" and "rq_sid r = INVALID_LID"
    and "serverRegistRQ now session (Some r) k = Inr (k', cmds)"
  shows "central_ok k'"
proof -
  have range: "0 \<le> ref_uuid session \<and> ref_uuid session < 2 ^ 31"
    using assms(2) by (simp add: new_uuid_def)
  note reg = fresh_registration(1,2,3) [OF _ range assms(3,4)]
  have "linked k" "mm_ok (matchManager k)"
    using assms(1) by (simp_all add: central_ok_def)
  moreover have "\<not> live k (ref_uuid session)" "ref_uuid session \<notin> set (sids (matchServices (matchManager k)))"
    using assms(2) by (simp_all add: new_uuid_def live_def)
  ultimately show ?thesis
    using assms(1) reg updateMatchService_ok [of "matchManager k" now]
    by (auto simp: central_ok_def pending_update split: if_splits)
qed

lemma central_ok_loss:
  assumes "central_ok k" and "- (2 ^ 31) \<le> ref_logicID session" and "ref_logicID session < 2 ^ 31"
    and "cs_onClose now session k = Inr k'"
  shows "central_ok k'"
proof -
  let ?s = "ref_logicID session"
  have ok: "linked k" "mm_ok (matchManager k)"
    using assms(1) by (simp_all add: central_ok_def)
  obtain l where m: "matchManager k' = (if live k ?s
      then removeMatchService now \<lparr>sid = ?s, loaded = l\<rparr> (matchManager k) else matchManager k)"
    using loss_of_a_connection(3) [OF ok(1) assms(2-4)] by blast
  note k' = loss_of_a_connection(1,2) [OF ok(1) assms(2-4)]
  show ?thesis
  proof (cases "live k ?s")
    case True
    then show ?thesis
      using assms(1) ok k' m removeMatchService_ok [OF ok(2), of now]
      by (auto simp: central_ok_def pending_remove split: if_splits)
  next
    case False
    then have "live k' = live k" "matchManager k' = matchManager k"
      using k' m by (simp_all add: fun_upd_idem)
    then show ?thesis
      using assms(1) k'(1) by (simp add: central_ok_def)
  qed
qed

text \<open>
  \<open>k\<close> becomes \<open>k'\<close> and sends \<open>cmds\<close>: a connected match server that would run what was assigned to it
  will run what is assigned to it now.
\<close>

definition informed :: "CSKernel \<Rightarrow> CSKernel \<Rightarrow> command list \<Rightarrow> bool" where
  "informed k k' cmds \<longleftrightarrow> (\<forall>s ps ms. live k s \<longrightarrow>
     run_by (fold deliver ps ms) = dist_of (matchServices (matchManager k)) s \<longrightarrow>
     run_by (fold deliver (ps @ packets_to s cmds) ms) = dist_of (matchServices (matchManager k')) s)"

lemma informed_alone:
  "matchServices (matchManager k') = matchServices (matchManager k) \<Longrightarrow> informed k k' []"
  by (simp add: informed_def)

lemma due_redistribution_informs:
  assumes "central_ok k" and "checkDistMatchServices now (matchManager k)"
    and upd: "updateDistMatchServices now (matchManager k) = Inr (m', es)"
    and run: "run_callbacks es (k\<lparr>matchManager := m'\<rparr>) = Inr (k', cmds)"
  shows "k' = k\<lparr>matchManager := m'\<rparr> \<and> central_ok k' \<and> informed k k' cmds"
proof -
  let ?m = "matchManager k" and ?k = "k\<lparr>matchManager := m'\<rparr>"
  have ok: "linked k" "mm_ok ?m" "pending_ids Update ?m = {}" "changedMatchMapCB ?m"
    using assms(1) by (auto simp: central_ok_def)
  obtain cs where cs: "es = [ChangedMatchMap (changedMap (map uint_of cs) (matchServices m'))]"
      "set cs \<subseteq> set (sids (matchServices m'))" "changedMatchMapCB m'"
      "\<forall>s. s \<notin> set cs \<longrightarrow> dist_of (matchServices m') s =
         (if s \<in> pending_ids Removed ?m then [] else dist_of (matchServices ?m) s)"
    using redistribution_lists [OF ok(2,3) assms(2) upd] ok(4) by auto
  have "set (sids (matchServices m')) = set (sids (matchServices ?m)) - pending_ids Removed ?m \<union> pending_ids Added ?m"
    using updateDist_sids [OF ok(2) assms(2) upd] by (auto simp: pending_ids_def)
  then have listed: "s \<in> set (sids (matchServices m')) \<longleftrightarrow> live k s" for s
    using assms(1) by (auto simp: central_ok_def)
  have live: "live ?k s \<longleftrightarrow> live k s" "linked ?k" for s
    using ok(1) by (simp_all add: live_def linked_def)
  have small: "\<forall>s \<in> set cs. 0 \<le> s \<and> s < 2147483648" "\<forall>s \<in> set cs. s \<in> dom (map_of (servers k))"
    using cs(2) listed linkedD [OF ok(1)] live_registered [of k] by blast+
  note upd_map = changedMap_map [OF small(1), of "matchServices m'"]
  have "fst ` set (changedMap (map uint_of cs) (matchServices m')) \<subseteq> dom (map_of (servers ?k))"
    using small(2) upd_map(3) by auto
  note sent = lists_reach_their_services [OF live(2) this upd_map(2) _ run [unfolded cs(1)]]
  have k': "k' = ?k"
    by (rule sent(1)) simp
  have "pending_ids t m' = {}" "mm_ok m'" for t
    using updateDist_spec [OF ok(2), of now] assms(2) upd by (auto simp: pending_ids_def)
  then have "central_ok k'"
    using k' live cs(3) listed by (simp add: central_ok_def)
  moreover have "informed k k' cmds"
    unfolding informed_def
  proof (intro allI impI)
    fix s ps ms
    assume "live k s" "run_by (fold deliver ps ms) = dist_of (matchServices ?m) s"
    then show "run_by (fold deliver (ps @ packets_to s cmds) ms) = dist_of (matchServices (matchManager k')) s"
      using cs(4) assms(1) sent(2) [of ps s ms] upd_map(1) [of s] k' by (auto simp: central_ok_def split: if_splits)
  qed
  ultimately show ?thesis
    using k' by blast
qed

lemma redistribution_informs:
  assumes "central_ok k" and "cs_redistribute now k = Inr (k', cmds)"
  shows "central_ok k'" and "servers k' = servers k" and "matches (matchManager k') = matches (matchManager k)"
    and "all_mids (matchManager k') = all_mids (matchManager k)" and "informed k k' cmds"
proof -
  let ?m = "matchManager k"
  have "mm_ok ?m"
    using assms(1) by (simp add: central_ok_def)
  then obtain m' es where upd: "updateDistMatchServices now ?m = Inr (m', es)" "mm_ok m'"
      "all_mids m' = all_mids ?m" "matches m' = matches ?m"
    using updateDist_spec [of ?m now] by blast
  let ?k = "k\<lparr>matchManager := m'\<rparr>"
  have run: "run_callbacks es ?k = Inr (k', cmds)"
    using assms(2) upd(1) by (simp add: cs_redistribute_def)
  have "k' = ?k \<and> central_ok k' \<and> informed k k' cmds"
  proof (cases "checkDistMatchServices now ?m")
    case False
    then have "es = []" and m': "m' = startTimerCheckDistMatchServices (stopTimerCheckDistMatchServices ?m)"
      using upd(1) by (simp_all add: updateDistMatchServices_def checkDistMatchServices_def)
    then have "k' = ?k" "cmds = []"
      using run by simp_all
    moreover have "central_ok ?k"
      by (rule central_ok_manager [OF assms(1) upd(2)]) (simp_all add: m')
    ultimately show ?thesis
      using m' by (simp add: informed_alone)
  qed (rule due_redistribution_informs [OF assms(1) _ upd(1) run])
  then show "central_ok k'" "servers k' = servers k" "matches (matchManager k') = matches ?m"
    "all_mids (matchManager k') = all_mids ?m" "informed k k' cmds"
    using upd(3,4) by auto
qed

lemma mset_removeAll_subset: "mset (removeAll i xs) \<subseteq># mset xs"
  using multiset_filter_subset [of "\<lambda>x. i \<noteq> x" "mset xs"] by (simp add: removeAll_filter_not_eq)

definition without_waiting :: "int \<Rightarrow> CSMatchManager \<Rightarrow> CSMatchManager" where
  "without_waiting i m = m\<lparr>undistMatches := removeAll i (undistMatches m)\<rparr>"

lemma without_waiting_simps [simp]:
  "matchServices (without_waiting i m) = matchServices m" "matches (without_waiting i m) = matches m"
  "changedServices (without_waiting i m) = changedServices m"
  "changedMatchMapCB (without_waiting i m) = changedMatchMapCB m"
  "undistMatches (without_waiting i m) = removeAll i (undistMatches m)"
  by (simp_all add: without_waiting_def)

lemma cancelMatch_cases:
  assumes "cancelMatch i reason m = Inr (r, m', es)"
  obtains (kept) "m' = m \<or> m' = without_waiting i m" "\<forall>e \<in> set es. \<not> (\<exists>u. e = ChangedMatchMap u)"
    | (told) key mids where "getService i m > 0" "om_find sid (getService i m) (matchServices m) = Some (key, mids)"
        "m' = without_waiting i (m\<lparr>matchServices := om_modify sid (getService i m) (removeAll i) (matchServices m)\<rparr>)"
        "es = ChangedMatchMap [(uint_of (getService i m), removeAll i mids)] # [CancelMatchRQ i reason]"
proof (cases "getMatch i m")
  case None
  then show thesis
    using assms by (intro kept) (auto simp: cancelMatch_def)
next
  case (Some match)
  show thesis
  proof (cases "sint (match_state match) > ENUM_STATE_READY")
    case True
    then show thesis
      using assms Some by (intro kept) (auto simp: cancelMatch_def)
  next
    case False
    note here = assms [unfolded cancelMatch_def Let_def Some option.case if_not_P [OF False]]
    show thesis
    proof (cases "getService i m > 0 \<and> om_find sid (getService i m) (matchServices m) \<noteq> None")
      case True
      then obtain key mids where e: "om_find sid (getService i m) (matchServices m) = Some (key, mids)"
        by auto
      show thesis
        using here True e by (intro told [OF _ e]) (simp_all add: without_waiting_def split: if_splits)
    next
      case no: False
      then have "m' = without_waiting i m \<and> es = [CancelMatchRQ i reason]"
        using here no
        by (cases "om_find sid (getService i m) (matchServices m)") (auto simp: without_waiting_def split: if_splits)
      then show thesis
        by (intro kept) simp_all
    qed
  qed
qed

text \<open>A cancelled match leaves its service, which is told if it is connected.\<close>

lemma told_cancel_informs:
  assumes "central_ok k" and s: "getService i (matchManager k) > 0" "live k (getService i (matchManager k))"
    and found: "om_find sid (getService i (matchManager k)) (matchServices (matchManager k)) = Some (key, mids)"
    and m': "m' = without_waiting i ((matchManager k)\<lparr>matchServices :=
        om_modify sid (getService i (matchManager k)) (removeAll i) (matchServices (matchManager k))\<rparr>)" "mm_ok m'"
    and run: "run_callbacks (ChangedMatchMap [(uint_of (getService i (matchManager k)), removeAll i mids)] #
        [CancelMatchRQ i reason]) (k\<lparr>matchManager := m'\<rparr>) = Inr (k', cmds)"
  shows "k' = k\<lparr>matchManager := m'\<rparr> \<and> central_ok k' \<and> all_mids m' \<subseteq># all_mids (matchManager k) \<and> informed k k' cmds"
proof -
  let ?m = "matchManager k" and ?k = "k\<lparr>matchManager := m'\<rparr>" and ?s = "getService i (matchManager k)"
  have ok: "linked k" "om_ok sid (matchServices ?m)"
    using assms(1) by (auto simp: central_ok_def mm_ok_def)
  have registered: "?s < 2147483648" "?s \<in> dom (map_of (servers k))"
    using s(2) linkedD [OF ok(1)] live_registered [of k] by blast+
  then have key: "uint_of ?s = ?s"
    using s(1) by simp
  have upd: "linked ?k" "fst ` set [(uint_of ?s, removeAll i mids)] \<subseteq> dom (map_of (servers ?k))"
      "distinct (map fst [(uint_of ?s, removeAll i mids)])"
    using ok(1) registered(2) key by (simp_all add: linked_def)
  note sent = lists_reach_their_services [OF upd _ run]
  have k': "k' = ?k"
    by (rule sent(1)) simp
  have "om_values (matchServices m') + mset mids = om_values (matchServices ?m) + mset (removeAll i mids)"
    using om_values_modify [OF ok(2) found, of "removeAll i"] m'(1) by simp
  then have "om_values (matchServices m') \<subseteq># om_values (matchServices ?m)"
    by (metis mset_removeAll_subset subset_mset.add_left_mono mset_subset_eq_mono_add_right_cancel)
  then have "all_mids m' \<subseteq># all_mids ?m"
    using m'(1) mset_removeAll_subset by (auto simp: all_mids_def intro!: subset_mset.add_mono)
  moreover have "central_ok ?k"
    using m' by (intro central_ok_manager [OF assms(1)]) simp_all
  moreover have "informed k ?k cmds"
    unfolding informed_def using sent(2) found m'(1) key by (auto simp: dist_of_def om_find_modify)
  ultimately show ?thesis
    using k' by blast
qed

lemma cancel_informs:
  assumes "central_ok k" and "cs_cancelMatch i reason k = Inr (k', cmds)"
    and "getService i (matchManager k) \<le> 0 \<or> live k (getService i (matchManager k))"
  shows "central_ok k'" and "servers k' = servers k" and "matches (matchManager k') = matches (matchManager k)"
    and "all_mids (matchManager k') \<subseteq># all_mids (matchManager k)" and "informed k k' cmds"
proof -
  let ?m = "matchManager k"
  obtain r m' es where cancel: "cancelMatch i reason ?m = Inr (r, m', es)"
      and run: "run_callbacks es (k\<lparr>matchManager := m'\<rparr>) = Inr (k', cmds)"
    using assms(2) by (auto simp: cs_cancelMatch_def)
  let ?k = "k\<lparr>matchManager := m'\<rparr>"
  have m': "mm_ok m'"
    using assms(1) cancelMatch_ok [OF _ cancel] by (simp add: central_ok_def)
  from cancel have "k' = ?k \<and> central_ok k' \<and> matches m' = matches ?m \<and> all_mids m' \<subseteq># all_mids ?m \<and> informed k k' cmds"
  proof (cases rule: cancelMatch_cases)
    case kept
    have "central_ok ?k"
      using kept(1) m' by (intro central_ok_manager [OF assms(1)]) auto
    moreover have "all_mids m' \<subseteq># all_mids ?m"
      using kept(1) mset_removeAll_subset by (auto simp: all_mids_def)
    moreover have "k' = ?k" "cmds = []"
      using run no_callback [OF kept(2)] by simp_all
    ultimately show ?thesis
      using kept(1) by (auto intro: informed_alone)
  next
    case (told key mids)
    then show ?thesis
      using told_cancel_informs [OF assms(1) told(1) _ told(2,3) m' run [unfolded told(4)]] assms(3) by auto
  qed
  then show "central_ok k'" "servers k' = servers k" "matches (matchManager k') = matches ?m"
    "all_mids (matchManager k') \<subseteq># all_mids ?m" "informed k k' cmds"
    by auto
qed

end
