(* ===== verification/ClusterInvariant.thy ===== *)
theory ClusterInvariant
  imports Cluster
begin

text \<open>
  The invariant of the central server and its match servers as one system, and what follows from
  it: the match servers run what is assigned to them, and no match runs twice. The last section
  shows what happens when the conditions of the steps on uuids and on cancelling do not hold.
\<close>

section \<open>No match twice\<close>

text \<open>Every match has one place at most, and is a match the manager knows.\<close>

definition single_places :: "CSMatchManager \<Rightarrow> bool" where
  "single_places m \<longleftrightarrow> (\<forall>i. count (all_mids m) i \<le> 1) \<and> set_mset (all_mids m) \<subseteq> fst ` set (matches m)"

lemma single_places_subset:
  assumes "single_places m" and "all_mids m' \<subseteq># all_mids m" and "fst ` set (matches m') = fst ` set (matches m)"
  shows "single_places m'"
  using assms(1,3) mset_subset_eq_count [OF assms(2)] set_mset_mono [OF assms(2)]
  unfolding single_places_def by (metis le_trans subset_trans)

lemma keys_assign: "om_ok id m \<Longrightarrow> fst ` set (om_assign id k v m) = insert k (fst ` set m)"
  using map_of_assign [of m k v] dom_map_of_conv_image_fst [of "om_assign id k v m"]
    dom_map_of_conv_image_fst [of m] by simp

lemma keys_fold_assign:
  "om_ok id m \<Longrightarrow> fst ` set (fold (\<lambda>p. om_assign id (f p) (g p)) ps m) = f ` set ps \<union> fst ` set m"
  by (induction ps arbitrary: m) (auto simp: keys_assign om_assign_ok)

lemma distinct_remdups_adj: "sorted xs \<Longrightarrow> distinct (remdups_adj xs)"
  by (induction xs rule: remdups_adj.induct) auto

lemma count_remdups_adj_sort:
  "count (mset (remdups_adj (sort xs))) i = (if i \<in> set (xs :: int list) then 1 else 0)"
  using distinct_count_atmost_1 [of "remdups_adj (sort xs)"] by (simp add: distinct_remdups_adj)

lemma single_places_created:
  assumes "single_places m" and "om_ok id (matches m)"
    and "\<forall>p \<in> set ps. om_find id (sint (mid p)) (matches m) = None"
  shows "single_places (createdMatches now ps m)"
proof -
  let ?new = "map (sint \<circ> mid) ps" and ?m' = "createdMatches now ps m"
  have fields: "matchServices ?m' = matchServices m"
      "undistMatches ?m' = remdups_adj (sort (list_merge (undistMatches m) ?new))"
      "fst ` set (matches ?m') = set ?new \<union> fst ` set (matches m)"
    using keys_fold_assign [OF assms(2), of "\<lambda>p. sint (mid p)" id ps]
    by (auto simp: createdMatches_def addUndistriteMatches_def)
  have new: "i \<notin> fst ` set (matches m)" if "i \<in> set ?new" for i
    using that assms(3) by (force simp: om_find_None_iff)
  have "count (all_mids ?m') i \<le> 1 \<and> (i \<in># all_mids ?m' \<longrightarrow> i \<in> fst ` set (matches ?m'))" for i
  proof (cases "i \<in> set ?new")
    case True
    then have "i \<notin># om_values (matchServices m)"
      using new [OF True] assms(1) by (auto simp: single_places_def all_mids_def)
    then show ?thesis
      using True fields by (simp add: all_mids_def count_remdups_adj_sort not_in_iff)
  next
    case False
    have "count (om_values (matchServices m)) i + count (mset (undistMatches m)) i \<le> 1"
      using assms(1) by (simp add: single_places_def all_mids_def)
    moreover have "1 \<le> count (mset (undistMatches m)) i" if "i \<in> set (undistMatches m)"
      using that by simp
    ultimately have "(i \<in> set (undistMatches m) \<longrightarrow> count (om_values (matchServices m)) i = 0) \<and>
        count (om_values (matchServices m)) i \<le> 1"
      by linarith
    then have "count (all_mids ?m') i \<le> 1"
      using False fields by (simp add: all_mids_def count_remdups_adj_sort)
    moreover have "i \<in># all_mids ?m' \<longrightarrow> i \<in> fst ` set (matches ?m')"
      using False fields assms(1) by (auto simp: all_mids_def single_places_def)
    ultimately show ?thesis ..
  qed
  then show ?thesis
    unfolding single_places_def by blast
qed

section \<open>The invariant of the system\<close>

definition cluster_ok :: "Cluster \<Rightarrow> bool" where
  "cluster_ok c \<longleftrightarrow> central_ok (central c) \<and> single_places (manager c) \<and>
     (\<forall>s. live (central c) s \<longrightarrow> will_run c s = dist_of (matchServices (manager c)) s)"

lemma start_ok:
  assumes "om_ok id loadedMatches"
  shows "cluster_ok (cluster_start loadedMatches now listens ms)"
proof -
  let ?c = "cluster_start loadedMatches now listens ms"
  have m: "matchServices (manager ?c) = []" "changedServices (manager ?c) = []" "changedMatchMapCB (manager ?c)"
      "matches (manager ?c) = loadedMatches" "undistMatches (manager ?c) = map fst loadedMatches"
    by (simp_all add: cluster_start_def cs_start_def setChangedMatchMapCB_def mm_initialize_def CSMatchManager_new_def)
  have "servers (central ?c) = [(CENTRAL_SID, Some (central_info now listens))]"
    by (simp add: cluster_start_def cs_start_def)
  then have "linked (central ?c)" "\<not> live (central ?c) s" for s
    by (auto simp: linked_def live_def CENTRAL_SID_def central_info_def ServerInfo_new_def server_types)
  moreover have "distinct (map fst loadedMatches)"
    using om_ok_distinct [OF assms] by simp
  then have "single_places (manager ?c)"
    using m distinct_count_atmost_1 [of "map fst loadedMatches"] by (auto simp: single_places_def all_mids_def)
  moreover have "pending_ids t (manager ?c) = {}" for t
    using m by (simp add: pending_ids_def)
  ultimately show ?thesis
    using m assms by (simp add: cluster_ok_def central_ok_def mm_ok_def sids_def)
qed

lemma om_modify_key_set: "fst ` set (om_modify p q f m) = fst ` set m"
  by (simp only: om_modify_keys flip: set_map)

lemma updateMatch_keeps:
  assumes "updateMatch i properties m = (r, m', es)"
  shows "matchServices m' = matchServices m" "changedServices m' = changedServices m"
    "undistMatches m' = undistMatches m" "changedMatchMapCB m' = changedMatchMapCB m"
    "fst ` set (matches m') = fst ` set (matches m)"
proof -
  obtain f where "m' = m \<or> m' = m\<lparr>matches := om_modify id i f (matches m)\<rparr>"
  proof (cases "getMatch i m")
    case None
    then show thesis
      using assms that by (simp add: updateMatch_def)
  next
    case (Some match)
    then show thesis
      using assms that by (auto simp only: updateMatch_def Let_def option.case prod.inject)
  qed
  then show "matchServices m' = matchServices m" "changedServices m' = changedServices m"
    "undistMatches m' = undistMatches m" "changedMatchMapCB m' = changedMatchMapCB m"
    "fst ` set (matches m') = fst ` set (matches m)"
    by (elim disjE; simp add: om_modify_key_set)+
qed

lemma createdMatches_keeps:
  "matchServices (createdMatches now ps m) = matchServices m"
  "changedServices (createdMatches now ps m) = changedServices m"
  "changedMatchMapCB (createdMatches now ps m) = changedMatchMapCB m"
  by (simp_all add: createdMatches_def addUndistriteMatches_def)

text \<open>A step of the central server that leaves the register alone and tells every match server
  what it changes.\<close>

lemma cluster_ok_informed:
  assumes "cluster_ok c" and "central_ok k" and "servers k = servers (central c)" and "single_places (matchManager k)"
    and "informed (central c) k cmds"
  shows "cluster_ok (c\<lparr>central := k, channels := enqueue cmds (channels c)\<rparr>)"
  using assms live_same_servers [OF assms(3)] by (simp add: cluster_ok_def will_run_def enqueue_def informed_def)

lemma cluster_ok_manager:
  assumes "cluster_ok c" and "mm_ok m" and "changedMatchMapCB m = changedMatchMapCB (manager c)"
    and "matchServices m = matchServices (manager c)" and "changedServices m = changedServices (manager c)"
    and "single_places m"
  shows "cluster_ok (c\<lparr>central := (central c)\<lparr>matchManager := m\<rparr>\<rparr>)"
proof -
  have "central_ok ((central c)\<lparr>matchManager := m\<rparr>)"
    using assms by (intro central_ok_manager) (simp_all add: cluster_ok_def)
  then show ?thesis
    using assms by (simp add: cluster_ok_def will_run_def live_def)
qed

lemma cluster_ok_registers:
  assumes "cluster_ok c" and "new_uuid (ref_uuid session) (central c)" and "rq_sid r = INVALID_LID"
    and "serverRegistRQ now session (Some r) (central c) = Inr (k, cmds)"
    and "ref_type session = ServerType_MatchServer \<Longrightarrow> run_by (ms (ref_uuid session)) = [] \<and> ch (ref_uuid session) = []"
    and "\<And>s. s \<noteq> ref_uuid session \<Longrightarrow> ms s = match_servers c s \<and> ch s = channels c s"
  shows "cluster_ok (c\<lparr>central := k, match_servers := ms, channels := enqueue cmds ch\<rparr>)"
proof -
  let ?s = "ref_uuid session"
  have ok: "central_ok (central c)" "linked (central c)"
    using assms(1) by (simp_all add: cluster_ok_def central_ok_def)
  have range: "0 \<le> ?s \<and> ?s < 2 ^ 31"
    using assms(2) by (simp add: new_uuid_def)
  note reg = fresh_registration [OF ok(2) range assms(3,4)]
  have m: "matchServices (matchManager k) = matchServices (manager c)" "all_mids (matchManager k) = all_mids (manager c)"
      "matches (matchManager k) = matches (manager c)"
    using reg(3) by (simp_all add: all_mids_def)
  have "dist_of (matchServices (manager c)) ?s = []"
    using assms(2) by (auto simp: new_uuid_def dist_of_def sids_find_iff split: option.split)
  then have "run_by (fold deliver (enqueue cmds ch s) (ms s)) = dist_of (matchServices (manager c)) s" if "live k s" for s
    using that assms(1,5,6) reg(2,4) by (cases "s = ?s") (auto simp: cluster_ok_def will_run_def enqueue_def)
  then show ?thesis
    using assms(1) m central_ok_registration [OF ok(1) assms(2-4)]
    by (simp add: cluster_ok_def will_run_def single_places_def)
qed

lemma cluster_ok_loss:
  assumes "cluster_ok c" and "- (2 ^ 31) \<le> ref_logicID session" and "ref_logicID session < 2 ^ 31"
    and "cs_onClose now session (central c) = Inr k"
  shows "cluster_ok (c\<lparr>central := k, channels := (channels c)(ref_logicID session := [])\<rparr>)"
proof -
  have ok: "central_ok (central c)" "linked (central c)"
    using assms(1) by (simp_all add: cluster_ok_def central_ok_def)
  note loss = loss_of_a_connection [OF ok(2) assms(2-4)]
  have "matchServices (matchManager k) = matchServices (manager c)" "all_mids (matchManager k) = all_mids (manager c)"
      "matches (matchManager k) = matches (manager c)"
    using loss(3) by (auto simp: all_mids_def)
  then show ?thesis
    using assms(1) loss(2) central_ok_loss [OF ok(1) assms(2-4)]
    by (simp add: cluster_ok_def will_run_def single_places_def)
qed

lemma cluster_step_ok: "cluster_step c c' \<Longrightarrow> cluster_ok c \<Longrightarrow> cluster_ok c'"
proof (induction rule: cluster_step.induct)
  case (registers session c r now extra k cmds ms)
  then show ?case
    by (intro cluster_ok_registers [where session = session and r = r and now = now])
      (simp_all add: MatchSession_handlerMsg_def as_register_def run_by_def MSMatchManager_new_def)
next
  case (other_registers session c r now k cmds)
  then show ?case
    using cluster_ok_registers [of c session r now k cmds "match_servers c" "channels c"] by simp
next
  case (connection_lost session now c k)
  then show ?case
    by (intro cluster_ok_loss)
next
  case (redistributes now c k cmds)
  have ok: "central_ok (central c)" "single_places (manager c)"
    using redistributes.prems by (simp_all add: cluster_ok_def)
  note told = redistribution_informs [OF ok(1) redistributes.hyps]
  show ?case
    using told(3,4) ok(2) redistributes.prems
    by (intro cluster_ok_informed told) (simp_all add: single_places_def)
next
  case (cancels i c reason k cmds)
  have ok: "central_ok (central c)" "single_places (manager c)"
    using cancels.prems by (simp_all add: cluster_ok_def)
  note told = cancel_informs [OF ok(1) cancels.hyps(2,1)]
  have "single_places (matchManager k)"
    using told(3) by (intro single_places_subset [OF ok(2) told(4)]) simp
  then show ?case
    by (intro cluster_ok_informed [OF cancels.prems] told)
next
  case (updates i properties c r mm es)
  note keeps = updateMatch_keeps [OF updates.hyps]
  have "single_places (manager c)"
    using updates.prems by (simp add: cluster_ok_def)
  then have "single_places mm"
    by (rule single_places_subset) (simp_all only: all_mids_def keeps subset_mset.order_refl)
  moreover have "mm_ok mm"
    using updates.prems updateMatch_ok [OF _ updates.hyps] by (simp add: cluster_ok_def central_ok_def)
  ultimately show ?case
    by (intro cluster_ok_manager [OF updates.prems] keeps)
next
  case (creates ps c now)
  have ok: "mm_ok (manager c)" "single_places (manager c)"
    using creates.prems by (simp_all add: cluster_ok_def central_ok_def)
  then have "single_places (createdMatches now ps (manager c))"
    using creates.hyps by (intro single_places_created) (simp_all add: mm_ok_def)
  then show ?case
    by (intro cluster_ok_manager [OF creates.prems]) (simp_all add: ok createdMatches_ok createdMatches_keeps)
next
  case (delivers c s p rest)
  have "will_run c s = run_by (fold deliver rest (deliver p (match_servers c s)))"
    using delivers.hyps by (simp add: will_run_def)
  then show ?case
    using delivers.prems by (auto simp: cluster_ok_def will_run_def)
next
  case (plays session ty parsed extra c s ms cmds)
  have "run_by ms = run_by (match_servers c s)"
    using plays_same_matches [of session ty parsed extra "match_servers c s"] plays.hyps by simp
  then show ?case
    using plays.prems deliver_all_cong [of ms "match_servers c s"] by (simp add: cluster_ok_def will_run_def)
qed

lemma cluster_reachable_ok: "cluster_reachable c \<Longrightarrow> cluster_ok c"
  by (induction rule: cluster_reachable.induct) (simp_all add: start_ok cluster_step_ok)

section \<open>Properties\<close>

lemma assigned_once:
  assumes "central_ok k" and "single_places (matchManager k)"
    and "i \<in> set (dist_of (matchServices (matchManager k)) s)" and "i \<in> set (dist_of (matchServices (matchManager k)) t)"
  shows "s = t"
proof (rule ccontr)
  let ?m = "matchServices (matchManager k)"
  assume "s \<noteq> t"
  have ok: "om_ok sid ?m"
    using assms(1) by (simp add: central_ok_def mm_ok_def)
  have "om_values ?m = mset (dist_of ?m s) + (mset (dist_of ?m t) + om_values (om_erase sid t (om_erase sid s ?m)))"
    using erase_dist_of [OF ok, of s] erase_dist_of [OF om_erase_ok [OF ok], of t s] \<open>s \<noteq> t\<close>
    by (simp add: dist_of_erase ac_simps)
  moreover have "1 \<le> count (mset (dist_of ?m s)) i" "1 \<le> count (mset (dist_of ?m t)) i"
    using assms(3,4) by simp_all
  ultimately have "2 \<le> count (om_values ?m) i"
    by (simp only: count_union)
  moreover have "count (om_values ?m) i + count (mset (undistMatches (matchManager k))) i \<le> 1"
    using assms(2) by (simp add: single_places_def all_mids_def)
  ultimately show False
    by simp
qed

lemma placed:
  assumes "om_ok sid (matchServices m)" and "i \<in># all_mids m"
  shows "i \<in> set (undistMatches m) \<or> (\<exists>s \<in> set (sids (matchServices m)). i \<in> set (dist_of (matchServices m) s))"
proof (cases "i \<in> set (undistMatches m)")
  case False
  then obtain e where e: "e \<in> set (matchServices m)" "i \<in> set (snd e)"
    using assms(2) by (auto simp: all_mids_def om_values_def)
  then have "dist_of (matchServices m) (sid (fst e)) = snd e"
    by (intro entry_dist_of assms(1))
  then show ?thesis
    using e by (force simp: sids_def)
qed simp

text \<open>What is under way to a server arrives, whatever else is going on.\<close>

lemma channel_drains:
  "\<exists>c'. cluster_step\<^sup>*\<^sup>* c c' \<and> central c' = central c \<and> channels c' s = [] \<and> run_by (match_servers c' s) = will_run c s"
proof (induction "channels c s" arbitrary: c)
  case Nil
  then show ?case
    by (intro exI [of _ c]) (simp add: will_run_def)
next
  case (Cons p rest)
  let ?c = "c\<lparr>match_servers := (match_servers c)(s := deliver p (match_servers c s)), channels := (channels c)(s := rest)\<rparr>"
  have step: "cluster_step c ?c"
    using Cons.hyps(2) by (intro delivers) simp
  have "will_run ?c s = will_run c s"
    using Cons.hyps(2) [symmetric] by (simp add: will_run_def)
  moreover obtain c' where "cluster_step\<^sup>*\<^sup>* ?c c'" "central c' = central ?c" "channels c' s = []"
      "run_by (match_servers c' s) = will_run ?c s"
    using Cons.hyps(1) [of ?c] by auto
  ultimately show ?case
    using step by (intro exI [of _ c']) (simp add: converse_rtranclp_into_rtranclp)
qed


text \<open>A run: the match server with uuid 1 registers, match 5 is given to it, and the list arrives.\<close>

definition sample_central :: "service_map \<Rightarrow> ChangedService list \<Rightarrow> int list \<Rightarrow> CSKernel" where
  "sample_central services changed undist =
     \<lparr>servers = [(CENTRAL_SID, Some (central_info 0 [])),
        (1, Some (ServerInfo_new\<lparr>si_type := ServerType_MatchServer, si_sid := 1, si_connectTimes := 1\<rparr>))],
      matchManager = \<lparr>matchServices = services, matches = [(5, CPGMatchProfile_new)], changedServices = changed,
        undistMatches = undist, timer = changed \<noteq> [], matchLatestUpdateTime = 0, changedMatchMapCB = True\<rparr>\<rparr>"

definition sample_cluster :: "CSKernel \<Rightarrow> packet list \<Rightarrow> Cluster" where
  "sample_cluster k ps = \<lparr>central = k, match_servers = (\<lambda>_. sample_ms []), channels = (\<lambda>_. [])(1 := ps)\<rparr>"

lemma sample_registered:
  "cluster_reachable (sample_cluster (sample_central [] [\<lparr>ctype = Added, service = sample_key 1, stamp = 0\<rparr>] [5])
     [(kServerRegistRS, None)])" (is "cluster_reachable ?c")
proof -
  let ?start = "cluster_start [(5, CPGMatchProfile_new)] 0 [] (\<lambda>_. sample_ms [])"
  let ?session = "\<lparr>ref_uuid = 1, ref_type = ServerType_MatchServer, ref_logicID = - 1\<rparr>"
  let ?r = "\<lparr>rq_sid = INVALID_LID, rq_type = ServerType_MatchServer, rq_connectTypes = [], rq_listeners = []\<rparr>"
  have "MatchSession_handlerMsg 0 ?session kServerRegistRQ (Some (BRegister ?r)) 0 (central ?start) =
      Inr (central ?c, [SetLogicID 1 1, Send (ToSession 1) kServerRegistRS (RegisterRS 0 1 []) 0])"
    by code_simp
  moreover have "new_uuid 1 (central ?start)"
    by code_simp
  moreover have "ms_manager (sample_ms []) = MSMatchManager_new"
    by code_simp
  ultimately have "cluster_step ?start (?start\<lparr>central := central ?c,
      match_servers := (match_servers ?start)(1 := sample_ms []),
      channels := enqueue [SetLogicID 1 1, Send (ToSession 1) kServerRegistRS (RegisterRS 0 1 []) 0]
        ((channels ?start)(1 := []))\<rparr>)"
    using registers [of ?session ?start ?r 0 0] by simp
  moreover have "?start\<lparr>central := central ?c,
      match_servers := (match_servers ?start)(1 := sample_ms []),
      channels := enqueue [SetLogicID 1 1, Send (ToSession 1) kServerRegistRS (RegisterRS 0 1 []) 0]
        ((channels ?start)(1 := []))\<rparr> = ?c"
    by (auto simp: cluster_start_def sample_cluster_def enqueue_def m2c_parse_def fun_eq_iff)
  moreover have "cluster_reachable ?start"
    by (intro cluster_reachable.init) (simp add: om_ok_def)
  ultimately show ?thesis
    using cluster_reachable.step by metis
qed

lemma sample_told:
  "cluster_reachable (sample_cluster (sample_central [(\<lparr>sid = 1, loaded = 1\<rparr>, [5])] [] [])
     [(kServerRegistRS, None), (kServerMatchDistributeNotify, Some (BDistribute [5]))])" (is "cluster_reachable ?c")
proof -
  let ?c1 = "sample_cluster (sample_central [] [\<lparr>ctype = Added, service = sample_key 1, stamp = 0\<rparr>] [5])
     [(kServerRegistRS, None)]"
  let ?cmds = "[Send (ToUuid 1) kServerMatchDistributeNotify (ServiceMatchDistibuteNotify 1 [5]) 0,
     Send (ToType ServerType_GateServer) kServerAllMatchDistributeNotify (ServerAllMatchDistributeNotify [(1, [5])]) 0]"
  have "cs_redistribute 30 (central ?c1) = Inr (central ?c, ?cmds)"
    by code_simp
  then have "cluster_step ?c1 (?c1\<lparr>central := central ?c, channels := enqueue ?cmds (channels ?c1)\<rparr>)"
    by (rule redistributes)
  moreover have "?c1\<lparr>central := central ?c, channels := enqueue ?cmds (channels ?c1)\<rparr> = ?c"
    by (auto simp: sample_cluster_def enqueue_def m2c_parse_def fun_eq_iff)
  ultimately show ?thesis
    using cluster_reachable.step [OF sample_registered] by metis
qed


text \<open>Without the condition on new uuids the last property fails: a new process that gets the uuid
  of a match server just lost is taken for that server. Its pending change is an update instead
  of the removal, so the matches of the lost server stay assigned to it and nobody tells it.\<close>

theorem reused_uuid_inherits_lost_matches:
  assumes "cluster_reachable c" and "live (central c) s" and "changedServices (manager c) = []"
    and "ref_logicID old = s" and "ref_uuid new = s" and "ref_type new = ServerType_MatchServer"
    and "cs_onClose now old (central c) = Inr k1" and "rq_sid r = INVALID_LID"
    and "MatchSession_handlerMsg now' new kServerRegistRQ (Some (BRegister r)) extra k1 = Inr (k2, cmds)"
    and "run_by ms = []"
  shows "live k2 s \<and> getDistMatch s (matchManager k2) = getDistMatch s (manager c) \<and>
    map (\<lambda>ch. (ctype ch, sid (service ch))) (changedServices (matchManager k2)) = [(Update, s)] \<and>
    run_by (fold deliver (packets_to s cmds) ms) = []"
proof -
  have ok: "central_ok (central c)" "linked (central c)"
    using cluster_reachable_ok [OF assms(1)] by (simp_all add: cluster_ok_def central_ok_def)
  have s: "0 \<le> s" "s < 2147483648"
    using linkedD [OF ok(2)] live_registered [OF assms(2)] by blast+
  then have range: "- (2 ^ 31) \<le> ref_logicID old" "ref_logicID old < 2 ^ 31" "0 \<le> ref_uuid new \<and> ref_uuid new < 2 ^ 31"
    using assms(4,5) by simp_all
  note loss = loss_of_a_connection [OF ok(2) range(1,2) assms(7)]
  have "serverRegistRQ now' new (Some r) k1 = Inr (k2, cmds)"
    using assms(9) by (simp add: MatchSession_handlerMsg_def as_register_def)
  note reg = fresh_registration [OF loss(1) range(3) assms(8) this]
  have listed: "s \<in> set (sids (matchServices (manager c)))"
    using ok(1) assms(2,3) by (auto simp: central_ok_def pending_ids_def)
  obtain l where m1: "matchManager k1 = removeMatchService now \<lparr>sid = s, loaded = l\<rparr> (manager c)"
    using loss(3) assms(2,4) by auto
  have m2: "matchManager k2 = updateMatchService now' \<lparr>sid = s, loaded = 0\<rparr> (matchManager k1)"
    using reg(3) assms(5,6) by simp
  have "map (\<lambda>ch. (ctype ch, sid (service ch))) (changedServices (matchManager k2)) = [(Update, s)]"
    using m1 m2 listed assms(3) by (auto simp: updateMatchService_def removeMatchService_def Let_def sids_find_iff)
  then show ?thesis
    using reg(2,4) m1 m2 assms(5,6,10) by (simp add: getDistMatch_dist_of)
qed

theorem reused_uuid_inherits_lost_matches_witness:
  "\<exists>k1 k2 cmds. cs_onClose 40 \<lparr>ref_uuid = 1, ref_type = 3, ref_logicID = 1\<rparr>
      (sample_central [(\<lparr>sid = 1, loaded = 1\<rparr>, [5])] [] []) = Inr k1 \<and>
    MatchSession_handlerMsg 41 \<lparr>ref_uuid = 1, ref_type = 3, ref_logicID = - 1\<rparr> 5001
      (Some (BRegister \<lparr>rq_sid = - 1, rq_type = 3, rq_connectTypes = [], rq_listeners = []\<rparr>)) 0 k1 = Inr (k2, cmds) \<and>
    getDistMatch 1 (matchManager k2) = [5] \<and> run_by (fold deliver (packets_to 1 cmds) (sample_ms [])) = []"
proof -
  let ?k = "sample_central [(\<lparr>sid = 1, loaded = 1\<rparr>, [5])] [] []"
  let ?c = "sample_cluster ?k [(kServerRegistRS, None), (kServerMatchDistributeNotify, Some (BDistribute [5]))]"
  let ?old = "\<lparr>ref_uuid = 1, ref_type = 3, ref_logicID = 1\<rparr>" and ?new = "\<lparr>ref_uuid = 1, ref_type = 3, ref_logicID = - 1\<rparr>"
  let ?r = "\<lparr>rq_sid = - 1, rq_type = 3, rq_connectTypes = [], rq_listeners = []\<rparr>"
  have c: "live (central ?c) 1" "changedServices (manager ?c) = []" "getDistMatch 1 (manager ?c) = [5]"
      "central ?c = ?k" "ServerType_MatchServer = 3" "kServerRegistRQ = 5001" "run_by (sample_ms []) = []"
      "INVALID_LID = - 1"
    by code_simp+
  have "isl (cs_onClose 40 ?old ?k) = False"
    by code_simp
  then obtain k1 where k1: "cs_onClose 40 ?old ?k = Inr k1"
    by (cases "cs_onClose 40 ?old ?k") auto
  have "isl (rbind (cs_onClose 40 ?old ?k) (MatchSession_handlerMsg 41 ?new 5001 (Some (BRegister ?r)) 0)) = False"
    by code_simp
  then obtain k2 cmds where k2: "MatchSession_handlerMsg 41 ?new 5001 (Some (BRegister ?r)) 0 k1 = Inr (k2, cmds)"
    using k1 by (cases "MatchSession_handlerMsg 41 ?new 5001 (Some (BRegister ?r)) 0 k1") auto
  show ?thesis
    using reused_uuid_inherits_lost_matches [OF sample_told c(1,2), of ?old ?new 40 k1 ?r 41 0 k2 cmds "sample_ms []"] k1 k2 c
    by (intro exI [of _ k1] exI [of _ k2] exI [of _ cmds]) simp
qed

text \<open>A match of a service that was lost, but is not removed yet, is cancelled at the server with
  uuid 0: that server takes over the other's list.\<close>

theorem cancel_after_loss_reaches_server_0:
  assumes "getMatch i (matchManager k) = Some p" and "sint (match_state p) \<le> ENUM_STATE_READY"
    and "getService i (matchManager k) > 0" and "map_of (servers k) (uint_of (getService i (matchManager k))) = None"
    and "changedMatchMapCB (matchManager k)"
    and "om_find sid (getService i (matchManager k)) (matchServices (matchManager k)) = Some (key, mids)"
  shows "\<exists>k' cmds. cs_cancelMatch i reason k = Inr (k', cmds) \<and>
    run_by (fold deliver (packets_to 0 cmds) ms) = removeAll i mids"
proof -
  let ?s = "getService i (matchManager k)"
  let ?m = "without_waiting i ((matchManager k)\<lparr>matchServices := om_modify sid ?s (removeAll i) (matchServices (matchManager k))\<rparr>)"
  have "cancelMatch i reason (matchManager k) =
      Inr (kNoneError, ?m, ChangedMatchMap [(uint_of ?s, removeAll i mids)] # [CancelMatchRQ i reason])"
    using assms by (simp add: cancelMatch_def Let_def without_waiting_def)
  moreover have "uint_of (uint_of ?s) = uint_of ?s"
    by (simp add: uint_of_def)
  ultimately show ?thesis
    using assms(4)
    by (auto simp: cs_cancelMatch_def distributeMatch_def cs_getService_def ServerInfo_new_def m2c_parse_def deliver_list)
qed

theorem cancel_after_loss_reaches_server_0_witness:
  "\<exists>k' cmds. cs_cancelMatch 5 0 ((sample_central [(\<lparr>sid = 1, loaded = 2\<rparr>, [5, 6])] [] [])\<lparr>servers := []\<rparr>) = Inr (k', cmds) \<and>
    run_by (fold deliver (packets_to 0 cmds) (sample_ms [9])) = [6]"
proof -
  let ?k = "(sample_central [(\<lparr>sid = 1, loaded = 2\<rparr>, [5, 6])] [] [])\<lparr>servers := []\<rparr>"
  have k: "getMatch 5 (matchManager ?k) = Some CPGMatchProfile_new" "sint (match_state CPGMatchProfile_new) \<le> ENUM_STATE_READY"
      "getService 5 (matchManager ?k) = 1" "servers ?k = []" "changedMatchMapCB (matchManager ?k)"
      "om_find sid 1 (matchServices (matchManager ?k)) = Some (\<lparr>sid = 1, loaded = 2\<rparr>, [5, 6])"
    by code_simp+
  have "0 < getService 5 (matchManager ?k)" "map_of (servers ?k) (uint_of (getService 5 (matchManager ?k))) = None"
      "om_find sid (getService 5 (matchManager ?k)) (matchServices (matchManager ?k)) = Some (\<lparr>sid = 1, loaded = 2\<rparr>, [5, 6])"
    by (simp_all only: k map_of.simps zero_less_one)
  from cancel_after_loss_reaches_server_0 [OF k(1,2) this(1,2) k(5) this(3), of 0 "sample_ms [9]"]
  show ?thesis
    by simp
qed

end
