(* ===== verification/ClusterPlay.thy ===== *)
theory ClusterPlay
  imports ClusterInvariant GateServer
begin

text \<open>
  What the players get from the central server and its match servers: in every state they can
  reach, a match that is assigned to a connected match server can be joined through every gate
  that is connected to that server and has the current list of the central server.
\<close>

section \<open>The counts of the match servers\<close>

text \<open>Every connected match server keeps a count for exactly the matches it runs.\<close>

definition counting :: "Cluster \<Rightarrow> bool" where
  "counting c \<longleftrightarrow> (\<forall>s. live (central c) s \<longrightarrow> ms_ok (ms_manager (match_servers c s)))"

lemma new_manager_ok: "ms_ok MSMatchManager_new"
proof -
  have "counts MSMatchManager_new = Map.empty"
    by (simp add: counts_def MSMatchManager_new_def fun_eq_iff)
  then show ?thesis
    by (simp add: ms_ok_def) (simp add: MSMatchManager_new_def)
qed

lemma exec_ok: "ms_ok m \<Longrightarrow> ms_ok (snd (ms_exec e m))"
  using ms_exec_refines [of m e] by (cases "ms_exec e m") simp

lemma updateMatches_ok: "ms_ok m \<Longrightarrow> ms_ok (updateMatches mids m)"
  using exec_ok [of m "Assign mids"] by simp

lemma deliver_ok: "ms_ok (ms_manager ms) \<Longrightarrow> ms_ok (ms_manager (deliver p ms))"
  by (auto simp: deliver_def M2CSession_handlerMsg_def checkMatchDistributeRS_def ms_distibuteMatchesNotify_def
      updateMatches_ok split: option.split)

lemma requests_ok:
  assumes "ms_ok (ms_manager ms)"
  shows "ms_ok (ms_manager (fst (joinMatchRQ session (p, rq) extra ms)))"
    and "ms_ok (ms_manager (fst (unjoinMatchRQ session (p, rq) extra ms)))"
  using exec_ok [OF assms, of "Join (m_uid rq) (m_mid rq) (m_mtype rq)"]
    exec_ok [OF assms, of "Unjoin (m_uid rq) (m_mid rq) (m_mtype rq)"] assms
  by (simp_all add: joinMatchRQ_def unjoinMatchRQ_def case_prod_beta)

lemma plays_ok:
  "ms_ok (ms_manager ms) \<Longrightarrow> ms_ok (ms_manager (fst (MSGateSession_handlerMsg session ty parsed extra ms)))"
  by (cases parsed) (simp add: MSGateSession_handlerMsg_def requests_ok)

lemma counting_step: "cluster_step c c' \<Longrightarrow> cluster_ok c \<Longrightarrow> counting c \<Longrightarrow> counting c'"
proof (induction rule: cluster_step.induct)
  case (registers session c r now extra k cmds ms)
  then have "live k = (live (central c))(ref_uuid session := True)"
    using fresh_registration(2) [of "central c" session r now k cmds]
    by (simp add: MatchSession_handlerMsg_def as_register_def cluster_ok_def central_ok_def new_uuid_def)
  then show ?case
    using registers by (simp add: counting_def new_manager_ok)
next
  case (other_registers session c r now k cmds)
  then have "live k = (live (central c))(ref_uuid session := False)"
    using fresh_registration(2) [of "central c" session r now k cmds]
    by (simp add: cluster_ok_def central_ok_def new_uuid_def)
  then show ?case
    using other_registers by (simp add: counting_def)
next
  case (connection_lost session now c k)
  then have "live k = (live (central c))(ref_logicID session := False)"
    using loss_of_a_connection(2) [of "central c" session now k] by (simp add: cluster_ok_def central_ok_def)
  then show ?case
    using connection_lost by (simp add: counting_def)
next
  case (redistributes now c k cmds)
  then have "servers k = servers (central c)"
    using redistribution_informs(2) by (simp add: cluster_ok_def)
  then show ?case
    using redistributes live_same_servers [of k "central c"] by (simp add: counting_def)
next
  case (cancels i c reason k cmds)
  then have "servers k = servers (central c)"
    using cancel_informs(2) [of "central c" i reason k cmds] by (simp add: cluster_ok_def)
  then show ?case
    using cancels live_same_servers [of k "central c"] by (simp add: counting_def)
next
  case (plays session ty parsed extra c s ms cmds)
  then have "ms_ok (ms_manager (match_servers c s)) \<Longrightarrow> ms_ok (ms_manager ms)"
    using plays_ok [of "match_servers c s" session ty parsed extra] by simp
  then show ?case
    using plays by (simp add: counting_def)
qed (simp_all add: counting_def live_def deliver_ok)

lemma reachable_counting: "cluster_reachable c \<Longrightarrow> counting c"
proof (induction rule: cluster_reachable.induct)
  case (init loadedMatches now listens ms)
  then show ?case
    by (auto simp: counting_def live_def cluster_start_def cs_start_def CENTRAL_SID_def central_info_def
        ServerInfo_new_def server_types)
next
  case (step c c')
  then show ?case
    using counting_step cluster_reachable_ok by blast
qed

section \<open>Joining\<close>

lemma join_of_a_running_match:
  assumes "ms_ok (ms_manager ms)" and "i \<in> set (run_by ms)"
  shows "\<exists>n ms'. counts (ms_manager ms) i = Some n \<and> counts (ms_manager ms') i = Some (n + 1) \<and>
    MSGateSession_handlerMsg peer kJoinMatchRQ (True, \<lparr>m_uid = uid, m_mid = i, m_mtype = t\<rparr>) x ms =
      (ms', [Send (ToSession (ref_uuid peer)) kJoinMatchRS (JoinMatchRS uid i t (n + 1) 0) x])"
proof -
  obtain n where n: "counts (ms_manager ms) i = Some n"
    using assms by (auto simp: ms_ok_def run_by_def dom_def)
  obtain r mm where join: "ms_joinMatch uid i t (ms_manager ms) = (r, mm)"
    by fastforce
  then have "r = n + 1" "counts mm i = Some (n + 1)"
    using ms_exec_refines [OF assms(1), of "Join uid i t" r mm] n by (auto simp: fun_eq_iff split: if_splits)
  then show ?thesis
    using n join by (intro exI [of _ n] exI [of _ "ms\<lparr>ms_manager := mm\<rparr>"])
      (simp add: MSGateSession_handlerMsg_def joinMatchRQ_def)
qed

text \<open>The list the gates get names the service of every assigned match, and no other for it.\<close>

lemma list_names_the_service:
  assumes "cluster_ok c" and "i \<in> set (getDistMatch s (manager c))"
  shows "\<exists>mids. (s, mids) \<in> set (map (\<lambda>(key, mids). (sid key, mids)) (matchServices (manager c))) \<and> i \<in> set mids"
    and "distinct (map fst (map (\<lambda>(key, mids). (sid key, mids)) (matchServices (manager c))))"
    and "\<forall>e \<in> set (map (\<lambda>(key, mids). (sid key, mids)) (matchServices (manager c))). i \<in> set (snd e) \<longrightarrow> fst e = s"
proof -
  let ?m = "matchServices (manager c)"
  have ok: "central_ok (central c)" "single_places (manager c)" "om_ok sid ?m"
    using assms(1) by (simp_all add: cluster_ok_def central_ok_def mm_ok_def)
  have i: "i \<in> set (dist_of ?m s)"
    using assms(2) by (simp add: getDistMatch_dist_of)
  then obtain key mids where "om_find sid s ?m = Some (key, mids)" "i \<in> set mids"
    by (cases "om_find sid s ?m") (auto simp: dist_of_def)
  then show "\<exists>mids. (s, mids) \<in> set (map (\<lambda>(key, mids). (sid key, mids)) ?m) \<and> i \<in> set mids"
    using om_find_SomeD [of sid s ?m "(key, mids)"] by (intro exI [of _ mids]) force
  show "distinct (map fst (map (\<lambda>(key, mids). (sid key, mids)) ?m))"
    using om_ok_distinct [OF ok(3)] by (simp add: comp_def case_prod_beta)
  have "sid (fst e) = s" if "e \<in> set ?m" "i \<in> set (snd e)" for e
    using assigned_once [OF ok(1,2), of i "sid (fst e)" s] entry_dist_of [OF ok(3) that(1)] that(2) i by simp
  then show "\<forall>e \<in> set (map (\<lambda>(key, mids). (sid key, mids)) ?m). i \<in> set (snd e) \<longrightarrow> fst e = s"
    by fastforce
qed


lemma reachable_steps: "cluster_step\<^sup>*\<^sup>* c c' \<Longrightarrow> cluster_reachable c \<Longrightarrow> cluster_reachable c'"
  by (induction rule: rtranclp_induct) (auto intro: cluster_reachable.step)

definition gate_of_sample :: GSKernel where
  "gate_of_sample = GSKernel_new\<lparr>connectServices := [(4, \<lparr>sc_type = 3, sc_port = 7000, sc_sid = 1, sc_ip = ''10.0.0.4'',
     sc_session = Some \<lparr>ref_uuid = 4, ref_type = 3, ref_logicID = 1\<rparr>\<rparr>)]\<rparr>"


end
