(* ===== verification/Spec2Isabelle.thy ===== *)
theory Spec2Isabelle
  imports Prelude DataBuffer NetPacket PacketLoop ObjectIndexPool TCPSession TCPSessionManager
    StdContainers MatchDistribution Decimal MatchProfile CSMatchManager SQLConnector MatchFactory
    ServerMessages CSKernel ServiceKernel ServerConfig CPGSession GateServer MatchServer
    LoginBalanceServers ObjectPool ActiveThreads WebServer TCPConnector TCPEndpoints BetAlgorithm
    LogStream LogBackend MatchJson Robots HttpClient
    QueryParams NetUtil ServerStart ClientPath LogSystem FactoryJson DateFormats
    SessionFactories Cluster ClusterInvariant ClusterPlay
begin

text \<open>
  A model of the servers of a card game platform (fenggeren/asio_utils): a network library on top
  of asio and the central, gate, match, login and balance servers built with it.

  \<^bold>\<open>The program.\<close> Clients and servers exchange packets, a header of three 32-bit integers and a
  body, over TCP. A \<open>TCPSession\<close> buffers what is received and sent; a \<open>TCPSessionManager\<close> keeps
  the sessions of a server by index, made by a \<open>TCPListener\<close> for incoming and a \<open>TCPConnector\<close>
  for outgoing connections. The central server (\<open>CSKernel\<close>) registers the other servers, tells
  them whom to connect to, and distributes the matches over the match servers
  (\<open>CSMatchManager\<close> with its distribution strategy); gates pass the packets of clients on by
  message id and match; match servers count players; balance servers name the gate with the
  smallest load. Matches are stored by a database thread through \<open>SQLConnector\<close>, and created
  through a web interface whose threads wait for that thread with promises.

  \<^bold>\<open>Theories and sources\<close> (paths under src/ASIO_ALONE_STUDY unless said otherwise):
  \<^item> \<open>Prelude\<close>: failures as values of \<open>error + 'a\<close>, machine integers, generic lemmas;
    \<open>Decimal\<close>: \<open>std::to_string\<close> and \<open>atoi\<close>; \<open>StdContainers\<close>: \<open>std::map\<close> and \<open>std::list::merge\<close>.
  \<^item> \<open>DataBuffer\<close>: Net/DataBuffer.hpp. A buffer is its array and two indices; the lemmas show that
    it implements a byte queue (locale and interpretation), whatever space is left.
  \<^item> \<open>NetPacket\<close>, \<open>PacketLoop\<close>: Net/Util/NetPacket.cpp and the receive loop of
    CPG/Net/CPGNetSession.cpp, which may not end: it is a \<open>partial_function (option)\<close>, shown to
    return for every input without one particular header, and to diverge for that one.
  \<^item> \<open>ObjectIndexPool\<close>, \<open>ObjectPool\<close>: the pools of Net/Util, the first for session indices, the
    second for raw memory, each with the contract its users rely on as a locale.
  \<^item> \<open>TCPSession\<close>, \<open>TCPSessionManager\<close>: Net/TCPSession.cpp, Net/TCPSessionManager.cpp. Sessions live
    in an explicit heap; socket calls are effects. The output side is a step relation whose
    reachable states keep the byte stream exact.
  \<^item> \<open>TCPConnector\<close>, \<open>TCPEndpoints\<close>: Net/TCPConnector.cpp as a machine driven by resolver, network,
    timer and owner; Net/TCPAcceptor.cpp, TCPListener.cpp, TCPServer.cpp, TCPClient.cpp and
    TimerManager.
  \<^item> \<open>ActiveThreads\<close>: Net/Util/Active.hpp as the interleaved atomic steps of senders and worker,
    EventActive.hpp and CPG/DB/DBActiveWrapper.cpp on top of the pool.
  \<^item> \<open>ServerConfig\<close>, \<open>ServerMessages\<close>, \<open>ServiceKernel\<close>, \<open>CPGSession\<close>: CPG/Util/ServerConfigManager.cpp,
    the message ids and server types, Net/ServiceKernel.cpp (with the hooks of the servers as a
    locale), and the session classes of CPG/Net with heartbeats and registration.
  \<^item> \<open>MatchDistribution\<close>, \<open>CSMatchManager\<close>, \<open>CSKernel\<close>, \<open>WebServer\<close>: the central server
    (src/CentralServer/CentralServer/Class), with \<open>MatchProfile\<close>, \<open>MatchJson\<close>, \<open>SQLConnector\<close> and
    \<open>MatchFactory\<close> for CPG/MatchHelper and CPG/DB; \<open>QueryParams\<close>: the query parser of CSWebServer.cpp.
  \<^item> \<open>GateServer\<close>, \<open>MatchServer\<close>, \<open>LoginBalanceServers\<close>: src/GateWay, src/MatchServer,
    src/LoginServer and src/BalanceServer; \<open>Robots\<close>: the load generator src/ClientRobots, which plays
    their clients; \<open>HttpClient\<close>: the request thread of CPG/Http/HTTPClientManager.cpp;
    \<open>NetUtil\<close>: Net/Conv.cpp, Net/IOContextPool.hpp and Net/Util/ParseProto.hpp.
  \<^item> \<open>BetAlgorithm\<close>, \<open>DateFormats\<close>: CPG/BetAlgorithm.cc; \<open>LogStream\<close>, \<open>LogBackend\<close>, \<open>LogSystem\<close>:
    Net/logging, the last with the macros, the end of a statement and all parts as one step relation.
  \<^item> \<open>FactoryJson\<close>: the JSON side of CPGMatchCreateFactory.cpp, with exceptions that are caught half way.
  \<^item> \<open>ServerStart\<close>: \<open>start\<close> and \<open>runOneService\<close> of all kernels and the timers for heartbeats;
    \<open>SessionFactories\<close>: the factories that make and name the sessions of accepted connections;
    \<open>ClientPath\<close>: the way of a client through balance, central, gate and login server.
  \<^item> \<open>Cluster\<close>, \<open>ClusterInvariant\<close>, \<open>ClusterPlay\<close>: the central server and its match servers as one step
    relation, with the packets under way between them; each step is a whole handler of the theories
    above. The last theory adds the gates.
  This theory holds the properties that span several servers.

  \<^bold>\<open>What is shown.\<close> Byte streams: splitting a stream differently over the reads
  changes nothing, sessions send exactly what they were given in order, messages reach exactly their
  targets. Matches: distribution, redistribution and cancelling conserve them, balance the services and
  keep one pending change per service. Whatever servers come and go, the match servers run what the
  central server has assigned to them, no match runs twice, and an assigned match can be joined through
  every connected gate, with a reply that finds its client; this holds for first registrations under uuids
  that are not reused too soon, and the lemmas after it say what goes wrong otherwise. A profile survives
  its JSON form. Robots: each is what its own replies made of it. Sessions: heartbeats are answered, silent
  sessions and only those are closed, an accepted connection is registered under a name of its own.
  Connections: one attempt at a time, exact delays, every endpoint tried; a process connects exactly to the
  listeners the configuration means, and a server starts all its processes or, for two of them, one.
  Time: silence is noticed within 17 seconds and the lateness of the timer, and heartbeats with at most 6 seconds of
  delay keep a session. Clients: one that asks is led to a gate with the smallest load, gets in and
  holds the matches of the central server. Configured matches: exactly the well-typed ones are stored;
  dates survive their formats. Threads: events, database and HTTP requests are handled in the order of
  sending under every interleaving, no place of memory has two users, and the lines of all threads reach
  the files of the asynchronous log until it is 25 buffers behind. Reference definitions: the fast
  number conversion, the binary search and the match counts agree with simple ones. Where the code does
  not do what it means to, the theorem says what it does instead: packets that hang the receive loop,
  partial or failed writes, stale ids that end the central server, a consistency check that repairs
  nothing, listeners, workers and loggers that do not stop or do not go on.

  \<^bold>\<open>Conventions.\<close> An operation that can fail returns \<open>Inl\<close> with the failure; callbacks and virtual
  functions are parameters; pointers index explicit heaps. Definitions are executable, apart from
  the receive loop. No fuel is used: loops are structural, have a termination proof, or are the
  partial function above. Integers have the width of the source where it matters (packet sizes,
  ids, indices, buffers) and are unbounded where the values are shown or seen to be small.

  \<^bold>\<open>Not modelled.\<close> The vendored libraries under CPG/Third and the generated protocol
  buffer code are outside: JSON and packets with a protobuf body arrive parsed, encoders are parameters.
  So are asio itself, the database, \<open>fwrite\<close>, the clock and the random generator, which
  appear as arguments or as the environment of a step relation. The separate program src/WebServer has
  placeholder routes; Queue, the threads of IOContextPool and Thread only call asio; the entry points
  apart from that of the central server and the constant tables of GameDefine.h hold no logic of their
  own.
\<close>

section \<open>The servers together\<close>

text \<open>
  The consistency check between a match server and the central server, as one exchange: the
  matches the server reports, the answer of the central server, and what the server makes of it.
\<close>

fun reply_body :: "command \<Rightarrow> m2c_body option" where
  "reply_body (Send d ty (CheckMatchDistributeRS i t r mids) x) = Some (BCheckRS r mids)"
| "reply_body c = None"

fun reply_id :: "command \<Rightarrow> int" where
  "reply_id (Send d ty msg x) = ty"
| "reply_id c = 0"

definition check_exchange :: "int \<Rightarrow> session_ref \<Rightarrow> MSKernel \<Rightarrow> CSKernel \<Rightarrow> (MSKernel \<times> CSKernel) result" where
  "check_exchange now session ms cs =
     rbind (MatchSession_handlerMsg now session kCheckMatchDistributeRQ
         (Some (BCheck (ms_matches (ms_manager ms)))) 0 cs) (\<lambda>(cs', cmds).
       Inr (fold (\<lambda>c. M2CSession_handlerMsg (reply_id c) (reply_body c)) cmds ms, cs'))"

text \<open>What the central server has given to the service of a session.\<close>

definition assigned :: "session_ref \<Rightarrow> CSKernel \<Rightarrow> int list" where
  "assigned session cs =
     (case om_find sid (ref_logicID session) (matchServices (matchManager cs)) of None \<Rightarrow> [] | Some e \<Rightarrow> snd e)"

lemma check_exchange_known:
  assumes "om_find sid (ref_logicID session) (matchServices (matchManager cs)) = Some (key, dist)"
  shows "\<exists>ms' cs'. check_exchange now session ms cs = Inr (ms', cs') \<and> mset (assigned session cs') = mset dist \<and>
    mset (ms_matches (ms_manager ms')) =
      (if mset (ms_matches (ms_manager ms)) \<subset># mset dist then {#} else mset (ms_matches (ms_manager ms)))"
proof -
  let ?mids = "ms_matches (ms_manager ms)" and ?mm = "matchManager cs"
  have diff: "set_difference (sort dist) (sort ?mids) = [] \<longleftrightarrow> mset dist \<subseteq># mset ?mids"
      "set_difference (sort ?mids) (sort dist) = [] \<longleftrightarrow> mset ?mids \<subseteq># mset dist"
    by (simp_all add: set_difference_empty_iff)
  have upd: "ms_matches (updateMatches xs m) = xs" for xs m
    by (simp add: updateMatches_def Let_def split: prod.splits)
  have mod: "om_find sid (ref_logicID session) (om_modify sid (ref_logicID session) (\<lambda>_. sort dist) (matchServices ?mm)) =
      Some (key, sort dist)"
    using assms by (simp add: om_find_modify)
  show ?thesis
    using assms diff mod
    by (auto simp: check_exchange_def MatchSession_handlerMsg_def kCheckMatchDistributeRQ_def kServerRegistRQ_def
        as_check_def checkMatchDistributeRQ_def checkServiceDistMap_def Let_def M2CSession_handlerMsg_def
        checkMatchDistributeRS_def assigned_def upd subset_mset.less_le)
qed

lemma distribute_each_keeps:
  "distribute_each upd cs = Inr (cs', cmds) \<Longrightarrow> matchManager cs' = matchManager cs"
proof (induction upd cs arbitrary: cs' cmds rule: distribute_each.induct)
  case (2 s mids rest k)
  obtain info k1 where svc: "cs_getService s k = (Some info, k1)"
    using 2(2) by (cases "cs_getService s k") (auto split: option.splits)
  moreover have "matchManager k1 = matchManager k"
    using svc by (auto simp: cs_getService_def split: option.splits)
  ultimately show ?case
    using 2(1) [OF svc [symmetric] refl] 2(2) by auto
qed simp



text \<open>A match that the central server has assigned to exactly one service can be played. Of the
  messages a distribution sends, one tells the gates all assignments; a gate that is connected
  to the service passes every join request for the match, after that message, on to the session
  of the service; and a match server that has handled the list of the service counts the match.\<close>

theorem assigned_match_is_playable:
  assumes "om_ok sid (matchServices (matchManager cs))" and "(key, mids) \<in> set (matchServices (matchManager cs))"
    and "i \<in> set mids" and "\<forall>e \<in> set (matchServices (matchManager cs)). i \<in> set (snd e) \<longrightarrow> fst e = key"
    and "distributeMatch upd cs = Inr (cs', cmds)"
    and "connectServiceSession (sid key) gate = Some session"
    and "ptype h = word_of_int kJoinMatchRQ" and "sint (extraID h) = i" and "ms_ok (ms_manager ms)"
  shows "\<exists>services. Send (ToType ServerType_GateServer) kServerAllMatchDistributeNotify
        (ServerAllMatchDistributeNotify services) 0 \<in> set cmds \<and>
      CGSession_handlerMsg u body h (gs_distibuteMatchesNotify (Some services) gate) =
        [Forward (ToSession (ref_uuid session)) (h\<lparr>extraID := u\<rparr>) body] \<and>
      (sid key, mids) \<in> set services \<and>
      counts (ms_manager (ms_distibuteMatchesNotify (Some mids) ms)) i \<noteq> None"
proof -
  let ?m = "matchServices (matchManager cs)"
  let ?services = "map (\<lambda>(key, mids). (sid key, mids)) ?m"
  have "Send (ToType ServerType_GateServer) kServerAllMatchDistributeNotify (ServerAllMatchDistributeNotify ?services) 0
      \<in> set cmds"
    using assms(5) by (auto simp: distributeMatch_def sendAllDistributeMatchInfos_def getAllMatchServices_def
        dest: distribute_each_keeps)
  moreover have "(sid key, mids) \<in> set ?services"
    using assms(2) by force
  moreover have "distinct (map fst ?services)"
    using om_ok_distinct [OF assms(1)] by (simp add: comp_def case_prod_beta)
  moreover have "\<forall>e \<in> set ?services. i \<in> set (snd e) \<longrightarrow> fst e = sid key"
    using assms(4) by fastforce
  ultimately have "matchServiceSession i (gs_distibuteMatchesNotify (Some ?services) gate) = Some session"
    using notified_route [of "sid key" mids ?services i gate session] assms(3,6) by blast
  then have "CGSession_handlerMsg u body h (gs_distibuteMatchesNotify (Some ?services) gate) =
      [Forward (ToSession (ref_uuid session)) (h\<lparr>extraID := u\<rparr>) body]"
    using assms(7,8) by (auto simp: CGSession_handlerMsg_def in_range_def gs_transToMS_def kJoinMatchRQ_def
        matchServiceSession_def)
  moreover have "counts (ms_manager (ms_distibuteMatchesNotify (Some mids) ms)) i \<noteq> None"
    using assms(3) updateMatches_counts [OF assms(9)] by (simp add: ms_distibuteMatchesNotify_def)
  ultimately show ?thesis
    using \<open>(sid key, mids) \<in> set ?services\<close> \<open>Send _ _ _ _ \<in> set cmds\<close> by blast
qed

theorem assigned_match_is_playable_witness:
  "\<exists>services. CGSession_handlerMsg 6 [1] \<lparr>ptype = 15001, psize = 1, extraID = 8\<rparr>
      (gs_distibuteMatchesNotify (Some services) sample_gate) =
        [Forward (ToSession 4) \<lparr>ptype = 15001, psize = 1, extraID = 6\<rparr> [1]]"
proof -
  let ?key = "\<lparr>sid = 11, loaded = 2\<rparr>"
  let ?cs = "sample_kernel\<lparr>matchManager := sample_manager\<lparr>matchServices := [(?key, [8, 9])]\<rparr>\<rparr>"
  have "distributeMatch [] ?cs = Inr (?cs, sendAllDistributeMatchInfos (ToType ServerType_GateServer) ?cs)"
    by (simp add: distributeMatch_def)
  moreover have "connectServiceSession 11 sample_gate = Some \<lparr>ref_uuid = 4, ref_type = 3, ref_logicID = 11\<rparr>"
    by (simp add: sample_gate_def GSKernel_new_def connectServiceSession_def)
  moreover have "counts MSMatchManager_new = Map.empty"
    by (simp add: counts_def MSMatchManager_new_def fun_eq_iff)
  then have "ms_ok (ms_manager ((sample_ms [])\<lparr>ms_manager := MSMatchManager_new\<rparr>))"
    by (simp add: ms_ok_def) (simp add: MSMatchManager_new_def)
  ultimately show ?thesis
    using assigned_match_is_playable [of ?cs ?key "[8, 9]" 8 "[]" ?cs _ sample_gate
        "\<lparr>ref_uuid = 4, ref_type = 3, ref_logicID = 11\<rparr>" "\<lparr>ptype = 15001, psize = 1, extraID = 8\<rparr>"
        "(sample_ms [])\<lparr>ms_manager := MSMatchManager_new\<rparr>" 6 "[1]"]
    by (auto simp: om_ok_def kJoinMatchRQ_def)
qed

text \<open>C8: A join or unjoin request that a gate has passed on for a client comes back to that client:
  the match server answers the session it got the request from, with the reply id of the
  request and the \<open>extraID\<close> the gate put in, and the gate gives the reply to the session with the
  uuid of the client and to no other.\<close>

theorem match_request_round_trip:
  assumes "ptype h = word_of_int kJoinMatchRQ \<or> ptype h = word_of_int kUnjoinMatchRQ" and "0 \<le> sint u"
    and "CGSession_handlerMsg u body h gate = [Forward (ToSession g) h' body]"
    and "MSGateSession_handlerMsg session (sint (ptype h')) parsed (sint (extraID h')) ms = (ms', cmds)"
  shows "\<exists>ty msg x. cmds = [Send (ToSession (ref_uuid session)) ty msg x] \<and>
    (\<forall>n reply. G2MSession_handlerMsg reply \<lparr>ptype = word_of_int ty, psize = n, extraID = word_of_int x\<rparr> =
       [Forward (ToUuid (sint u)) \<lparr>ptype = word_of_int ty, psize = n, extraID = u\<rparr> reply])"
proof -
  have h': "ptype h' = ptype h" "extraID h' = u"
    using assms(1,3) by (auto simp: CGSession_handlerMsg_def in_range_def gs_transToMS_def kJoinMatchRQ_def
        kUnjoinMatchRQ_def Let_def split: option.splits if_splits)
  have "\<exists>ty msg. cmds = [Send (ToSession (ref_uuid session)) ty msg (sint u)] \<and> (ty = kJoinMatchRS \<or> ty = kUnjoinMatchRS)"
    using assms(1,4) h' by (auto simp: MSGateSession_handlerMsg_def joinMatchRQ_def unjoinMatchRQ_def kJoinMatchRQ_def
        kUnjoinMatchRQ_def Let_def split: prod.splits)
  then show ?thesis
    by (auto simp: G2MSession_handlerMsg_def in_range_def gs_transToClient_def kJoinMatchRS_def kUnjoinMatchRS_def)
qed

theorem match_request_round_trip_witness:
  "\<exists>ty msg x. snd (MSGateSession_handlerMsg \<lparr>ref_uuid = 2, ref_type = 1, ref_logicID = 0\<rparr> 15001
      (True, \<lparr>m_uid = 1, m_mid = 9, m_mtype = 0\<rparr>) 6 (sample_ms [9])) = [Send (ToSession 2) ty msg x] \<and>
    G2MSession_handlerMsg [3] \<lparr>ptype = word_of_int ty, psize = 1, extraID = word_of_int x\<rparr> =
       [Forward (ToUuid 6) \<lparr>ptype = word_of_int ty, psize = 1, extraID = 6\<rparr> [3]]"
proof -
  let ?h = "\<lparr>ptype = 15001, psize = 1, extraID = 9\<rparr>" and ?h' = "\<lparr>ptype = 15001, psize = 1, extraID = 6\<rparr>"
  let ?s = "\<lparr>ref_uuid = 2, ref_type = 1, ref_logicID = 0\<rparr>" and ?rq = "(True, \<lparr>m_uid = 1, m_mid = 9, m_mtype = 0\<rparr>)"
  have "CGSession_handlerMsg 6 [1] ?h sample_gate = [Forward (ToSession 5) ?h' [1]]"
    by (simp add: CGSession_handlerMsg_def in_range_def gs_transToMS_def sample_gate_def matchServiceSession_def)
  moreover obtain ms' cmds where "MSGateSession_handlerMsg ?s 15001 ?rq 6 (sample_ms [9]) = (ms', cmds)"
    by fastforce
  ultimately show ?thesis
    using match_request_round_trip [of ?h 6 "[1]" sample_gate 5 ?h' ?s ?rq "sample_ms [9]" ms' cmds]
    by (auto simp: kJoinMatchRQ_def)
qed

end
